(* ===== verification/Prelude.thy ===== *)
theory Prelude
  imports Main "HOL-Library.Word" "HOL-Library.Monad_Syntax"
begin

text \<open>
  Shared vocabulary of the development.

  \<^item> Machine integers keep their width: \<open>quint8\<close> .. \<open>quint64\<close> are \<open>8 word\<close> .. \<open>64 word\<close>;
    a C++ \<open>int\<close> is an \<open>int\<close> (each component states why its values stay inside 32 bits, or
    reports where they do not).
  \<^item> \<open>QByteArray\<close> and \<open>QList\<close> are lists. A C++ read \<open>xs.at(i)\<close> or \<open>xs[i]\<close> with an index out
    of range stops the program (an assertion, or undefined behaviour): \<open>list_at\<close> and \<open>list_put\<close>
    return \<open>None\<close> there, so that "no operation leaves its list" is a theorem and not a
    convention.
  \<^item> The bit-level facts of this file carry the proofs about frames, checksums and byte orders.
\<close>

unbundle bit_operations_syntax

type_synonym u8 = "8 word"
type_synonym u16 = "16 word"
type_synonym u32 = "32 word"
type_synonym u64 = "64 word"
type_synonym bytes = "u8 list"

named_theorems wire_simps \<open>layout of byte sequences: lengths, positions, bit fields\<close>

section \<open>Checked list access\<close>

definition list_at :: "'a list \<Rightarrow> int \<Rightarrow> 'a option" where
  "list_at xs i = (if 0 \<le> i \<and> i < int (length xs) then Some (xs ! nat i) else None)"

definition list_put :: "'a list \<Rightarrow> int \<Rightarrow> 'a \<Rightarrow> 'a list option" where
  "list_put xs i v = (if 0 \<le> i \<and> i < int (length xs) then Some (xs[nat i := v]) else None)"

lemma list_at_in [simp]: "0 \<le> i \<Longrightarrow> i < int (length xs) \<Longrightarrow> list_at xs i = Some (xs ! nat i)"
  by (simp add: list_at_def)

lemma list_at_out: "i < 0 \<or> int (length xs) \<le> i \<Longrightarrow> list_at xs i = None"
  by (auto simp: list_at_def)

lemma list_at_eq_Some:
  "list_at xs i = Some v \<longleftrightarrow> 0 \<le> i \<and> i < int (length xs) \<and> xs ! nat i = v"
  by (auto simp: list_at_def)

lemma list_put_in [simp]:
  "0 \<le> i \<Longrightarrow> i < int (length xs) \<Longrightarrow> list_put xs i v = Some (xs[nat i := v])"
  by (simp add: list_put_def)

lemma list_put_eq_Some:
  "list_put xs i v = Some ys \<longleftrightarrow> 0 \<le> i \<and> i < int (length xs) \<and> ys = xs[nat i := v]"
  by (auto simp: list_put_def)

text \<open>\<open>QByteArray::mid(pos, len)\<close> and \<open>QList::mid\<close>: a negative length means "to the end".\<close>

definition qmid :: "'a list \<Rightarrow> nat \<Rightarrow> int \<Rightarrow> 'a list" where
  "qmid xs pos len = (if len < 0 then drop pos xs else take (nat len) (drop pos xs))"

lemma qmid_nonneg [simp]: "0 \<le> len \<Longrightarrow> qmid xs pos len = take (nat len) (drop pos xs)"
  by (simp add: qmid_def)

section \<open>Words and bits\<close>

lemma and_255: "(x :: 'a::len word) AND 0xFF = take_bit 8 x"
  by (simp add: take_bit_eq_mask mask_eq_exp_minus_1)

lemma and_1_neq_0: "(x :: 'a::len word) AND 1 \<noteq> 0 \<longleftrightarrow> bit x 0"
  by (simp add: and_one_eq odd_iff_mod_2_eq_one bit_0)

lemma and_1_neq_0': "1 AND (x :: 'a::len word) \<noteq> 0 \<longleftrightarrow> bit x 0"
  using and_1_neq_0 [of x] by (simp add: and.commute)

lemma xor_cancel_right [simp]: "x XOR z = y XOR z \<longleftrightarrow> x = (y :: 'a::len word)"
proof
  assume "x XOR z = y XOR z"
  then have "(x XOR z) XOR z = (y XOR z) XOR z" by simp
  then show "x = y" by (simp add: xor.assoc)
qed simp

lemma xor_cancel_left [simp]: "z XOR x = z XOR y \<longleftrightarrow> x = (y :: 'a::len word)"
  by (simp add: xor.commute [of z])

lemma xor_eq_0 [simp]: "x XOR y = (0 :: 'a::len word) \<longleftrightarrow> x = y"
  using xor_cancel_right [of x y y] by simp

definition hi_byte :: "u16 \<Rightarrow> u8" where
  "hi_byte v = ucast (drop_bit 8 v AND 0xFF)"

definition lo_byte :: "u16 \<Rightarrow> u8" where
  "lo_byte v = ucast (v AND 0xFF)"

definition join16 :: "u8 \<Rightarrow> u8 \<Rightarrow> u16" where
  "join16 hi lo = push_bit 8 (ucast hi) OR ucast lo"

lemma join16_bytes [simp, wire_simps]: "join16 (hi_byte v) (lo_byte v) = v"
  by (rule bit_word_eqI) (auto simp: join16_def hi_byte_def lo_byte_def and_255 bit_simps)

lemma hi_byte_join16 [simp, wire_simps]: "hi_byte (join16 hi lo) = hi"
  by (rule bit_word_eqI)
    (auto simp: join16_def hi_byte_def and_255 bit_simps dest: bit_imp_le_length)

lemma lo_byte_join16 [simp, wire_simps]: "lo_byte (join16 hi lo) = lo"
  by (rule bit_word_eqI) (auto simp: join16_def lo_byte_def and_255 bit_simps)

lemma join16_inject [simp]: "join16 a b = join16 c d \<longleftrightarrow> a = c \<and> b = d"
  by (metis hi_byte_join16 lo_byte_join16)

lemma u8_lt: "unat (b :: u8) < 256"
  using unsigned_less [of b] by simp

lemma u16_lt: "unat (v :: u16) < 65536"
  using unsigned_less [of v] by simp

lemma unat_ucast_u8 [simp]: "unat (ucast (b :: u8) :: u16) = unat b"
  using less_trans [OF u8_lt [of b]] by (simp add: unsigned_ucast_eq take_bit_eq_mod)

lemma unat_join16: "unat (join16 hi lo) = 256 * unat hi + unat lo"
proof -
  have "join16 hi lo = push_bit 8 (ucast hi) + ucast lo"
    unfolding join16_def
    by (rule disjunctive_add [symmetric]) (auto simp: bit_simps dest: bit_imp_le_length)
  moreover have "unat (push_bit 8 (ucast hi) :: u16) = 256 * unat hi"
    using u8_lt [of hi]
    by (simp add: push_bit_eq_mult unat_word_ariths)
  moreover have "unat (ucast lo :: u16) = unat lo"
    by (rule unat_ucast_u8)
  ultimately show ?thesis
    using u8_lt [of hi] u8_lt [of lo] by (simp add: unat_word_ariths)
qed

lemma of_nat_u16_unat: "n < 65536 \<Longrightarrow> unat (word_of_nat n :: u16) = n"
  by (simp add: unat_of_nat)

lemma of_nat_u8_unat: "n < 256 \<Longrightarrow> unat (word_of_nat n :: u8) = n"
  by (simp add: unat_of_nat)

lemma of_int_u16_uint: "0 \<le> i \<Longrightarrow> i < 65536 \<Longrightarrow> uint (word_of_int i :: u16) = i"
  by (simp add: uint_word_of_int)

section \<open>Lists\<close>

lemma sorted_wrt_concat:
  "sorted_wrt R (concat xss) \<longleftrightarrow>
     (\<forall>xs \<in> set xss. sorted_wrt R xs) \<and>
     sorted_wrt (\<lambda>xs ys. \<forall>x \<in> set xs. \<forall>y \<in> set ys. R x y) xss"
  by (induction xss) (auto simp: sorted_wrt_append)

lemma take_take_min: "take n (take m xs) = take (min n m) xs"
  by simp

lemma length_ge_7_conv:
  "7 \<le> length xs \<longleftrightarrow> (\<exists>a b c d e f g ys. xs = a # b # c # d # e # f # g # ys)"
  by (auto simp: Suc_le_length_iff numeral_eq_Suc)

lemma foldl_append_inv:
  assumes "P [] a" and "\<And>ys y b. P ys b \<Longrightarrow> P (ys @ [y]) (f b y)"
  shows "P xs (foldl f a xs)"
  using assms by (induction xs rule: rev_induct) auto

text \<open>A step that may fail, then what follows it: early returns as values of a sum.\<close>

definition andThen :: "'e + 'a \<Rightarrow> ('a \<Rightarrow> 'e + 'b) \<Rightarrow> 'e + 'b" where
  "andThen r f = (case r of Inl e \<Rightarrow> Inl e | Inr v \<Rightarrow> f v)"

lemma andThen_simps [simp]: "andThen (Inl e) f = Inl e" "andThen (Inr v) f = f v"
  by (simp_all add: andThen_def)

lemma andThen_eq_Inr: "andThen r f = Inr w \<longleftrightarrow> (\<exists>v. r = Inr v \<and> f v = Inr w)"
  by (cases r) simp_all

end
