(* ===== verification/Qt_Text.thy ===== *)
theory Qt_Text
  imports Prelude
begin

text \<open>
  The text operations of \<open>QString\<close> that the code uses, on \<open>string\<close> (one \<open>char\<close> per UTF-16 code
  unit, so texts are restricted to Latin-1). \<open>QString::number\<close> and \<open>arg\<close> print in a base between
  2 and 36 with lower-case digits; \<open>rightJustified\<close> pads on the left and never truncates; \<open>toUpper\<close> is
  only applied to ASCII texts (numbers and hex dumps), \<open>toLower\<close> to any Latin-1 text.
\<close>

definition digit_char :: "nat \<Rightarrow> char" where
  "digit_char d = (if d < 10 then char_of (48 + d) else char_of (87 + d))"

fun nat_digits :: "nat \<Rightarrow> nat \<Rightarrow> string" where
  "nat_digits b n =
     (if b < 2 \<or> n < b then [digit_char n] else nat_digits b (n div b) @ [digit_char (n mod b)])"

declare nat_digits.simps [simp del]

definition number :: "int \<Rightarrow> string" where
  "number i = (if i < 0 then CHR ''-'' # nat_digits 10 (nat (- i)) else nat_digits 10 (nat i))"

definition rightJustified :: "nat \<Rightarrow> char \<Rightarrow> string \<Rightarrow> string" where
  "rightJustified w fill s = replicate (w - length s) fill @ s"

definition hex2 :: "u8 \<Rightarrow> string" where
  "hex2 b = rightJustified 2 CHR ''0'' (nat_digits 16 (unat b))"

definition upper_char :: "char \<Rightarrow> char" where
  "upper_char c = (let n = of_char c :: nat in if 97 \<le> n \<and> n \<le> 122 then char_of (n - 32) else c)"

definition lower_char :: "char \<Rightarrow> char" where
  "lower_char c =
     (let n = of_char c :: nat
      in if (65 \<le> n \<and> n \<le> 90) \<or> (192 \<le> n \<and> n \<le> 222 \<and> n \<noteq> 215) then char_of (n + 32) else c)"

definition toUpper :: "string \<Rightarrow> string" where
  "toUpper s = map upper_char s"

definition toLower :: "string \<Rightarrow> string" where
  "toLower s = map lower_char s"

text \<open>\<open>QChar::isSpace\<close>, \<open>trimmed\<close>, \<open>split\<close> on a character and comparison without case.\<close>

definition isSpace :: "char \<Rightarrow> bool" where
  "isSpace c = (let n = of_char c :: nat in n = 32 \<or> (9 \<le> n \<and> n \<le> 13) \<or> n = 133 \<or> n = 160)"

definition trimmed :: "string \<Rightarrow> string" where
  "trimmed s = rev (dropWhile isSpace (rev (dropWhile isSpace s)))"

fun splitOn :: "char \<Rightarrow> string \<Rightarrow> string list" where
  "splitOn c [] = [[]]"
| "splitOn c (x # xs) =
     (if x = c then [] # splitOn c xs
      else case splitOn c xs of [] \<Rightarrow> [[x]] | y # ys \<Rightarrow> (x # y) # ys)"

definition equalsNoCase :: "string \<Rightarrow> string \<Rightarrow> bool" where
  "equalsNoCase s t \<longleftrightarrow> toLower s = toLower t"

fun joinWith :: "string \<Rightarrow> string list \<Rightarrow> string" where
  "joinWith sep [] = []"
| "joinWith sep [s] = s"
| "joinWith sep (s # t # ts) = s @ sep @ joinWith sep (t # ts)"

lemma splitOn_nonempty [simp]: "splitOn c s \<noteq> []"
  by (induction s) (auto split: list.splits)

lemma splitOn_none: "c \<notin> set s \<Longrightarrow> splitOn c s = [s]"
  by (induction s) auto

lemma splitOn_append: "c \<notin> set s \<Longrightarrow> splitOn c (s @ c # t) = s # splitOn c t"
  by (induction s) auto

lemma splitOn_joinWith:
  "fields \<noteq> [] \<Longrightarrow> \<forall>f \<in> set fields. c \<notin> set f \<Longrightarrow> splitOn c (joinWith [c] fields) = fields"
  by (induction "[c]" fields rule: joinWith.induct) (simp_all add: splitOn_none splitOn_append)

lemma trimmed_idem [simp]: "trimmed (trimmed s) = trimmed s"
proof -
  have "dropWhile isSpace (rev (dropWhile isSpace (rev t))) = rev (dropWhile isSpace (rev t))"
    if "t = [] \<or> \<not> isSpace (hd t)" for t
  proof (cases "dropWhile isSpace (rev t)")
    case (Cons c cs)
    then have "hd (rev (dropWhile isSpace (rev t))) = hd t"
      using that by (metis append_Nil2 hd_append2 hd_rev last_appendR list.distinct(1) rev_is_Nil_conv rev_rev_ident
          takeWhile_dropWhile_id)
    moreover have "t \<noteq> []" using Cons by auto
    ultimately show ?thesis using that Cons
      by (metis dropWhile_eq_self_iff)
  next
    case Nil
    show ?thesis unfolding Nil by simp
  qed
  then show ?thesis
    unfolding trimmed_def by (metis dropWhile_idem hd_dropWhile rev_rev_ident)
qed

lemma length_rightJustified [simp]: "length (rightJustified w c s) = max w (length s)"
  by (simp add: rightJustified_def max_def)

lemma nat_digits_nonempty [simp]: "nat_digits b n \<noteq> []"
  by (subst nat_digits.simps) simp

lemma length_nat_digits:
  assumes "2 \<le> b" "n < b ^ Suc k"
  shows "length (nat_digits b n) \<le> Suc k"
  using assms
proof (induction k arbitrary: n)
  case 0
  then show ?case by (subst nat_digits.simps) simp
next
  case (Suc k)
  show ?case
  proof (cases "n < b")
    case True
    then show ?thesis by (subst nat_digits.simps) simp
  next
    case False
    have "n div b < b ^ Suc k"
      using Suc.prems by (simp add: less_mult_imp_div_less mult.commute)
    with Suc.IH Suc.prems(1) have "length (nat_digits b (n div b)) \<le> Suc k" by blast
    with False Suc.prems(1) show ?thesis by (subst nat_digits.simps) simp
  qed
qed

lemma length_hex2 [simp]: "length (hex2 b) = 2"
proof -
  have "length (nat_digits 16 (unat b)) \<le> Suc 1"
    by (rule length_nat_digits) (use u8_lt [of b] in simp_all)
  then show ?thesis by (simp add: hex2_def)
qed

end
