(* ===== verification/Modbus_Pdu.thy ===== *)
theory Modbus_Pdu
  imports Qt_Text
begin

text \<open>
  \<open>core/modbus/ModbusException.cpp\<close> and \<open>core/modbus/ModbusPduCodec.cpp\<close>: function and exception
  codes, the request encoders and the response decoders. A decoder returns
  \<open>None\<close> only when the C++ code would read outside the PDU; that this never happens is
  proved, as are the exact set of PDUs each decoder accepts and the round trips with the
  layout the Modbus specification prescribes.
\<close>

section \<open>Codes and results\<close>

datatype ModbusExceptionCode =
    IllegalFunction | IllegalDataAddress | IllegalDataValue | SlaveDeviceFailure | Acknowledge
  | SlaveDeviceBusy | MemoryParityError | GatewayPathUnavailable
  | GatewayTargetDeviceFailedToRespond
  | OtherExceptionCode u8 \<comment> \<open>\<open>ModbusExceptionCode(b)\<close> for a byte with no enumerator\<close>

text \<open>The cast \<open>ModbusExceptionCode(quint8)\<close> and its inverse.\<close>

definition exceptionCodeOf :: "u8 \<Rightarrow> ModbusExceptionCode" where
  "exceptionCodeOf b =
     (if b = 0x01 then IllegalFunction
      else if b = 0x02 then IllegalDataAddress
      else if b = 0x03 then IllegalDataValue
      else if b = 0x04 then SlaveDeviceFailure
      else if b = 0x05 then Acknowledge
      else if b = 0x06 then SlaveDeviceBusy
      else if b = 0x08 then MemoryParityError
      else if b = 0x0A then GatewayPathUnavailable
      else if b = 0x0B then GatewayTargetDeviceFailedToRespond
      else OtherExceptionCode b)"

fun exceptionCodeByte :: "ModbusExceptionCode \<Rightarrow> u8" where
  "exceptionCodeByte IllegalFunction = 0x01"
| "exceptionCodeByte IllegalDataAddress = 0x02"
| "exceptionCodeByte IllegalDataValue = 0x03"
| "exceptionCodeByte SlaveDeviceFailure = 0x04"
| "exceptionCodeByte Acknowledge = 0x05"
| "exceptionCodeByte SlaveDeviceBusy = 0x06"
| "exceptionCodeByte MemoryParityError = 0x08"
| "exceptionCodeByte GatewayPathUnavailable = 0x0A"
| "exceptionCodeByte GatewayTargetDeviceFailedToRespond = 0x0B"
| "exceptionCodeByte (OtherExceptionCode b) = b"

fun describeModbusExceptionCode :: "ModbusExceptionCode \<Rightarrow> string" where
  "describeModbusExceptionCode IllegalFunction = ''Illegal Function''"
| "describeModbusExceptionCode IllegalDataAddress = ''Illegal Data Address''"
| "describeModbusExceptionCode IllegalDataValue = ''Illegal Data Value''"
| "describeModbusExceptionCode SlaveDeviceFailure = ''Slave Device Failure''"
| "describeModbusExceptionCode Acknowledge = ''Acknowledge''"
| "describeModbusExceptionCode SlaveDeviceBusy = ''Slave Device Busy''"
| "describeModbusExceptionCode MemoryParityError = ''Memory Parity Error''"
| "describeModbusExceptionCode GatewayPathUnavailable = ''Gateway Path Unavailable''"
| "describeModbusExceptionCode GatewayTargetDeviceFailedToRespond =
     ''Gateway Target Device Failed to Respond''"
| "describeModbusExceptionCode (OtherExceptionCode b) = ''Unknown Exception (0x'' @ hex2 b @ '')''"

definition isExceptionResponseFunctionCode :: "u8 \<Rightarrow> bool" where
  "isExceptionResponseFunctionCode functionCode \<longleftrightarrow> functionCode AND 0x80 \<noteq> 0"

record ModbusExceptionResponse =
  originalFunctionCode :: u8
  exceptionCode :: ModbusExceptionCode
  message :: string

datatype FunctionCode =
    ReadCoils | ReadDiscreteInputs | ReadHoldingRegisters | ReadInputRegisters
  | WriteSingleCoil | WriteSingleRegister | WriteMultipleCoils | WriteMultipleRegisters

fun fcByte :: "FunctionCode \<Rightarrow> u8" where
  "fcByte ReadCoils = 0x01"
| "fcByte ReadDiscreteInputs = 0x02"
| "fcByte ReadHoldingRegisters = 0x03"
| "fcByte ReadInputRegisters = 0x04"
| "fcByte WriteSingleCoil = 0x05"
| "fcByte WriteSingleRegister = 0x06"
| "fcByte WriteMultipleCoils = 0x0F"
| "fcByte WriteMultipleRegisters = 0x10"

text \<open>
  \<open>PduDecodeResult<T>\<close>: the status says which of the other members is meaningful, so the
  three statuses are three constructors; \<open>errorMessage\<close> is the member of that name.
\<close>

datatype 'a PduDecodeResult =
    Ok 'a
  | MalformedFrame string
  | ExceptionResponse ModbusExceptionResponse

fun errorMessage :: "'a PduDecodeResult \<Rightarrow> string" where
  "errorMessage (Ok _) = []"
| "errorMessage (MalformedFrame m) = m"
| "errorMessage (ExceptionResponse e) = message e"

record ReadBitsResponse =
  bitValues :: "bool list"

record ReadRegistersResponse =
  registerValues :: "u16 list"

record WriteSingleResponse =
  ws_address :: u16
  ws_value :: u16

record WriteMultipleResponse =
  wm_startAddress :: u16
  wm_quantity :: u16

section \<open>Byte helpers\<close>

definition appendBigEndianU16 :: "bytes \<Rightarrow> u16 \<Rightarrow> bytes" where
  "appendBigEndianU16 buffer v = buffer @ [ucast (drop_bit 8 v AND 0xFF), ucast (v AND 0xFF)]"

definition readBigEndianU16 :: "bytes \<Rightarrow> int \<Rightarrow> u16 option" where
  "readBigEndianU16 buffer offset =
     do { hi \<leftarrow> list_at buffer offset;
          lo \<leftarrow> list_at buffer (offset + 1);
          Some (push_bit 8 (ucast hi) OR ucast lo) }"

text \<open>The loop of \<open>packBits\<close> sets one bit of \<open>packed[i / 8]\<close> per true value.\<close>

fun packBitsLoop :: "bool list \<Rightarrow> nat \<Rightarrow> bytes \<Rightarrow> bytes option" where
  "packBitsLoop [] i packed = Some packed"
| "packBitsLoop (v # vs) i packed =
     (if v
      then do { b \<leftarrow> list_at packed (int (i div 8));
                packed \<leftarrow> list_put packed (int (i div 8)) (b OR push_bit (i mod 8) 1);
                packBitsLoop vs (i + 1) packed }
      else packBitsLoop vs (i + 1) packed)"

definition packBits :: "bool list \<Rightarrow> bytes option" where
  "packBits values = packBitsLoop values 0 (replicate ((length values + 7) div 8) 0)"

section \<open>Requests\<close>

definition encodeReadRequest :: "FunctionCode \<Rightarrow> u16 \<Rightarrow> u16 \<Rightarrow> bytes" where
  "encodeReadRequest functionCode startAddress quantity =
     appendBigEndianU16 (appendBigEndianU16 [fcByte functionCode] startAddress) quantity"

definition encodeWriteSingleCoilRequest :: "u16 \<Rightarrow> bool \<Rightarrow> bytes" where
  "encodeWriteSingleCoilRequest address value =
     appendBigEndianU16 (appendBigEndianU16 [fcByte WriteSingleCoil] address)
       (if value then 0xFF00 else 0x0000)"

definition encodeWriteSingleRegisterRequest :: "u16 \<Rightarrow> u16 \<Rightarrow> bytes" where
  "encodeWriteSingleRegisterRequest address value =
     appendBigEndianU16 (appendBigEndianU16 [fcByte WriteSingleRegister] address) value"

definition encodeWriteMultipleCoilsRequest :: "u16 \<Rightarrow> bool list \<Rightarrow> bytes option" where
  "encodeWriteMultipleCoilsRequest startAddress values =
     (let pdu = appendBigEndianU16
                  (appendBigEndianU16 [fcByte WriteMultipleCoils] startAddress)
                  (word_of_nat (length values))
      in do { packed \<leftarrow> packBits values;
              Some (pdu @ [word_of_nat (length packed)] @ packed) })"

definition encodeWriteMultipleRegistersRequest :: "u16 \<Rightarrow> u16 list \<Rightarrow> bytes" where
  "encodeWriteMultipleRegistersRequest startAddress values =
     (let pdu = appendBigEndianU16
                  (appendBigEndianU16 [fcByte WriteMultipleRegisters] startAddress)
                  (word_of_nat (length values))
      in foldl appendBigEndianU16 (pdu @ [word_of_nat (length values * 2)]) values)"

section \<open>Responses\<close>

record ResponseHeaderCheck =
  isException :: bool
  isValid :: bool
  headerError :: string
  exception :: ModbusExceptionResponse

definition emptyHeaderCheck :: ResponseHeaderCheck where
  "emptyHeaderCheck =
     \<lparr>isException = False, isValid = False, headerError = [],
      exception = \<lparr>originalFunctionCode = 0, exceptionCode = IllegalFunction, message = []\<rparr>\<rparr>"

definition checkResponseHeader :: "bytes \<Rightarrow> u8 \<Rightarrow> ResponseHeaderCheck option" where
  "checkResponseHeader pdu expectedFunctionCode =
     (if pdu = [] then Some (emptyHeaderCheck\<lparr>headerError := ''empty PDU''\<rparr>)
      else do {
        responseFunctionCode \<leftarrow> list_at pdu 0;
        if isExceptionResponseFunctionCode responseFunctionCode then
          if length pdu < 2 then
            Some (emptyHeaderCheck
              \<lparr>headerError := ''exception response missing exception code byte''\<rparr>)
          else do {
            code \<leftarrow> list_at pdu 1;
            Some (emptyHeaderCheck
              \<lparr>isException := True,
               exception := \<lparr>originalFunctionCode = responseFunctionCode AND 0x7F,
                             exceptionCode = exceptionCodeOf code,
                             message = describeModbusExceptionCode (exceptionCodeOf code)\<rparr>\<rparr>) }
        else if responseFunctionCode \<noteq> expectedFunctionCode then
          Some (emptyHeaderCheck
            \<lparr>headerError := ''unexpected function code 0x'' @ hex2 responseFunctionCode
               @ '', expected 0x'' @ hex2 expectedFunctionCode\<rparr>)
        else Some (emptyHeaderCheck\<lparr>isValid := True\<rparr>) })"

function readRegisterValues :: "bytes \<Rightarrow> nat \<Rightarrow> nat \<Rightarrow> u16 list \<Rightarrow> u16 list option" where
  "readRegisterValues pdu byteCount i values =
     (if i < byteCount
      then do { v \<leftarrow> readBigEndianU16 pdu (2 + int i);
                readRegisterValues pdu byteCount (i + 2) (values @ [v]) }
      else Some values)"
  by pat_completeness auto
termination
  by (relation "measure (\<lambda>(_, n, i, _). n - i)") auto

declare readRegisterValues.simps [simp del]

definition decodeReadRegistersResponseImpl ::
    "bytes \<Rightarrow> u8 \<Rightarrow> ReadRegistersResponse PduDecodeResult option" where
  "decodeReadRegistersResponseImpl pdu expectedFunctionCode =
     do { header \<leftarrow> checkResponseHeader pdu expectedFunctionCode;
          if isException header then Some (ExceptionResponse (exception header))
          else if \<not> isValid header then Some (MalformedFrame (headerError header))
          else if length pdu < 2 then Some (MalformedFrame ''missing byte count'')
          else do {
            byteCount \<leftarrow> list_at pdu 1;
            if unat byteCount mod 2 \<noteq> 0 then
              Some (MalformedFrame ''odd byte count for register response'')
            else if length pdu < 2 + unat byteCount then
              Some (MalformedFrame ''pdu shorter than declared byte count'')
            else do {
              values \<leftarrow> readRegisterValues pdu (unat byteCount) 0 [];
              Some (Ok \<lparr>registerValues = values\<rparr>) } } }"

fun readBitValues :: "bytes \<Rightarrow> nat \<Rightarrow> nat \<Rightarrow> bool list option" where
  "readBitValues pdu k 0 = Some []"
| "readBitValues pdu k (Suc n) =
     do { b \<leftarrow> list_at pdu (2 + int (k div 8));
          rest \<leftarrow> readBitValues pdu (k + 1) n;
          Some ((b AND push_bit (k mod 8) 1 \<noteq> 0) # rest) }"

definition decodeReadBitsResponseImpl ::
    "bytes \<Rightarrow> u8 \<Rightarrow> u16 \<Rightarrow> ReadBitsResponse PduDecodeResult option" where
  "decodeReadBitsResponseImpl pdu expectedFunctionCode requestedQuantity =
     do { header \<leftarrow> checkResponseHeader pdu expectedFunctionCode;
          if isException header then Some (ExceptionResponse (exception header))
          else if \<not> isValid header then Some (MalformedFrame (headerError header))
          else if length pdu < 2 then Some (MalformedFrame ''missing byte count'')
          else do {
            byteCount \<leftarrow> list_at pdu 1;
            if length pdu < 2 + unat byteCount then
              Some (MalformedFrame ''pdu shorter than declared byte count'')
            else if unat byteCount \<noteq> (unat requestedQuantity + 7) div 8 then
              Some (MalformedFrame ''byte count does not match requested quantity'')
            else do {
              values \<leftarrow> readBitValues pdu 0 (unat requestedQuantity);
              Some (Ok \<lparr>bitValues = values\<rparr>) } } }"

definition decodeWriteSingleResponseImpl ::
    "bytes \<Rightarrow> u8 \<Rightarrow> WriteSingleResponse PduDecodeResult option" where
  "decodeWriteSingleResponseImpl pdu expectedFunctionCode =
     do { header \<leftarrow> checkResponseHeader pdu expectedFunctionCode;
          if isException header then Some (ExceptionResponse (exception header))
          else if \<not> isValid header then Some (MalformedFrame (headerError header))
          else if length pdu < 5 then Some (MalformedFrame ''write response shorter than 5 bytes'')
          else do {
            a \<leftarrow> readBigEndianU16 pdu 1;
            v \<leftarrow> readBigEndianU16 pdu 3;
            Some (Ok \<lparr>ws_address = a, ws_value = v\<rparr>) } }"

definition decodeWriteMultipleResponseImpl ::
    "bytes \<Rightarrow> u8 \<Rightarrow> WriteMultipleResponse PduDecodeResult option" where
  "decodeWriteMultipleResponseImpl pdu expectedFunctionCode =
     do { header \<leftarrow> checkResponseHeader pdu expectedFunctionCode;
          if isException header then Some (ExceptionResponse (exception header))
          else if \<not> isValid header then Some (MalformedFrame (headerError header))
          else if length pdu < 5 then Some (MalformedFrame ''write response shorter than 5 bytes'')
          else do {
            a \<leftarrow> readBigEndianU16 pdu 1;
            n \<leftarrow> readBigEndianU16 pdu 3;
            Some (Ok \<lparr>wm_startAddress = a, wm_quantity = n\<rparr>) } }"

definition decodeReadCoilsResponse where
  "decodeReadCoilsResponse pdu requestedQuantity =
     decodeReadBitsResponseImpl pdu (fcByte ReadCoils) requestedQuantity"

definition decodeReadDiscreteInputsResponse where
  "decodeReadDiscreteInputsResponse pdu requestedQuantity =
     decodeReadBitsResponseImpl pdu (fcByte ReadDiscreteInputs) requestedQuantity"

definition decodeReadHoldingRegistersResponse where
  "decodeReadHoldingRegistersResponse pdu =
     decodeReadRegistersResponseImpl pdu (fcByte ReadHoldingRegisters)"

definition decodeReadInputRegistersResponse where
  "decodeReadInputRegistersResponse pdu =
     decodeReadRegistersResponseImpl pdu (fcByte ReadInputRegisters)"

definition decodeWriteSingleCoilResponse where
  "decodeWriteSingleCoilResponse pdu = decodeWriteSingleResponseImpl pdu (fcByte WriteSingleCoil)"

definition decodeWriteSingleRegisterResponse where
  "decodeWriteSingleRegisterResponse pdu =
     decodeWriteSingleResponseImpl pdu (fcByte WriteSingleRegister)"

definition decodeWriteMultipleCoilsResponse where
  "decodeWriteMultipleCoilsResponse pdu =
     decodeWriteMultipleResponseImpl pdu (fcByte WriteMultipleCoils)"

definition decodeWriteMultipleRegistersResponse where
  "decodeWriteMultipleRegistersResponse pdu =
     decodeWriteMultipleResponseImpl pdu (fcByte WriteMultipleRegisters)"

section \<open>Layout of byte sequences\<close>

definition be16 :: "u16 \<Rightarrow> bytes" where
  "be16 v = [hi_byte v, lo_byte v]"

lemma appendBigEndianU16_eq [wire_simps]: "appendBigEndianU16 buffer v = buffer @ be16 v"
  by (simp add: appendBigEndianU16_def be16_def hi_byte_def lo_byte_def)

lemma length_be16 [simp, wire_simps]: "length (be16 v) = 2"
  by (simp add: be16_def)

lemma be16_inject [simp]: "be16 v = be16 w \<longleftrightarrow> v = w"
  by (metis be16_def join16_bytes list.inject)

lemma length_concat_be16 [simp, wire_simps]: "length (concat (map be16 vs)) = 2 * length vs"
  by (induction vs) simp_all

lemma foldl_appendBigEndianU16 [wire_simps]:
  "foldl appendBigEndianU16 buffer vs = buffer @ concat (map be16 vs)"
  by (induction vs arbitrary: buffer) (simp_all add: appendBigEndianU16_eq)

lemma even_bytes_be16:
  assumes "even (length bs)"
  obtains vs where "bs = concat (map be16 vs)"
proof -
  have "\<exists>vs. bs = concat (map be16 vs)"
    using assms
  proof (induction bs rule: induct_list012)
    case (3 a b bs)
    then obtain vs where "bs = concat (map be16 vs)" by auto
    then have "a # b # bs = concat (map be16 (join16 a b # vs))" by (simp add: be16_def)
    then show ?case by blast
  qed (auto intro: exI [of _ "[]"])
  then show thesis using that by blast
qed

lemma readBigEndianU16_eq:
  "readBigEndianU16 buf off =
     (if 0 \<le> off \<and> off + 1 < int (length buf)
      then Some (join16 (buf ! nat off) (buf ! nat (off + 1))) else None)"
  by (auto simp: readBigEndianU16_def list_at_def join16_def)

lemma readBigEndianU16_at: "readBigEndianU16 (xs @ be16 v @ ys) (int (length xs)) = Some v"
  by (simp add: readBigEndianU16_eq be16_def nth_append nat_add_distrib)

lemma readRegisterValues_be16:
  "length pre = i + 2 \<Longrightarrow>
   readRegisterValues (pre @ concat (map be16 vs) @ rest) (i + 2 * length vs) i acc
     = Some (acc @ vs)"
proof (induction vs arbitrary: pre i acc)
  case Nil
  then show ?case by (subst readRegisterValues.simps) simp
next
  case (Cons v vs)
  have "readBigEndianU16 (pre @ be16 v @ (concat (map be16 vs) @ rest)) (2 + int i) = Some v"
    using readBigEndianU16_at [of pre v] Cons.prems by simp
  with Cons.prems Cons.IH [of "pre @ be16 v" "i + 2" "acc @ [v]"] show ?case
    by (subst readRegisterValues.simps) simp
qed

lemma bit_test: "(b :: u8) AND 2 ^ k = 0 \<longleftrightarrow> \<not> bit b k"
  by (rule and_exp_eq_0_iff_not_bit)

lemma readBitValues_eq:
  "k + n \<le> 8 * (length pdu - 2) \<Longrightarrow>
   readBitValues pdu k n = Some (map (\<lambda>j. bit (pdu ! (2 + j div 8)) (j mod 8)) [k..<k + n])"
proof (induction n arbitrary: k)
  case (Suc n)
  have "k < 8 * (length pdu - 2)" using Suc.prems by simp
  then have "k div 8 < length pdu - 2" by (simp add: less_mult_imp_div_less mult.commute)
  then have at: "list_at pdu (2 + int (k div 8)) = Some (pdu ! (2 + k div 8))"
    by (simp add: list_at_def nat_add_distrib)
  show ?case
    using at Suc.IH [of "k + 1"] Suc.prems by (simp add: upt_rec [of k] bit_test)
qed simp

section \<open>The bit packer\<close>

lemma packBitsLoop_bits:
  assumes "i + length vs \<le> 8 * length packed"
  shows "\<exists>p. packBitsLoop vs i packed = Some p \<and> length p = length packed
           \<and> (\<forall>j < 8 * length packed. bit (p ! (j div 8)) (j mod 8) \<longleftrightarrow>
                 bit (packed ! (j div 8)) (j mod 8) \<or> (i \<le> j \<and> j < i + length vs \<and> vs ! (j - i)))"
  using assms
proof (induction vs arbitrary: i packed)
  case (Cons v vs)
  define q where
    "q = (if v then packed[i div 8 := packed ! (i div 8) OR push_bit (i mod 8) 1] else packed)"
  have idiv: "i div 8 < length packed" using Cons.prems by (auto simp: div_less_iff_less_mult)
  then have step: "packBitsLoop (v # vs) i packed = packBitsLoop vs (i + 1) q"
    by (simp add: q_def)
  have bits_q: "bit (q ! (j div 8)) (j mod 8) \<longleftrightarrow> bit (packed ! (j div 8)) (j mod 8) \<or> (v \<and> j = i)"
    if "j < 8 * length packed" for j
  proof (cases "j div 8 = i div 8")
    case True
    then have "j = i \<longleftrightarrow> j mod 8 = i mod 8"
      by (metis div_mult_mod_eq)
    moreover have "bit (push_bit (i mod 8) 1 :: u8) (j mod 8) \<longleftrightarrow> j mod 8 = i mod 8"
      by (auto simp: bit_simps)
    ultimately show ?thesis using True idiv by (auto simp: q_def bit_or_iff)
  next
    case False
    then have "j \<noteq> i" by auto
    with False show ?thesis by (simp add: q_def)
  qed
  have len_q: "length q = length packed" by (simp add: q_def)
  obtain p where p: "packBitsLoop vs (i + 1) q = Some p" "length p = length packed"
    and bits: "\<forall>j < 8 * length packed. bit (p ! (j div 8)) (j mod 8) \<longleftrightarrow>
                 bit (q ! (j div 8)) (j mod 8) \<or> (i + 1 \<le> j \<and> j < i + 1 + length vs \<and> vs ! (j - (i + 1)))"
    using Cons.IH [of "i + 1" q] Cons.prems len_q by auto
  have "bit (p ! (j div 8)) (j mod 8) \<longleftrightarrow>
          bit (packed ! (j div 8)) (j mod 8) \<or> (i \<le> j \<and> j < i + length (v # vs) \<and> (v # vs) ! (j - i))"
    if "j < 8 * length packed" for j
    using bits bits_q [OF that] that by (cases "j = i") (auto simp: nth_Cons')
  with step p show ?case by auto
qed auto

lemma packBits_spec:
  obtains p where "packBits vs = Some p" and "length p = (length vs + 7) div 8"
    and "\<And>j. j < 8 * length p \<Longrightarrow>
           bit (p ! (j div 8)) (j mod 8) \<longleftrightarrow> j < length vs \<and> vs ! j"
proof -
  define n where "n = (length vs + 7) div 8"
  have "length vs \<le> 8 * n" unfolding n_def by linarith
  then obtain p where p: "packBits vs = Some p" "length p = n"
    and bits: "\<forall>j < 8 * n. bit (p ! (j div 8)) (j mod 8) \<longleftrightarrow>
        bit (replicate n (0 :: u8) ! (j div 8)) (j mod 8) \<or> (j < length vs \<and> vs ! j)"
    using packBitsLoop_bits [of 0 vs "replicate n 0"] unfolding packBits_def n_def by auto
  have "bit (p ! (j div 8)) (j mod 8) \<longleftrightarrow> j < length vs \<and> vs ! j" if "j < 8 * length p" for j
  proof -
    have "j div 8 < n" using that p(2) by (simp add: div_less_iff_less_mult mult.commute)
    with bits that p(2) show ?thesis by simp
  qed
  with p that show thesis unfolding n_def by blast
qed

lemma packBits_total: "packBits vs \<noteq> None"
  by (rule packBits_spec [of vs]) simp

section \<open>Which responses are accepted\<close>

lemma header_cases:
  obtains (malformed) m where "checkResponseHeader pdu fc = Some (emptyHeaderCheck\<lparr>headerError := m\<rparr>)"
      and "pdu = [] \<or> (isExceptionResponseFunctionCode (hd pdu) \<and> length pdu < 2)
           \<or> (\<not> isExceptionResponseFunctionCode (hd pdu) \<and> hd pdu \<noteq> fc)"
  | (exc) b c rest where "pdu = b # c # rest" and "isExceptionResponseFunctionCode b"
      and "checkResponseHeader pdu fc = Some (emptyHeaderCheck
             \<lparr>isException := True,
              exception := \<lparr>originalFunctionCode = b AND 0x7F, exceptionCode = exceptionCodeOf c,
                            message = describeModbusExceptionCode (exceptionCodeOf c)\<rparr>\<rparr>)"
  | (valid) rest where "pdu = fc # rest" and "\<not> isExceptionResponseFunctionCode fc"
      and "checkResponseHeader pdu fc = Some (emptyHeaderCheck\<lparr>isValid := True\<rparr>)"
proof (cases pdu)
  case Nil
  then show thesis by (intro malformed) (auto simp: checkResponseHeader_def)
next
  case (Cons b rest)
  show thesis
  proof (cases "isExceptionResponseFunctionCode b")
    case True
    then show thesis
      using Cons malformed exc
      by (cases rest) (auto simp: checkResponseHeader_def)
  next
    case False
    then show thesis
      using Cons malformed valid
      by (cases "b = fc") (auto simp: checkResponseHeader_def)
  qed
qed

lemma header_flags [simp]:
  "isException (emptyHeaderCheck\<lparr>headerError := m\<rparr>) = False"
  "isValid (emptyHeaderCheck\<lparr>headerError := m\<rparr>) = False"
  "isException (emptyHeaderCheck\<lparr>isValid := True\<rparr>) = False"
  by (simp_all add: emptyHeaderCheck_def)

lemma checkResponseHeader_valid:
  "\<not> isExceptionResponseFunctionCode fc \<Longrightarrow>
   checkResponseHeader (fc # rest) fc = Some (emptyHeaderCheck\<lparr>isValid := True\<rparr>)"
  by (simp add: checkResponseHeader_def)

lemma not_exception_fcByte [simp]: "\<not> isExceptionResponseFunctionCode (fcByte f)"
  by (cases f) (simp_all add: isExceptionResponseFunctionCode_def)

text \<open>The data part of a register response, once the header is known to be valid.\<close>

lemma registers_of_data:
  assumes "length pdu \<ge> 2 + n" and "even n"
  obtains vs where "take n (drop 2 pdu) = concat (map be16 vs)" and "n = 2 * length vs"
    and "readRegisterValues pdu n 0 [] = Some vs"
proof -
  have len: "length (take n (drop 2 pdu)) = n" using assms(1) by simp
  with assms(2) obtain vs where vs: "take n (drop 2 pdu) = concat (map be16 vs)"
    by (metis even_bytes_be16)
  with len have n: "n = 2 * length vs" by (metis length_concat_be16)
  have "pdu = take 2 pdu @ concat (map be16 vs) @ drop n (drop 2 pdu)"
    by (metis append_take_drop_id vs)
  moreover have "length (take 2 pdu) = 0 + 2" using assms(1) by simp
  ultimately have "readRegisterValues pdu n 0 [] = Some vs"
    using readRegisterValues_be16 [of "take 2 pdu" 0 vs "drop n (drop 2 pdu)" "[]"] n by simp
  with vs n that show thesis by blast
qed

lemma decodeReadRegisters_total: "decodeReadRegistersResponseImpl pdu fc \<noteq> None"
proof (cases pdu fc rule: header_cases)
  case (valid rest)
  show ?thesis
  proof (cases rest)
    case (Cons n data)
    show ?thesis
    proof (cases "even (unat n) \<and> 2 + unat n \<le> length pdu")
      case True
      then obtain vs where "readRegisterValues pdu (unat n) 0 [] = Some vs"
        using registers_of_data by metis
      with valid Cons True show ?thesis by (auto simp: decodeReadRegistersResponseImpl_def)
    next
      case False
      with valid Cons show ?thesis
        by (auto simp: decodeReadRegistersResponseImpl_def odd_iff_mod_2_eq_one)
    qed
  qed (use valid in \<open>simp add: decodeReadRegistersResponseImpl_def\<close>)
qed (auto simp: decodeReadRegistersResponseImpl_def)

lemma decodeReadRegisters_Ok_iff:
  assumes fc: "\<not> isExceptionResponseFunctionCode fc"
  shows "decodeReadRegistersResponseImpl pdu fc = Some (Ok r) \<longleftrightarrow>
         (\<exists>rest. pdu = [fc, word_of_nat (2 * length (registerValues r))]
                   @ concat (map be16 (registerValues r)) @ rest
               \<and> length (registerValues r) \<le> 127)"
    (is "?dec \<longleftrightarrow> ?layout")
proof
  assume dec: ?dec
  show ?layout
  proof (cases pdu fc rule: header_cases)
    case (valid rest)
    with dec obtain n data where rest: "rest = n # data"
      by (cases rest) (auto simp: decodeReadRegistersResponseImpl_def)
    with dec valid have ok: "even (unat n)" "2 + unat n \<le> length pdu"
      and vals: "readRegisterValues pdu (unat n) 0 [] = Some (registerValues r)"
      by (auto simp: decodeReadRegistersResponseImpl_def not_less even_iff_mod_2_eq_zero
          split: if_splits bind_splits)
    from registers_of_data [OF ok(2) ok(1)] obtain ws
      where ws: "take (unat n) (drop 2 pdu) = concat (map be16 ws)" "unat n = 2 * length ws"
        "readRegisterValues pdu (unat n) 0 [] = Some ws" by blast
    define vs where "vs = registerValues r"
    have vs: "take (unat n) (drop 2 pdu) = concat (map be16 vs)" "unat n = 2 * length vs"
      using ws vals by (simp_all add: vs_def)
    have "pdu = [fc, n] @ concat (map be16 vs) @ drop (unat n) data"
      using valid rest vs(1) append_take_drop_id [of "unat n" data] by simp
    moreover have "n = word_of_nat (2 * length vs)" by (simp flip: vs(2))
    moreover have "length vs \<le> 127" using u8_lt [of n] vs(2) by simp
    ultimately show ?thesis unfolding vs_def by blast
  qed (use dec fc in \<open>auto simp: decodeReadRegistersResponseImpl_def\<close>)
next
  assume ?layout
  then obtain rest where pdu: "pdu = [fc, word_of_nat (2 * length (registerValues r))]
      @ concat (map be16 (registerValues r)) @ rest" and len: "length (registerValues r) \<le> 127"
    by blast
  let ?n = "word_of_nat (2 * length (registerValues r)) :: u8"
  have n: "unat ?n = 2 * length (registerValues r)" using len by (intro of_nat_u8_unat) simp
  have "readRegisterValues pdu (2 * length (registerValues r)) 0 [] = Some (registerValues r)"
    using readRegisterValues_be16 [of "[fc, ?n]" 0 "registerValues r" rest "[]"] pdu by simp
  then show ?dec
    using pdu n checkResponseHeader_valid [OF fc]
    by (simp add: decodeReadRegistersResponseImpl_def)
qed

lemma decodeReadBits_total: "decodeReadBitsResponseImpl pdu fc q \<noteq> None"
proof (cases pdu fc rule: header_cases)
  case (valid rest)
  show ?thesis
  proof (cases rest)
    case (Cons n data)
    show ?thesis
    proof (cases "2 + unat n \<le> length pdu \<and> unat n = (unat q + 7) div 8")
      case True
      then have "unat q \<le> 8 * (length pdu - 2)" by linarith
      then have "readBitValues pdu 0 (unat q) \<noteq> None"
        using readBitValues_eq [of 0 "unat q" pdu] by simp
      with valid Cons True show ?thesis by (auto simp: decodeReadBitsResponseImpl_def)
    next
      case False
      with valid Cons show ?thesis by (auto simp: decodeReadBitsResponseImpl_def)
    qed
  qed (use valid in \<open>simp add: decodeReadBitsResponseImpl_def\<close>)
qed (auto simp: decodeReadBitsResponseImpl_def)

lemma decodeReadBits_Ok_iff:
  assumes fc: "\<not> isExceptionResponseFunctionCode fc"
  shows "decodeReadBitsResponseImpl pdu fc q = Some (Ok r) \<longleftrightarrow>
         (\<exists>data rest. pdu = [fc, word_of_nat (length data)] @ data @ rest
            \<and> length data = (unat q + 7) div 8 \<and> length data \<le> 255
            \<and> bitValues r = map (\<lambda>j. bit (data ! (j div 8)) (j mod 8)) [0..<unat q])"
    (is "?dec \<longleftrightarrow> ?layout")
proof
  assume dec: ?dec
  show ?layout
  proof (cases pdu fc rule: header_cases)
    case (valid rest)
    with dec obtain n body where rest: "rest = n # body"
      by (cases rest) (auto simp: decodeReadBitsResponseImpl_def)
    with dec valid have ok: "2 + unat n \<le> length pdu" "unat n = (unat q + 7) div 8"
      and vals: "readBitValues pdu 0 (unat q) = Some (bitValues r)"
      by (auto simp: decodeReadBitsResponseImpl_def not_less split: if_splits bind_splits)
    define data where "data = take (unat n) body"
    have len: "length data = unat n" using ok(1) valid rest by (simp add: data_def)
    have "unat q \<le> 8 * (length pdu - 2)" using ok by linarith
    then have br: "bitValues r = map (\<lambda>j. bit (pdu ! (2 + j div 8)) (j mod 8)) [0..<unat q]"
      using readBitValues_eq [of 0 "unat q" pdu] vals by simp
    have "pdu ! (2 + j div 8) = data ! (j div 8)" if "j < unat q" for j
    proof -
      have "j div 8 < unat n" using that ok(2) by linarith
      then show ?thesis using valid rest by (simp add: data_def)
    qed
    with br have "bitValues r = map (\<lambda>j. bit (data ! (j div 8)) (j mod 8)) [0..<unat q]" by simp
    moreover have "length data = (unat q + 7) div 8" using len ok(2) by simp
    moreover have "pdu = [fc, word_of_nat (length data)] @ data @ drop (unat n) body"
      using valid rest len by (simp add: data_def)
    moreover have "length data \<le> 255" using u8_lt [of n] len by simp
    ultimately show ?thesis by blast
  qed (use dec fc in \<open>auto simp: decodeReadBitsResponseImpl_def\<close>)
next
  assume ?layout
  then obtain data rest where pdu: "pdu = [fc, word_of_nat (length data)] @ data @ rest"
    and len: "length data = (unat q + 7) div 8" "length data \<le> 255"
    and br: "bitValues r = map (\<lambda>j. bit (data ! (j div 8)) (j mod 8)) [0..<unat q]" by blast
  have n: "unat (word_of_nat (length data) :: u8) = length data"
    using len(2) by (intro of_nat_u8_unat) simp
  have "length data \<le> length pdu - 2" using pdu by simp
  then have "unat q \<le> 8 * (length pdu - 2)" using len(1) by linarith
  moreover have "pdu ! (2 + j div 8) = data ! (j div 8)" if "j < unat q" for j
  proof -
    have "j div 8 < length data" using that len(1) by linarith
    then show ?thesis by (simp add: pdu nth_append)
  qed
  ultimately have vals: "readBitValues pdu 0 (unat q) = Some (bitValues r)"
    using readBitValues_eq [of 0 "unat q" pdu] br by simp
  with pdu n len checkResponseHeader_valid [OF fc] show ?dec
    by (simp add: decodeReadBitsResponseImpl_def)
qed

lemma decodeWriteSingle_total: "decodeWriteSingleResponseImpl pdu fc \<noteq> None"
  by (cases pdu fc rule: header_cases)
    (auto simp: decodeWriteSingleResponseImpl_def readBigEndianU16_eq)

lemma decodeWriteMultiple_total: "decodeWriteMultipleResponseImpl pdu fc \<noteq> None"
  by (cases pdu fc rule: header_cases)
    (auto simp: decodeWriteMultipleResponseImpl_def readBigEndianU16_eq)

lemma five_bytes_be16:
  "5 \<le> length pdu \<longleftrightarrow> (\<exists>b v w rest. pdu = b # be16 v @ be16 w @ rest)"
proof
  assume "5 \<le> length pdu"
  then obtain b h l h' l' rest where "pdu = [b, h, l, h', l'] @ rest"
    by (auto simp: Suc_le_length_iff numeral_eq_Suc)
  then have "pdu = b # be16 (join16 h l) @ be16 (join16 h' l') @ rest" by (simp add: be16_def)
  then show "\<exists>b v w rest. pdu = b # be16 v @ be16 w @ rest" by blast
qed auto

lemma read_1_3:
  "readBigEndianU16 (b # be16 v @ be16 w @ rest) 1 = Some v"
  "readBigEndianU16 (b # be16 v @ be16 w @ rest) 3 = Some w"
  using readBigEndianU16_at [of "[b]" v] readBigEndianU16_at [of "b # be16 v" w] by simp_all

lemma decodeWriteSingle_Ok_iff:
  assumes fc: "\<not> isExceptionResponseFunctionCode fc"
  shows "decodeWriteSingleResponseImpl pdu fc = Some (Ok r) \<longleftrightarrow>
         (\<exists>rest. pdu = [fc] @ be16 (ws_address r) @ be16 (ws_value r) @ rest)" (is "?dec \<longleftrightarrow> ?layout")
proof
  assume dec: ?dec
  show ?layout
  proof (cases pdu fc rule: header_cases)
    case (valid rest)
    with dec have "5 \<le> length pdu"
      by (auto simp: decodeWriteSingleResponseImpl_def split: if_splits)
    then obtain v w xs where pdu: "pdu = fc # be16 v @ be16 w @ xs"
      using five_bytes_be16 [of pdu] valid(1) by auto
    with dec valid(3) show ?thesis
      by (auto simp: decodeWriteSingleResponseImpl_def read_1_3)
  qed (use dec fc in \<open>auto simp: decodeWriteSingleResponseImpl_def\<close>)
qed (auto simp: decodeWriteSingleResponseImpl_def read_1_3 checkResponseHeader_valid [OF fc])

lemma decodeWriteMultiple_Ok_iff:
  assumes fc: "\<not> isExceptionResponseFunctionCode fc"
  shows "decodeWriteMultipleResponseImpl pdu fc = Some (Ok r) \<longleftrightarrow>
         (\<exists>rest. pdu = [fc] @ be16 (wm_startAddress r) @ be16 (wm_quantity r) @ rest)"
    (is "?dec \<longleftrightarrow> ?layout")
proof
  assume dec: ?dec
  show ?layout
  proof (cases pdu fc rule: header_cases)
    case (valid rest)
    with dec have "5 \<le> length pdu"
      by (auto simp: decodeWriteMultipleResponseImpl_def split: if_splits)
    then obtain v w xs where pdu: "pdu = fc # be16 v @ be16 w @ xs"
      using five_bytes_be16 [of pdu] valid(1) by auto
    with dec valid(3) show ?thesis
      by (auto simp: decodeWriteMultipleResponseImpl_def read_1_3)
  qed (use dec fc in \<open>auto simp: decodeWriteMultipleResponseImpl_def\<close>)
qed (auto simp: decodeWriteMultipleResponseImpl_def read_1_3 checkResponseHeader_valid [OF fc])

lemmas pdu_decoder_defs =
  decodeReadCoilsResponse_def decodeReadDiscreteInputsResponse_def
  decodeReadHoldingRegistersResponse_def decodeReadInputRegistersResponse_def
  decodeWriteSingleCoilResponse_def decodeWriteSingleRegisterResponse_def
  decodeWriteMultipleCoilsResponse_def decodeWriteMultipleRegistersResponse_def

lemmas pdu_total =
  decodeReadBits_total decodeReadRegisters_total decodeWriteSingle_total decodeWriteMultiple_total

section \<open>Properties of the codec\<close>

text \<open>No response decoder ever reads outside the PDU it is given, whatever the device sent: each
  of the eight decoders returns a result (a value, a malformed-frame message or a device exception)
  for every byte sequence and every requested quantity.\<close>

theorem decoders_never_read_outside:
  "decodeReadCoilsResponse pdu q \<noteq> None \<and> decodeReadDiscreteInputsResponse pdu q \<noteq> None \<and>
   decodeReadHoldingRegistersResponse pdu \<noteq> None \<and> decodeReadInputRegistersResponse pdu \<noteq> None \<and>
   decodeWriteSingleCoilResponse pdu \<noteq> None \<and> decodeWriteSingleRegisterResponse pdu \<noteq> None \<and>
   decodeWriteMultipleCoilsResponse pdu \<noteq> None \<and> decodeWriteMultipleRegistersResponse pdu \<noteq> None"
  by (simp only: pdu_decoder_defs pdu_total not_False_eq_True simp_thms)

text \<open>C21: the register decoders accept exactly the PDUs of the Modbus layout (function code, even
  byte count, that many data bytes, anything after them) and return the registers that the data
  bytes spell in big-endian order.\<close>

theorem register_response_exact:
  "(decodeReadHoldingRegistersResponse pdu = Some (Ok r) \<longleftrightarrow>
     (\<exists>rest. pdu = [0x03, word_of_nat (2 * length (registerValues r))]
               @ concat (map be16 (registerValues r)) @ rest \<and> length (registerValues r) \<le> 127)) \<and>
   (decodeReadInputRegistersResponse pdu = Some (Ok r) \<longleftrightarrow>
     (\<exists>rest. pdu = [0x04, word_of_nat (2 * length (registerValues r))]
               @ concat (map be16 (registerValues r)) @ rest \<and> length (registerValues r) \<le> 127))"
  using decodeReadRegisters_Ok_iff [OF not_exception_fcByte, of pdu ReadHoldingRegisters r]
    decodeReadRegisters_Ok_iff [OF not_exception_fcByte, of pdu ReadInputRegisters r]
  by (simp_all add: pdu_decoder_defs)

lemma decodeReadBits_packBits:
  assumes fc: "\<not> isExceptionResponseFunctionCode fc" and len: "length vs \<le> 2040"
    and p: "packBits vs = Some p"
  shows "decodeReadBitsResponseImpl ([fc, word_of_nat (length p)] @ p @ rest) fc
           (word_of_nat (length vs)) = Some (Ok \<lparr>bitValues = vs\<rparr>)"
proof -
  have q: "unat (word_of_nat (length vs) :: u16) = length vs"
    using len by (intro of_nat_u16_unat) simp
  from p have lp: "length p = (length vs + 7) div 8"
    and bits: "\<And>j. j < 8 * length p \<Longrightarrow> bit (p ! (j div 8)) (j mod 8) \<longleftrightarrow> j < length vs \<and> vs ! j"
    using packBits_spec [of vs] by (metis option.inject)+
  have "map (\<lambda>j. bit (p ! (j div 8)) (j mod 8)) [0..<length vs] = vs"
  proof (rule nth_equalityI)
    fix i assume "i < length (map (\<lambda>j. bit (p ! (j div 8)) (j mod 8)) [0..<length vs])"
    then show "map (\<lambda>j. bit (p ! (j div 8)) (j mod 8)) [0..<length vs] ! i = vs ! i"
      using bits [of i] lp by simp
  qed simp
  moreover have "length p \<le> 255" using len lp by linarith
  ultimately show ?thesis
    unfolding decodeReadBits_Ok_iff [OF fc] q using lp by (intro exI [of _ p] exI [of _ rest]) simp
qed

text \<open>Packing coil values into bytes and reading such a response back returns exactly the values
  that were packed, padding bits excluded, for every quantity a byte count can express; the packer
  never writes outside its buffer.\<close>

theorem bit_response_roundtrip:
  assumes "length vs \<le> 2040"
  shows "\<exists>p. packBits vs = Some p
      \<and> decodeReadCoilsResponse ([0x01, word_of_nat (length p)] @ p @ rest)
          (word_of_nat (length vs)) = Some (Ok \<lparr>bitValues = vs\<rparr>)
      \<and> decodeReadDiscreteInputsResponse ([0x02, word_of_nat (length p)] @ p @ rest)
          (word_of_nat (length vs)) = Some (Ok \<lparr>bitValues = vs\<rparr>)"
proof -
  obtain p where p: "packBits vs = Some p" using packBits_total [of vs] by blast
  from p decodeReadBits_packBits [OF not_exception_fcByte assms p, of ReadCoils rest]
    decodeReadBits_packBits [OF not_exception_fcByte assms p, of ReadDiscreteInputs rest]
  show ?thesis by (simp add: pdu_decoder_defs)
qed

theorem bit_response_roundtrip_witness:
  "decodeReadCoilsResponse [0x01, 2, 0x05, 0x02] 10
     = Some (Ok \<lparr>bitValues = [True, False, True, False, False, False, False, False, False, True]\<rparr>)"
  using bit_response_roundtrip
    [of "[True, False, True, False, False, False, False, False, False, True]" "[]"]
  by (simp add: packBits_def numeral_2_eq_2)

definition carries_exception :: "bytes \<Rightarrow> ModbusExceptionResponse \<Rightarrow> bool" where
  "carries_exception pdu e \<longleftrightarrow>
     (\<exists>b c rest. pdu = b # c # rest \<and> b AND 0x80 \<noteq> 0 \<and>
        e = \<lparr>originalFunctionCode = b AND 0x7F, exceptionCode = exceptionCodeOf c,
             message = describeModbusExceptionCode (exceptionCodeOf c)\<rparr>)"

text \<open>A response is reported as a device exception exactly when it has at least two bytes and the
  high bit of the first is set, for every kind of request; the original function code, the exception
  code and its description are those the two bytes carry.\<close>

theorem exception_response_exact:
  "(decodeReadBitsResponseImpl pdu fc q = Some (ExceptionResponse e) \<longleftrightarrow> carries_exception pdu e) \<and>
   (decodeReadRegistersResponseImpl pdu fc = Some (ExceptionResponse e) \<longleftrightarrow> carries_exception pdu e) \<and>
   (decodeWriteSingleResponseImpl pdu fc = Some (ExceptionResponse e) \<longleftrightarrow> carries_exception pdu e) \<and>
   (decodeWriteMultipleResponseImpl pdu fc = Some (ExceptionResponse e) \<longleftrightarrow> carries_exception pdu e)"
  unfolding carries_exception_def
  by (cases pdu fc rule: header_cases;
      fastforce simp: decodeReadBitsResponseImpl_def decodeReadRegistersResponseImpl_def
        decodeWriteSingleResponseImpl_def decodeWriteMultipleResponseImpl_def
        isExceptionResponseFunctionCode_def emptyHeaderCheck_def split: if_splits bind_splits)

text \<open>A device acknowledges a single write by echoing the request; decoding that echo returns the
  address and the value of the request (0xFF00 and 0 for a coil).\<close>

theorem write_echo_roundtrip:
  "decodeWriteSingleRegisterResponse (encodeWriteSingleRegisterRequest a v)
     = Some (Ok \<lparr>ws_address = a, ws_value = v\<rparr>) \<and>
   decodeWriteSingleCoilResponse (encodeWriteSingleCoilRequest a on)
     = Some (Ok \<lparr>ws_address = a, ws_value = (if on then 0xFF00 else 0)\<rparr>)"
  by (simp only: pdu_decoder_defs decodeWriteSingle_Ok_iff [OF not_exception_fcByte])
    (simp add: encodeWriteSingleRegisterRequest_def encodeWriteSingleCoilRequest_def wire_simps)

text \<open>Within the limits of the Modbus specification (123 registers, 1968 coils) a multiple write
  is laid out as function code, start address, quantity, byte count and data, with quantity and byte
  count exact; the data bits of the coil request are the values in order, low bit first.\<close>

theorem write_multiple_layout:
  assumes "length vs \<le> 123" and "length cs \<le> 1968"
  shows "(\<exists>n c. encodeWriteMultipleRegistersRequest a vs = [0x10] @ be16 a @ be16 n @ [c] @ concat (map be16 vs)
             \<and> unat n = length vs \<and> unat c = length (concat (map be16 vs)))
       \<and> (\<exists>n c p. encodeWriteMultipleCoilsRequest a cs = Some ([0x0F] @ be16 a @ be16 n @ [c] @ p)
             \<and> unat n = length cs \<and> unat c = length p
             \<and> (\<forall>j. j < 8 * length p \<longrightarrow>
                  bit (p ! (j div 8)) (j mod 8) = (j < length cs \<and> cs ! j)))"
proof
  show "\<exists>n c. encodeWriteMultipleRegistersRequest a vs = [0x10] @ be16 a @ be16 n @ [c] @ concat (map be16 vs)
          \<and> unat n = length vs \<and> unat c = length (concat (map be16 vs))"
    using assms(1)
    by (intro exI [of _ "word_of_nat (length vs)"] exI [of _ "word_of_nat (length vs * 2)"])
      (simp add: encodeWriteMultipleRegistersRequest_def wire_simps of_nat_u16_unat of_nat_u8_unat
        del: of_nat_mult)
  obtain p where p: "packBits cs = Some p" "length p = (length cs + 7) div 8"
    and bits: "\<And>j. j < 8 * length p \<Longrightarrow> bit (p ! (j div 8)) (j mod 8) = (j < length cs \<and> cs ! j)"
    using packBits_spec [of cs] by metis
  have "length p < 256" using p(2) assms(2) by linarith
  with p bits assms(2)
  show "\<exists>n c p. encodeWriteMultipleCoilsRequest a cs = Some ([0x0F] @ be16 a @ be16 n @ [c] @ p)
          \<and> unat n = length cs \<and> unat c = length p
          \<and> (\<forall>j. j < 8 * length p \<longrightarrow> bit (p ! (j div 8)) (j mod 8) = (j < length cs \<and> cs ! j))"
    by (intro exI [of _ "word_of_nat (length cs)"] exI [of _ "word_of_nat (length p)"] exI [of _ p])
      (simp add: encodeWriteMultipleCoilsRequest_def wire_simps of_nat_u16_unat of_nat_u8_unat)
qed

theorem write_multiple_layout_witness:
  "\<exists>n c. encodeWriteMultipleRegistersRequest 7 [1, 2] = [0x10] @ be16 7 @ be16 n @ [c] @ concat (map be16 [1, 2])
       \<and> unat n = length [1 :: u16, 2] \<and> unat c = length (concat (map be16 [1, 2]))"
  by (rule conjunct1 [OF write_multiple_layout [of "[1, 2]" "[True]" 7]]) simp_all

end
