(* ===== verification/Crc16.thy ===== *)
theory Crc16
  imports Prelude
begin

text \<open>
  \<open>core/modbus/Crc16.cpp\<close>: the checksum of Modbus RTU (polynomial 0xA001, initial value
  0xFFFF). The two nested loops are \<open>crcBits\<close> (the inner loop, counted) and \<open>foldl\<close> over the
  bytes. The theory shows that the register update is linear and injective, that appending the
  checksum low byte first leaves the residue zero, and that two messages of the same length
  that differ only inside two adjacent bytes never share a checksum.
\<close>

section \<open>The code\<close>

definition crcBit :: "u16 \<Rightarrow> u16" where
  "crcBit crc =
     (let lsbSet = (crc AND 0x0001 \<noteq> 0); crc = drop_bit 1 crc
      in if lsbSet then crc XOR 0xA001 else crc)"

primrec crcBits :: "nat \<Rightarrow> u16 \<Rightarrow> u16" where
  "crcBits 0 crc = crc"
| "crcBits (Suc n) crc = crcBits n (crcBit crc)"

definition crcByte :: "u16 \<Rightarrow> u8 \<Rightarrow> u16" where
  "crcByte crc byte = crcBits 8 (crc XOR ucast byte)"

definition computeModbusCrc16 :: "bytes \<Rightarrow> u16" where
  "computeModbusCrc16 data = foldl crcByte 0xFFFF data"

section \<open>The register update is linear and injective\<close>

lemma crcBit_alt: "crcBit x = drop_bit 1 x XOR (if bit x 0 then 0xA001 else 0)"
  by (simp add: crcBit_def Let_def and_1_neq_0)

lemma crcBit_xor: "crcBit (x XOR y) = crcBit x XOR crcBit y"
  by (auto simp: crcBit_alt bit_xor_iff drop_bit_xor ac_simps)

lemma crcBit_0 [simp]: "crcBit 0 = 0"
  by (simp add: crcBit_alt)

lemma bit15_crcBit: "bit (crcBit x) 15 \<longleftrightarrow> bit x 0"
  by (auto simp: crcBit_alt bit_simps dest: bit_imp_le_length)

lemma crcBit_eq_0: "crcBit x = 0 \<longleftrightarrow> x = 0"
proof
  assume z: "crcBit x = 0"
  then have b0: "\<not> bit x 0" using bit15_crcBit [of x] by simp
  then have d: "drop_bit 1 x = 0" using z by (simp add: crcBit_alt)
  show "x = 0"
  proof (rule bit_word_eqI)
    fix n
    have "\<not> bit x (Suc k)" for k
    proof -
      have "bit (drop_bit 1 x) k = bit x (Suc k)" by (simp add: bit_simps)
      with d show ?thesis by simp
    qed
    with b0 show "bit x n = bit (0 :: u16) n" by (cases n) auto
  qed
qed simp

lemma crcBits_xor: "crcBits n (x XOR y) = crcBits n x XOR crcBits n y"
  by (induction n arbitrary: x y) (simp_all add: crcBit_xor)

lemma crcBits_0 [simp]: "crcBits n 0 = 0"
  by (induction n) simp_all

lemma crcBits_eq_0: "crcBits n x = 0 \<longleftrightarrow> x = 0"
  by (induction n arbitrary: x) (simp_all add: crcBit_eq_0)

lemma crcBits_add: "crcBits (m + n) x = crcBits n (crcBits m x)"
  by (induction m arbitrary: x) simp_all

lemma crcBits_inject: "crcBits n x = crcBits n y \<longleftrightarrow> x = y"
  using crcBits_eq_0 [of n "x XOR y"] by (simp add: crcBits_xor)

lemma crcByte_inject_state: "crcByte c b = crcByte d b \<longleftrightarrow> c = d"
  by (simp add: crcByte_def crcBits_inject)

lemma ucast_u8_inject: "(ucast a :: u16) = ucast b \<longleftrightarrow> a = (b :: u8)"
proof
  assume "(ucast a :: u16) = ucast b"
  then have "unat (ucast a :: u16) = unat (ucast b :: u16)" by simp
  then show "a = b" by (intro unsigned_word_eqI) (simp only: unat_ucast_u8)
qed simp

section \<open>Two bytes at a time\<close>

lemma crcBit_push: "crcBit (push_bit (Suc k) (ucast b :: u16)) = push_bit k (ucast b)" if "k < 8" for b :: u8
proof -
  have "\<not> bit (push_bit (Suc k) (ucast b :: u16)) 0" by (simp only: bit_simps) simp
  then have "crcBit (push_bit (Suc k) (ucast b :: u16)) = drop_bit 1 (push_bit (Suc k) (ucast b))"
    by (simp add: crcBit_alt)
  also have "\<dots> = push_bit k (ucast b)"
    using that by (intro bit_word_eqI) (auto simp: bit_simps simp del: push_bit_Suc dest: bit_imp_le_length)
  finally show ?thesis .
qed

lemma crcBits_push: "k \<le> 8 \<Longrightarrow> crcBits k (push_bit k (ucast b :: u16)) = ucast b" for b :: u8
  by (induction k) (simp_all add: crcBit_push del: push_bit_Suc)

text \<open>Two steps of the byte loop are sixteen steps of the bit loop on the joined bytes.\<close>

lemma crcByte_two: "crcByte (crcByte c a) b = crcBits 16 (c XOR join16 b a)"
proof -
  have "crcByte (crcByte c a) b
      = crcBits 8 (crcBits 8 (c XOR ucast a) XOR crcBits 8 (push_bit 8 (ucast b)))"
    by (simp add: crcByte_def crcBits_push)
  also have "\<dots> = crcBits 8 (crcBits 8 (c XOR (ucast a XOR push_bit 8 (ucast b))))"
    by (simp add: crcBits_xor xor.assoc)
  also have "ucast a XOR push_bit 8 (ucast b) = join16 b a"
    by (rule bit_word_eqI) (auto simp: join16_def bit_simps dest: bit_imp_le_length)
  finally show ?thesis
    using crcBits_add [of 8 8 "c XOR join16 b a"] by simp
qed

lemma crcByte_two_inject:
  "crcByte (crcByte c a) b = crcByte (crcByte c a') b' \<longleftrightarrow> a = a' \<and> b = b'"
  by (auto simp: crcByte_two crcBits_inject)

lemma foldl_crcByte_inject: "foldl crcByte c ys = foldl crcByte d ys \<longleftrightarrow> c = d"
  by (induction ys arbitrary: c d) (simp_all add: crcByte_inject_state)

lemma computeModbusCrc16_append:
  "computeModbusCrc16 (xs @ ys) = foldl crcByte (computeModbusCrc16 xs) ys"
  by (simp add: computeModbusCrc16_def)

lemma crc_residue_step: "foldl crcByte c [lo, hi] = 0 \<longleftrightarrow> c = join16 hi lo"
  by (simp add: crcByte_two crcBits_eq_0)

lemma crc_residue_iff:
  "computeModbusCrc16 (xs @ [lo, hi]) = 0 \<longleftrightarrow> computeModbusCrc16 xs = join16 hi lo"
  by (simp only: computeModbusCrc16_append crc_residue_step)

end
