(* ===== verification/Framing.thy ===== *)
theory Framing
  imports Modbus_Pdu Crc16
begin

text \<open>
  \<open>core/modbus/ModbusTcpFramer.cpp\<close> and \<open>core/modbus/ModbusRtuFramer.cpp\<close>: how a PDU becomes the
  bytes of one frame, and how the first frame is cut off a received byte stream. The locale
  \<open>stream_framer\<close> states what a reader of such a stream relies on, and both framers
  provide it.
\<close>

section \<open>Modbus TCP: the MBAP header\<close>

definition MbapHeaderByteCount :: nat where
  "MbapHeaderByteCount = 7"

record DecodedMbapFrame =
  mb_transactionId :: u16
  mb_unitId :: u8
  mb_pdu :: bytes
  frameByteCount :: nat

text \<open>The framer's own copy of the big-endian reader; every call is behind the size guard.\<close>

definition mbapU16 :: "bytes \<Rightarrow> nat \<Rightarrow> u16" where
  "mbapU16 buffer offset = push_bit 8 (ucast (buffer ! offset)) OR ucast (buffer ! (offset + 1))"

definition encodeMbapFrame :: "u16 \<Rightarrow> u8 \<Rightarrow> bytes \<Rightarrow> bytes" where
  "encodeMbapFrame tid uid p =
     (let frame = appendBigEndianU16 [] tid;
          frame = appendBigEndianU16 frame 0;
          frame = appendBigEndianU16 frame (word_of_nat (1 + length p))
      in frame @ [uid] @ p)"

definition decodeMbapFrame :: "bytes \<Rightarrow> DecodedMbapFrame option" where
  "decodeMbapFrame buffer =
     (if length buffer < MbapHeaderByteCount then None
      else
        let tid = mbapU16 buffer 0;
            protocolId = mbapU16 buffer 2;
            len = mbapU16 buffer 4;
            uid = buffer ! 6
        in if protocolId \<noteq> 0 then None
           else let totalFrameSize = 6 + unat len
                in if length buffer < totalFrameSize then None
                   else Some \<lparr>mb_transactionId = tid, mb_unitId = uid,
                              mb_pdu = qmid buffer MbapHeaderByteCount (int (unat len) - 1),
                              frameByteCount = totalFrameSize\<rparr>)"

section \<open>Modbus RTU\<close>

definition CrcByteCount :: nat where "CrcByteCount = 2"
definition MinimumFrameByteCount :: nat where "MinimumFrameByteCount = 1 + CrcByteCount"
definition UnitIdAndFunctionCodeByteCount :: nat where "UnitIdAndFunctionCodeByteCount = 2"
definition ExceptionFrameByteCount :: nat where "ExceptionFrameByteCount = 5"
definition WriteResponseByteCount :: nat where "WriteResponseByteCount = 8"
definition ReadResponseOverheadBytes :: nat where "ReadResponseOverheadBytes = 5"

lemmas rtu_constants = CrcByteCount_def MinimumFrameByteCount_def
  UnitIdAndFunctionCodeByteCount_def ExceptionFrameByteCount_def WriteResponseByteCount_def
  ReadResponseOverheadBytes_def

definition isReadFunctionCode :: "u8 \<Rightarrow> bool" where
  "isReadFunctionCode b \<longleftrightarrow>
     b \<in> {fcByte ReadCoils, fcByte ReadDiscreteInputs, fcByte ReadHoldingRegisters,
          fcByte ReadInputRegisters}"

definition isWriteFunctionCode :: "u8 \<Rightarrow> bool" where
  "isWriteFunctionCode b \<longleftrightarrow>
     b \<in> {fcByte WriteSingleCoil, fcByte WriteSingleRegister, fcByte WriteMultipleCoils,
          fcByte WriteMultipleRegisters}"

record DecodedRtuFrame =
  rtu_unitId :: u8
  rtu_pdu :: bytes

definition encodeRtuFrame :: "u8 \<Rightarrow> bytes \<Rightarrow> bytes" where
  "encodeRtuFrame uid p =
     (let frame = [uid] @ p;
          crc = computeModbusCrc16 frame
      in frame @ [ucast (crc AND 0xFF)] @ [ucast (drop_bit 8 crc AND 0xFF)])"

definition decodeRtuFrame :: "bytes \<Rightarrow> DecodedRtuFrame option" where
  "decodeRtuFrame frame =
     (if length frame < MinimumFrameByteCount then None
      else
        let withoutCrc = take (length frame - CrcByteCount) frame;
            receivedCrc = (ucast (frame ! (length frame - 2)) :: u16)
                            OR push_bit 8 (ucast (frame ! (length frame - 1)))
        in if computeModbusCrc16 withoutCrc \<noteq> receivedCrc then None
           else Some \<lparr>rtu_unitId = withoutCrc ! 0, rtu_pdu = drop 1 withoutCrc\<rparr>)"

definition expectedRtuResponseLength :: "bytes \<Rightarrow> nat" where
  "expectedRtuResponseLength partialFrame =
     (if length partialFrame < UnitIdAndFunctionCodeByteCount then 0
      else
        let functionCode = partialFrame ! 1
        in if isExceptionResponseFunctionCode functionCode then ExceptionFrameByteCount
           else if isWriteFunctionCode functionCode then WriteResponseByteCount
           else if isReadFunctionCode functionCode then
             (if length partialFrame < 3 then 0
              else ReadResponseOverheadBytes + unat (partialFrame ! 2))
           else 0)"

section \<open>Facts about MBAP frames\<close>

lemma mbapU16_join: "mbapU16 buf i = join16 (buf ! i) (buf ! (i + 1))"
  by (simp add: mbapU16_def join16_def)

lemma encodeMbapFrame_eq:
  "encodeMbapFrame t u p = be16 t @ [0, 0] @ be16 (word_of_nat (1 + length p)) @ [u] @ p"
  by (simp add: encodeMbapFrame_def appendBigEndianU16_eq be16_def hi_byte_def lo_byte_def)

lemma length_encodeMbapFrame [simp]: "length (encodeMbapFrame t u p) = 7 + length p"
  by (simp add: encodeMbapFrame_eq)

lemma join16_0_0: "join16 0 0 = 0"
  by (simp add: join16_def)

lemma join16_eq_0: "join16 a b = 0 \<longleftrightarrow> a = 0 \<and> b = 0"
  using join16_inject [of a b 0 0] by (simp add: join16_0_0)

text \<open>A buffer of at least seven bytes, spelled out as the six header fields.\<close>

lemma mbap_fields:
  assumes "7 \<le> length buf"
  obtains t q n u rest where "buf = be16 t @ be16 q @ be16 n @ [u] @ rest"
proof -
  from assms obtain a b c d e f g ys where "buf = a # b # c # d # e # f # g # ys"
    by (auto simp: length_ge_7_conv)
  then have "buf = be16 (join16 a b) @ be16 (join16 c d) @ be16 (join16 e f) @ [g] @ ys"
    by (simp add: be16_def)
  then show thesis by (rule that)
qed

lemma decodeMbapFrame_fields:
  "decodeMbapFrame (be16 t @ be16 q @ be16 n @ [u] @ rest) =
     (if q \<noteq> 0 \<or> length rest + 1 < unat n then None
      else Some \<lparr>mb_transactionId = t, mb_unitId = u, mb_pdu = qmid rest 0 (int (unat n) - 1),
                 frameByteCount = 6 + unat n\<rparr>)"
  by (auto simp: decodeMbapFrame_def MbapHeaderByteCount_def mbapU16_join be16_def Let_def
      qmid_def)

lemma decodeMbapFrame_short: "length buf < 7 \<Longrightarrow> decodeMbapFrame buf = None"
  by (simp add: decodeMbapFrame_def MbapHeaderByteCount_def)

definition mbapFrameLength :: "bytes \<Rightarrow> nat option" where
  "mbapFrameLength buf = map_option frameByteCount (decodeMbapFrame buf)"

definition mbapLengthField :: "bytes \<Rightarrow> u16" where
  "mbapLengthField buf = mbapU16 buf 4"

section \<open>Facts about RTU frames\<close>

lemma encodeRtuFrame_eq:
  "encodeRtuFrame u p =
     u # p @ [lo_byte (computeModbusCrc16 (u # p)), hi_byte (computeModbusCrc16 (u # p))]"
  by (simp add: encodeRtuFrame_def Let_def lo_byte_def hi_byte_def)

lemma length_encodeRtuFrame [simp]: "length (encodeRtuFrame u p) = length p + 3"
  by (simp add: encodeRtuFrame_eq)

lemma frame_last_two:
  assumes "3 \<le> length f"
  obtains u p lo hi where "f = u # p @ [lo, hi]"
proof -
  from assms obtain u g where f: "f = u # g" and "2 \<le> length g"
    by (cases f) auto
  then obtain p lo hi where "g = p @ [lo, hi]"
    by (cases g rule: rev_cases; cases "butlast g" rule: rev_cases) auto
  with f show thesis by (intro that) simp
qed

lemma decodeRtuFrame_snoc:
  "decodeRtuFrame (u # p @ [lo, hi]) =
     (if computeModbusCrc16 (u # p) = join16 hi lo then Some \<lparr>rtu_unitId = u, rtu_pdu = p\<rparr> else None)"
  by (auto simp: decodeRtuFrame_def rtu_constants Let_def join16_def nth_append or.commute
      take_Cons')

lemma decodeRtuFrame_residue:
  "decodeRtuFrame f \<noteq> None \<longleftrightarrow> 3 \<le> length f \<and> computeModbusCrc16 f = 0"
proof (cases "3 \<le> length f")
  case True
  then obtain u p lo hi where "f = u # p @ [lo, hi]" by (rule frame_last_two)
  then show ?thesis
    using crc_residue_iff [of "u # p" lo hi] by (simp add: decodeRtuFrame_snoc)
next
  case False
  then show ?thesis by (simp add: decodeRtuFrame_def rtu_constants)
qed

lemma rtu_decode_encode: "decodeRtuFrame (encodeRtuFrame u p) = Some \<lparr>rtu_unitId = u, rtu_pdu = p\<rparr>"
  by (simp add: encodeRtuFrame_eq decodeRtuFrame_snoc)

definition rtuFrameLength :: "bytes \<Rightarrow> nat option" where
  "rtuFrameLength buf =
     (let n = expectedRtuResponseLength buf
      in if n = 0 \<or> length buf < n then None else Some n)"

lemma expectedRtuResponseLength_Cons2:
  "expectedRtuResponseLength (u # b # rest) =
     (if isExceptionResponseFunctionCode b then 5
      else if isWriteFunctionCode b then 8
      else if isReadFunctionCode b then (case rest of [] \<Rightarrow> 0 | n # _ \<Rightarrow> 5 + unat n)
      else 0)"
  by (auto simp: expectedRtuResponseLength_def rtu_constants Let_def split: list.splits)

lemma expectedRtuResponseLength_short: "length buf < 2 \<Longrightarrow> expectedRtuResponseLength buf = 0"
  by (simp add: expectedRtuResponseLength_def rtu_constants)

lemma expectedRtuResponseLength_stable:
  "expectedRtuResponseLength buf \<noteq> 0 \<Longrightarrow>
   expectedRtuResponseLength (buf @ ext) = expectedRtuResponseLength buf"
proof (cases "length buf < 2")
  case False
  then obtain u b rest where "buf = u # b # rest"
    by (cases buf; cases "tl buf") auto
  then show "expectedRtuResponseLength buf \<noteq> 0 \<Longrightarrow> ?thesis"
    by (auto simp: expectedRtuResponseLength_Cons2 split: if_splits list.splits)
qed (simp add: expectedRtuResponseLength_short)

section \<open>Cutting frames off a byte stream\<close>

text \<open>
  What a reader of a received stream relies on: the length of the first frame is known only when the
  whole frame is in the buffer, it is never zero, and bytes that arrive later do not change it.
\<close>

locale stream_framer =
  fixes frameLength :: "bytes \<Rightarrow> nat option"
  assumes frame_positive: "frameLength buf = Some n \<Longrightarrow> 0 < n"
    and frame_within: "frameLength buf = Some n \<Longrightarrow> n \<le> length buf"
    and frame_stable: "frameLength buf = Some n \<Longrightarrow> frameLength (buf @ ext) = Some n"

function split_frames :: "(bytes \<Rightarrow> nat option) \<Rightarrow> bytes \<Rightarrow> bytes list" where
  "split_frames fl buf =
     (case fl buf of None \<Rightarrow> []
      | Some n \<Rightarrow> if n = 0 \<or> buf = [] then []
                  else take n buf # split_frames fl (drop n buf))"
  by pat_completeness auto
termination
  by (relation "measure (\<lambda>(_, buf). length buf)") auto

declare split_frames.simps [simp del]

text \<open>
  A reader keeps a receive buffer inside its state and loops: while it is not idle, it cuts off the
  first frame and delivers it. Delivery may change the rest of the state but neither looks at nor
  changes the buffer, at least for the frames that are \<open>good\<close>.
\<close>

locale stream_reader = stream_framer frameLength
  for frameLength :: "bytes \<Rightarrow> nat option" +
  fixes rxBuffer :: "'s \<Rightarrow> bytes" and setRx :: "bytes \<Rightarrow> 's \<Rightarrow> 's"
    and idle :: "'s \<Rightarrow> bool" and good :: "bytes \<Rightarrow> bool"
    and deliver :: "bytes \<Rightarrow> 's \<Rightarrow> 's option" and loop :: "'s \<Rightarrow> 's option"
  assumes get_set: "rxBuffer (setRx b s) = b"
    and set_set: "setRx b (setRx c s) = setRx b s"
    and set_get: "setRx (rxBuffer s) s = s"
    and idle_set: "idle (setRx b s) = idle s"
    and deliver_set: "deliver f (setRx b s) = map_option (setRx b) (deliver f s)"
    and loop_idle: "idle s \<Longrightarrow> loop s = Some s"
    and loop_wait: "\<not> idle s \<Longrightarrow> frameLength (rxBuffer s) = None \<Longrightarrow> loop s = Some s"
    and loop_step: "\<not> idle s \<Longrightarrow> frameLength (rxBuffer s) = Some n \<Longrightarrow>
          good (take n (rxBuffer s)) \<Longrightarrow>
          loop s = Option.bind (deliver (take n (rxBuffer s)) (setRx (drop n (rxBuffer s)) s)) loop"
begin

lemma deliver_buffer:
  assumes "deliver f s = Some t"
  shows "rxBuffer t = rxBuffer s"
proof -
  have "map_option (setRx (rxBuffer s)) (deliver f s) = deliver f s"
    using deliver_set [of f "rxBuffer s" s] by (simp add: set_get)
  with assms have "setRx (rxBuffer s) t = t" by simp
  then show ?thesis by (metis get_set)
qed

lemma split_frames_step:
  assumes "frameLength buf = Some n"
  shows "split_frames frameLength buf = take n buf # split_frames frameLength (drop n buf)"
proof -
  have "0 < n" "n \<le> length buf" using assms frame_positive frame_within by blast+
  with assms show ?thesis by (subst split_frames.simps) auto
qed

text \<open>The loop ends and never fails when delivery never fails in a state that is not idle.\<close>

lemma loop_returns:
  assumes "\<And>f s. \<not> idle s \<Longrightarrow> deliver f s \<noteq> None"
    and "\<forall>f \<in> set (split_frames frameLength (rxBuffer s)). good f"
  shows "\<exists>t. loop s = Some t"
  using assms(2)
proof (induction "length (rxBuffer s)" arbitrary: s rule: less_induct)
  case less
  show ?case
  proof (cases "idle s \<or> frameLength (rxBuffer s) = None")
    case True
    then show ?thesis using loop_idle loop_wait by blast
  next
    case False
    then obtain n where n: "frameLength (rxBuffer s) = Some n" and busy: "\<not> idle s" by blast
    obtain t where t: "deliver (take n (rxBuffer s)) (setRx (drop n (rxBuffer s)) s) = Some t"
      using assms(1) [of "setRx (drop n (rxBuffer s)) s"] busy by (auto simp: idle_set)
    have rx: "rxBuffer t = drop n (rxBuffer s)" using deliver_buffer [OF t] by (simp add: get_set)
    have "length (rxBuffer t) < length (rxBuffer s)"
      using frame_positive [OF n] frame_within [OF n] rx by simp
    moreover have "\<forall>f \<in> set (split_frames frameLength (rxBuffer t)). good f"
      using less.prems split_frames_step [OF n] rx by simp
    ultimately obtain u where "loop t = Some u" using less.hyps by blast
    moreover have "good (take n (rxBuffer s))"
      using less.prems split_frames_step [OF n] by simp
    ultimately show ?thesis using loop_step [OF busy n] t by simp
  qed
qed

text \<open>
  Chunking does not matter: if the loop is still waiting for more after one chunk, then handing
  over the rest later gives the same outcome as handing over everything at once.
\<close>

lemma loop_chunk:
  assumes "\<forall>f \<in> set (split_frames frameLength (rxBuffer s)). good f"
    and "loop s = Some t" and "\<not> idle t"
  shows "loop (setRx (rxBuffer s @ ext) s) = loop (setRx (rxBuffer t @ ext) t)"
  using assms
proof (induction "length (rxBuffer s)" arbitrary: s rule: less_induct)
  case less
  have busy: "\<not> idle s" using less.prems(2,3) loop_idle by fastforce
  show ?case
  proof (cases "frameLength (rxBuffer s)")
    case None
    then show ?thesis using less.prems(2) loop_wait [OF busy] by simp
  next
    case (Some n)
    let ?b = "rxBuffer s" and ?d = "\<lambda>s. deliver (take n (rxBuffer s)) (setRx (drop n (rxBuffer s)) s)"
    have good: "good (take n ?b)" using less.prems(1) split_frames_step [OF Some] by simp
    obtain u where u: "?d s = Some u" "loop u = Some t"
      using less.prems(2) loop_step [OF busy Some good] by (auto split: bind_splits)
    have rx: "rxBuffer u = drop n ?b" using deliver_buffer [OF u(1)] by (simp add: get_set)
    have nb: "n \<le> length ?b" by (rule frame_within [OF Some])
    have smaller: "length (rxBuffer u) < length ?b"
      using frame_positive [OF Some] nb rx by simp
    have goods: "\<forall>f \<in> set (split_frames frameLength (rxBuffer u)). good f"
      using less.prems(1) split_frames_step [OF Some] rx by simp
    have IH: "loop (setRx (rxBuffer u @ ext) u) = loop (setRx (rxBuffer t @ ext) t)"
      by (rule less.hyps [OF smaller goods u(2) less.prems(3)])
    let ?s' = "setRx (?b @ ext) s"
    have "frameLength (rxBuffer ?s') = Some n" using frame_stable [OF Some] by (simp add: get_set)
    moreover have "take n (rxBuffer ?s') = take n ?b" using nb by (simp add: get_set)
    ultimately have "loop ?s' = Option.bind (deliver (take n ?b) (setRx (drop n ?b @ ext) s)) loop"
      using loop_step [of ?s' n] busy good nb by (simp add: idle_set get_set set_set)
    also have "deliver (take n ?b) (setRx (drop n ?b @ ext) s) = Some (setRx (drop n ?b @ ext) u)"
      using deliver_set [of "take n ?b" "drop n ?b @ ext" "setRx (drop n ?b) s"] u(1)
      by (simp add: set_set)
    finally show ?thesis using IH rx by simp
  qed
qed

end

section \<open>Both framers are stream framers\<close>

lemma decodeMbapFrame_stable:
  assumes "decodeMbapFrame buf = Some d"
  shows "\<exists>p. decodeMbapFrame (buf @ ext) = Some (d\<lparr>mb_pdu := p\<rparr>)
           \<and> (mbapLengthField buf \<noteq> 0 \<longrightarrow> p = mb_pdu d)"
proof -
  have "7 \<le> length buf" using assms decodeMbapFrame_short
    by (metis not_less option.distinct(1))
  then obtain t q n u rest where buf: "buf = be16 t @ be16 q @ be16 n @ [u] @ rest"
    by (rule mbap_fields)
  have field: "mbapLengthField buf = n"
    by (simp add: mbapLengthField_def mbapU16_join buf be16_def)
  have d: "q = 0" "unat n \<le> length rest + 1"
    "d = \<lparr>mb_transactionId = t, mb_unitId = u, mb_pdu = qmid rest 0 (int (unat n) - 1),
          frameByteCount = 6 + unat n\<rparr>"
    using assms unfolding buf decodeMbapFrame_fields by (auto split: if_splits)
  have "decodeMbapFrame (buf @ ext) = Some (d\<lparr>mb_pdu := qmid (rest @ ext) 0 (int (unat n) - 1)\<rparr>)"
    using d decodeMbapFrame_fields [of t q n u "rest @ ext"] by (simp add: buf)
  moreover have "qmid (rest @ ext) 0 (int (unat n) - 1) = mb_pdu d" if "n \<noteq> 0"
  proof -
    have pos: "0 < unat n" using that by (simp add: unat_gt_0)
    then have "1 \<le> int (unat n)" by linarith
    then have "1 \<le> uint n" by simp
    moreover from this pos have "nat (uint n - 1) \<le> length rest" using d(2) by (simp add: nat_diff_distrib)
    ultimately show ?thesis using d(3) by (simp add: qmid_def)
  qed
  ultimately show ?thesis using field by blast
qed

lemma decodeMbapFrame_bounds:
  assumes "decodeMbapFrame buf = Some d"
  shows "6 \<le> frameByteCount d \<and> frameByteCount d \<le> length buf"
  using assms by (auto simp: decodeMbapFrame_def Let_def split: if_splits)

interpretation mbap: stream_framer mbapFrameLength
proof
  fix buf n ext
  assume "mbapFrameLength buf = Some n"
  then obtain d where d: "decodeMbapFrame buf = Some d" "n = frameByteCount d"
    by (auto simp: mbapFrameLength_def)
  from decodeMbapFrame_bounds [OF d(1)] d(2) show "0 < n" "n \<le> length buf" by auto
  from decodeMbapFrame_stable [OF d(1), of ext] d(2)
  show "mbapFrameLength (buf @ ext) = Some n" by (auto simp: mbapFrameLength_def)
qed

interpretation rtu: stream_framer rtuFrameLength
proof
  fix buf n ext
  assume n: "rtuFrameLength buf = Some n"
  then have e: "expectedRtuResponseLength buf = n" "n \<noteq> 0" "n \<le> length buf"
    by (auto simp: rtuFrameLength_def Let_def split: if_splits)
  then show "0 < n" "n \<le> length buf" by auto
  from e show "rtuFrameLength (buf @ ext) = Some n"
    using expectedRtuResponseLength_stable [of buf ext] by (auto simp: rtuFrameLength_def)
qed

text \<open>The fields of an encoded frame, when the PDU fits the length field.\<close>

lemma encodeMbapFrame_fields:
  assumes "length p \<le> 65534"
  shows "encodeMbapFrame t u p = be16 t @ be16 0 @ be16 (word_of_nat (1 + length p)) @ [u] @ p"
    and "unat (word_of_nat (1 + length p) :: u16) = 1 + length p"
proof -
  show "unat (word_of_nat (1 + length p) :: u16) = 1 + length p"
    using assms by (intro of_nat_u16_unat) simp
qed (simp add: encodeMbapFrame_eq be16_def hi_byte_def lo_byte_def)

lemma decodeMbapFrame_encode:
  assumes "length p \<le> 65534"
  shows "decodeMbapFrame (encodeMbapFrame t u p @ rest) =
           Some \<lparr>mb_transactionId = t, mb_unitId = u, mb_pdu = p, frameByteCount = 7 + length p\<rparr>"
  unfolding encodeMbapFrame_fields(1) [OF assms] append_assoc decodeMbapFrame_fields
    encodeMbapFrame_fields(2) [OF assms]
  by (simp add: qmid_def)

section \<open>Properties of the framers\<close>

text \<open>C22: an MBAP frame is recovered exactly from the front of any byte stream that starts with it,
  and no strict prefix of it is mistaken for a frame, for every PDU that fits the length field.\<close>

theorem mbap_roundtrip:
  assumes "length p \<le> 65534"
  shows "decodeMbapFrame (encodeMbapFrame t u p @ rest) =
           Some \<lparr>mb_transactionId = t, mb_unitId = u, mb_pdu = p, frameByteCount = 7 + length p\<rparr>
       \<and> (\<forall>k. k < 7 + length p \<longrightarrow> decodeMbapFrame (take k (encodeMbapFrame t u p)) = None)"
proof (intro conjI allI impI)
  show "decodeMbapFrame (encodeMbapFrame t u p @ rest) =
          Some \<lparr>mb_transactionId = t, mb_unitId = u, mb_pdu = p, frameByteCount = 7 + length p\<rparr>"
    by (rule decodeMbapFrame_encode [OF assms])
  fix k assume k: "k < 7 + length p"
  note frame = encodeMbapFrame_fields(1) [OF assms] and n = encodeMbapFrame_fields(2) [OF assms]
  show "decodeMbapFrame (take k (encodeMbapFrame t u p)) = None"
  proof (cases "k < 7")
    case True
    then show ?thesis by (simp add: decodeMbapFrame_short)
  next
    case False
    then have cut: "take k (encodeMbapFrame t u p)
        = be16 t @ be16 0 @ be16 (word_of_nat (1 + length p)) @ [u] @ take (k - 7) p"
      by (simp add: frame be16_def take_Cons' eval_nat_numeral)
    show ?thesis
      unfolding cut decodeMbapFrame_fields n using k False by simp
  qed
qed

theorem mbap_roundtrip_witness:
  "decodeMbapFrame (encodeMbapFrame 1 17 [3, 0] @ [9]) =
     Some \<lparr>mb_transactionId = 1, mb_unitId = 17, mb_pdu = [3, 0], frameByteCount = 9\<rparr>"
  using mbap_roundtrip [of "[3, 0]" 1 17 "[9]"] by simp

text \<open>A length field of zero, which no well-formed frame carries, is nevertheless accepted: the
  decoder then reports six bytes as consumed but hands over everything after the unit id, so the
  bytes of the following frames are delivered as this frame's PDU and decoded again afterwards.\<close>

theorem mbap_zero_length_overruns:
  "decodeMbapFrame (be16 t @ be16 0 @ be16 0 @ [u] @ rest) =
     Some \<lparr>mb_transactionId = t, mb_unitId = u, mb_pdu = rest, frameByteCount = 6\<rparr>"
  unfolding decodeMbapFrame_fields by (simp add: qmid_def)

text \<open>C23: an RTU frame decodes to the unit id and PDU it was built from, and the decoder accepts
  nothing else: a frame is accepted only if it is the encoding of what is returned.\<close>

theorem rtu_roundtrip_exact:
  "decodeRtuFrame f = Some d \<longleftrightarrow> f = encodeRtuFrame (rtu_unitId d) (rtu_pdu d)"
proof
  assume d: "decodeRtuFrame f = Some d"
  then have "3 \<le> length f" using decodeRtuFrame_residue [of f] by simp
  then obtain u p lo hi where f: "f = u # p @ [lo, hi]" by (rule frame_last_two)
  with d show "f = encodeRtuFrame (rtu_unitId d) (rtu_pdu d)"
    by (auto simp: decodeRtuFrame_snoc encodeRtuFrame_eq split: if_splits)
qed (simp add: rtu_decode_encode)

text \<open>C24: the checksum detects every corruption confined to two neighbouring bytes (every error burst
  of at most nine bits, wherever it lies, and many longer ones): a frame whose bytes were changed
  only there is rejected.\<close>

theorem rtu_burst_detected:
  assumes "encodeRtuFrame u p = xs @ [a, b] @ ys" and "(a', b') \<noteq> (a, b)"
  shows "decodeRtuFrame (xs @ [a', b'] @ ys) = None"
proof -
  have "decodeRtuFrame (encodeRtuFrame u p) \<noteq> None" by (simp add: rtu_decode_encode)
  then have "computeModbusCrc16 (xs @ [a, b] @ ys) = 0"
    unfolding decodeRtuFrame_residue assms(1) by blast
  moreover have "computeModbusCrc16 (xs @ [a', b'] @ ys) \<noteq> computeModbusCrc16 (xs @ [a, b] @ ys)"
    using assms(2) by (auto simp: computeModbusCrc16_append foldl_crcByte_inject crcByte_two_inject)
  ultimately show ?thesis
    using decodeRtuFrame_residue [of "xs @ [a', b'] @ ys"] by auto
qed

theorem rtu_burst_detected_witness:
  "decodeRtuFrame ([0x11] @ [0x04, 0x00] @ drop 3 (encodeRtuFrame 0x11 [0x03, 0x00, 0x6B])) = None"
  by (rule rtu_burst_detected [of "0x11" "[0x03, 0x00, 0x6B]" "[0x11]" "0x03" "0x00"])
    (simp_all add: encodeRtuFrame_eq)

text \<open>The three shapes a response PDU can have on the wire.\<close>

definition response_shape :: "bytes \<Rightarrow> bool" where
  "response_shape p \<longleftrightarrow>
     (\<exists>b c. p = [b, c] \<and> isExceptionResponseFunctionCode b) \<or>
     (\<exists>b c d e f. p = [b, c, d, e, f] \<and> isWriteFunctionCode b) \<or>
     (\<exists>b data. p = [b, word_of_nat (length data)] @ data \<and> isReadFunctionCode b \<and> length data \<le> 255)"

lemma read_write_disjoint:
  "isReadFunctionCode b \<Longrightarrow> \<not> isExceptionResponseFunctionCode b \<and> \<not> isWriteFunctionCode b"
  "isWriteFunctionCode b \<Longrightarrow> \<not> isExceptionResponseFunctionCode b"
  by (auto simp: isReadFunctionCode_def isWriteFunctionCode_def isExceptionResponseFunctionCode_def)

lemma expectedRtuResponseLength_frame:
  assumes "response_shape p"
  shows "expectedRtuResponseLength (encodeRtuFrame u p @ rest) = length (encodeRtuFrame u p)"
proof -
  consider b c where "p = [b, c]" "isExceptionResponseFunctionCode b"
    | b c d e f where "p = [b, c, d, e, f]" "isWriteFunctionCode b"
    | b data where "p = [b, word_of_nat (length data)] @ data" "isReadFunctionCode b" "length data \<le> 255"
    using assms unfolding response_shape_def by blast
  then show ?thesis
  proof cases
    case (3 b data)
    then have "unat (word_of_nat (length data) :: u8) = length data"
      by (intro of_nat_u8_unat) simp
    with 3 read_write_disjoint show ?thesis
      by (simp add: encodeRtuFrame_eq expectedRtuResponseLength_Cons2)
  qed (use read_write_disjoint in \<open>auto simp: encodeRtuFrame_eq expectedRtuResponseLength_Cons2\<close>)
qed

text \<open>Although RTU frames carry no length, the first frame of a stream that starts with a complete
  response of any of the three shapes is cut off at exactly its own length, and it then decodes to
  the PDU that was sent.\<close>

theorem rtu_length_inference:
  assumes "response_shape p"
  shows "rtuFrameLength (encodeRtuFrame u p @ rest) = Some (length (encodeRtuFrame u p)) \<and>
         decodeRtuFrame (take (expectedRtuResponseLength (encodeRtuFrame u p @ rest))
           (encodeRtuFrame u p @ rest)) = Some \<lparr>rtu_unitId = u, rtu_pdu = p\<rparr>"
  using expectedRtuResponseLength_frame [OF assms, of u rest]
  by (auto simp: rtuFrameLength_def rtu_decode_encode)

theorem rtu_length_inference_witness:
  "rtuFrameLength (encodeRtuFrame 17 [3, 2, 0, 9] @ [1, 2]) = Some (length (encodeRtuFrame 17 [3, 2, 0, 9]))"
  by (rule conjunct1 [OF rtu_length_inference])
    (auto simp: response_shape_def isReadFunctionCode_def intro!: exI [of _ "[0, 9]"])

end
