(* ===== verification/Transaction_Manager.thy ===== *)
theory Transaction_Manager
  imports Framing Qt_Text "HOL-Library.Multiset"
begin

text \<open>
  \<open>core/modbus/ModbusTransactionManager\<close>: sends request PDUs, matches the answers cut out of the
  received byte stream to their requests, and retries on timeout.

  \<^item> The manager's members are the record \<open>tmgr\<close>. \<open>m_transport\<close> is one of the two transports of
    the program; writing through a null pointer is \<open>None\<close>.
  \<^item> The clock is an argument: each operation happens at one instant \<open>now\<close> in milliseconds.
    \<open>m_timeoutTimer\<close> holds the instant at which the single-shot timer fires, if it is armed.
  \<^item> Signals run their slots synchronously. The slots are parameters on the state \<open>'c \<times> tmgr\<close>, where
    \<open>'c\<close> is the rest of the program: \<open>w\<close> is what writing to the transport sets off (a broken
    socket reports its error there and then), \<open>h\<close> is the slot of \<open>responseReceived\<close> and \<open>f\<close> that of
    \<open>requestFailed\<close>. A slot may send, cancel, or fail (\<open>None\<close>).
  \<^item> \<open>events\<close> is the log of the signals emitted and frames written. Its entries \<open>RequestQueued\<close> and
    \<open>RequestsDropped\<close> are ghosts that mark calls of \<open>sendRequest\<close> and \<open>cancelAll\<close>.
  \<^item> The consuming loops are \<open>partial_function (option)\<close>; that they return is proved below, once for
    both, from the laws of \<open>stream_reader\<close>.
\<close>

section \<open>State\<close>

datatype ITransport = TcpTransport | SerialTransport

fun transportSupportsPipelining :: "ITransport \<Rightarrow> bool" where
  "transportSupportsPipelining TcpTransport = True"
| "transportSupportsPipelining SerialTransport = False"

datatype FramingMode = Tcp | Rtu

datatype QDeadlineTimer = Forever | At int

definition newDeadline :: "int \<Rightarrow> int \<Rightarrow> QDeadlineTimer" where
  "newDeadline now msecs = (if msecs < 0 then Forever else At (now + msecs))"

fun remainingTime :: "int \<Rightarrow> QDeadlineTimer \<Rightarrow> int" where
  "remainingTime now Forever = -1"
| "remainingTime now (At t) = max 0 (t - now)"

fun hasExpired :: "int \<Rightarrow> QDeadlineTimer \<Rightarrow> bool" where
  "hasExpired now Forever = False"
| "hasExpired now (At t) = (t \<le> now)"

record PendingRequest =
  transactionId :: u16
  pr_unitId :: u8
  requestPdu :: bytes
  correlationId :: u64
  attemptsSoFar :: int
  deadline :: QDeadlineTimer

datatype ManagerEvent =
    FrameSent bytes | FrameReceived bytes
  | ResponseReceived u64 bytes | RequestFailed u64 string
  | TransportWrite ITransport bytes
  | RequestQueued u64 | RequestsDropped "u64 list"

record tmgr =
  m_transport :: "ITransport option"
  m_framingMode :: FramingMode
  m_timeoutTimer :: "int option"
  m_timeoutMs :: int
  m_retryCount :: int
  m_nextTransactionId :: u16
  m_pending :: "PendingRequest list"
  m_receiveBuffer :: bytes
  events :: "ManagerEvent list"

type_synonym 'c world = "'c \<times> tmgr"
type_synonym 'c write_slot = "ITransport \<Rightarrow> bytes \<Rightarrow> 'c world \<Rightarrow> 'c world option"
type_synonym 'c response_slot = "u64 \<Rightarrow> bytes \<Rightarrow> 'c world \<Rightarrow> 'c world option"
type_synonym 'c failure_slot = "u64 \<Rightarrow> string \<Rightarrow> 'c world \<Rightarrow> 'c world option"

definition emitSignal :: "ManagerEvent \<Rightarrow> tmgr \<Rightarrow> tmgr" where
  "emitSignal e m = m\<lparr>events := events m @ [e]\<rparr>"

section \<open>Settings and queries\<close>

definition setTransport :: "ITransport option \<Rightarrow> tmgr \<Rightarrow> tmgr" where
  "setTransport transport m =
     (if m_transport m = transport then m
      else m\<lparr>m_transport := transport, m_receiveBuffer := []\<rparr>)"

definition newTransactionManager :: "ITransport option \<Rightarrow> tmgr" where
  "newTransactionManager transport =
     setTransport transport
       \<lparr>m_transport = None, m_framingMode = Tcp, m_timeoutTimer = None, m_timeoutMs = 1000,
        m_retryCount = 0, m_nextTransactionId = 0, m_pending = [], m_receiveBuffer = [],
        events = []\<rparr>"

definition setFramingMode :: "FramingMode \<Rightarrow> tmgr \<Rightarrow> tmgr" where
  "setFramingMode mode m = m\<lparr>m_framingMode := mode\<rparr>"

definition setTimeoutMs :: "int \<Rightarrow> tmgr \<Rightarrow> tmgr" where
  "setTimeoutMs timeoutMs m = m\<lparr>m_timeoutMs := timeoutMs\<rparr>"

definition setRetryCount :: "int \<Rightarrow> tmgr \<Rightarrow> tmgr" where
  "setRetryCount retryCount m = m\<lparr>m_retryCount := retryCount\<rparr>"

definition inFlightCount :: "tmgr \<Rightarrow> int" where
  "inFlightCount m = int (length (m_pending m))"

definition hasRequestInFlight :: "tmgr \<Rightarrow> bool" where
  "hasRequestInFlight m \<longleftrightarrow> m_pending m \<noteq> []"

definition supportsPipelining :: "tmgr \<Rightarrow> bool" where
  "supportsPipelining m =
     (case m_transport m of None \<Rightarrow> False | Some t \<Rightarrow> transportSupportsPipelining t)"

definition cancelAll :: "tmgr \<Rightarrow> tmgr" where
  "cancelAll m =
     emitSignal (RequestsDropped (map correlationId (m_pending m)))
       (m\<lparr>m_pending := [], m_receiveBuffer := [], m_timeoutTimer := None\<rparr>)"

section \<open>Sending\<close>

definition frameFor :: "tmgr \<Rightarrow> PendingRequest \<Rightarrow> bytes" where
  "frameFor m r =
     (case m_framingMode m of
        Tcp \<Rightarrow> encodeMbapFrame (transactionId r) (pr_unitId r) (requestPdu r)
      | Rtu \<Rightarrow> encodeRtuFrame (pr_unitId r) (requestPdu r))"

definition markAttempt :: "int \<Rightarrow> tmgr \<Rightarrow> PendingRequest \<Rightarrow> PendingRequest" where
  "markAttempt now m r =
     r\<lparr>attemptsSoFar := attemptsSoFar r + 1, deadline := newDeadline now (m_timeoutMs m)\<rparr>"

definition maxInt64 :: int where "maxInt64 = 9223372036854775807"
definition maxInt32 :: int where "maxInt32 = 2147483647"

definition qBound :: "int \<Rightarrow> int \<Rightarrow> int \<Rightarrow> int" where
  "qBound lo v hi = max lo (min hi v)"

definition soonestRemaining :: "int \<Rightarrow> PendingRequest list \<Rightarrow> int" where
  "soonestRemaining now rs =
     foldl (\<lambda>soonest r. min soonest (remainingTime now (deadline r))) maxInt64 rs"

definition rearmTimeoutTimer :: "int \<Rightarrow> tmgr \<Rightarrow> tmgr" where
  "rearmTimeoutTimer now m =
     (if m_pending m = [] then m\<lparr>m_timeoutTimer := None\<rparr>
      else m\<lparr>m_timeoutTimer :=
               Some (now + qBound 1 (soonestRemaining now (m_pending m)) maxInt32)\<rparr>)"

text \<open>\<open>emit frameSent(frame); m_transport->write(frame);\<close>\<close>

definition writeFrame :: "'c write_slot \<Rightarrow> bytes \<Rightarrow> 'c world \<Rightarrow> 'c world option" where
  "writeFrame w frame = (\<lambda>(c, m).
     let m = emitSignal (FrameSent frame) m
     in case m_transport m of
          None \<Rightarrow> None
        | Some t \<Rightarrow> w t frame (c, emitSignal (TransportWrite t frame) m))"

definition sendRequest ::
    "'c write_slot \<Rightarrow> int \<Rightarrow> u8 \<Rightarrow> bytes \<Rightarrow> u64 \<Rightarrow> 'c world \<Rightarrow> 'c world option" where
  "sendRequest w now uid pdu corr = (\<lambda>(c, m).
     let m = m\<lparr>m_nextTransactionId := m_nextTransactionId m + 1\<rparr>;
         request = markAttempt now m
           \<lparr>transactionId = m_nextTransactionId m, pr_unitId = uid, requestPdu = pdu,
            correlationId = corr, attemptsSoFar = 0, deadline = Forever\<rparr>;
         m = emitSignal (RequestQueued corr) (m\<lparr>m_pending := m_pending m @ [request]\<rparr>);
         m = rearmTimeoutTimer now m
     in writeFrame w (frameFor m request) (c, m))"

section \<open>Receiving\<close>

definition completeRequest ::
    "'c response_slot \<Rightarrow> int \<Rightarrow> int \<Rightarrow> bytes \<Rightarrow> 'c world \<Rightarrow> 'c world option" where
  "completeRequest h now pendingIndex responsePdu = (\<lambda>(c, m).
     case list_at (m_pending m) pendingIndex of
       None \<Rightarrow> None
     | Some r \<Rightarrow>
         let i = nat pendingIndex;
             m = m\<lparr>m_pending := take i (m_pending m) @ drop (Suc i) (m_pending m)\<rparr>;
             m = rearmTimeoutTimer now m
         in h (correlationId r) responsePdu
              (c, emitSignal (ResponseReceived (correlationId r) responsePdu) m))"

text \<open>The search loop of \<open>consumeTcpFrames\<close>: the first index with that transaction id, else -1.\<close>

fun matchIndexFrom :: "int \<Rightarrow> u16 \<Rightarrow> PendingRequest list \<Rightarrow> int" where
  "matchIndexFrom i tid [] = -1"
| "matchIndexFrom i tid (r # rs) = (if transactionId r = tid then i else matchIndexFrom (i + 1) tid rs)"

definition acceptTcpFrame ::
    "'c response_slot \<Rightarrow> int \<Rightarrow> bytes \<Rightarrow> DecodedMbapFrame \<Rightarrow> 'c world \<Rightarrow> 'c world option" where
  "acceptTcpFrame h now rawFrame d = (\<lambda>(c, m).
     let m = emitSignal (FrameReceived rawFrame) m;
         matchIndex = matchIndexFrom 0 (mb_transactionId d) (m_pending m)
     in if matchIndex < 0 then Some (c, m)
        else completeRequest h now matchIndex (mb_pdu d) (c, m))"

partial_function (option) consumeTcpFrames ::
    "'c response_slot \<Rightarrow> int \<Rightarrow> 'c world \<Rightarrow> 'c world option" where
  "consumeTcpFrames h now s =
     (if m_pending (snd s) = [] then Some s
      else case decodeMbapFrame (m_receiveBuffer (snd s)) of
             None \<Rightarrow> Some s
           | Some d \<Rightarrow>
               let buffer = m_receiveBuffer (snd s);
                   rawFrame = take (frameByteCount d) buffer;
                   s' = (fst s, (snd s)\<lparr>m_receiveBuffer := drop (frameByteCount d) buffer\<rparr>)
               in Option.bind (acceptTcpFrame h now rawFrame d s') (consumeTcpFrames h now))"

definition acceptRtuFrame ::
    "'c response_slot \<Rightarrow> int \<Rightarrow> bytes \<Rightarrow> 'c world \<Rightarrow> 'c world option" where
  "acceptRtuFrame h now frame = (\<lambda>(c, m).
     let m = emitSignal (FrameReceived frame) m
     in case decodeRtuFrame frame of
          None \<Rightarrow> Some (c, m)
        | Some d \<Rightarrow> completeRequest h now 0 (rtu_pdu d) (c, m))"

partial_function (option) consumeRtuFrames ::
    "'c response_slot \<Rightarrow> int \<Rightarrow> 'c world \<Rightarrow> 'c world option" where
  "consumeRtuFrames h now s =
     (if m_pending (snd s) = [] then Some s
      else
        let buffer = m_receiveBuffer (snd s);
            expectedLength = expectedRtuResponseLength buffer
        in if expectedLength = 0 \<or> length buffer < expectedLength then Some s
           else Option.bind
                  (acceptRtuFrame h now (take expectedLength buffer)
                     (fst s, (snd s)\<lparr>m_receiveBuffer := drop expectedLength buffer\<rparr>))
                  (consumeRtuFrames h now))"

definition handleDataReceived ::
    "'c response_slot \<Rightarrow> int \<Rightarrow> bytes \<Rightarrow> 'c world \<Rightarrow> 'c world option" where
  "handleDataReceived h now data = (\<lambda>(c, m).
     if m_pending m = [] then Some (c, m)
     else let s = (c, m\<lparr>m_receiveBuffer := m_receiveBuffer m @ data\<rparr>)
          in case m_framingMode m of
               Tcp \<Rightarrow> consumeTcpFrames h now s
             | Rtu \<Rightarrow> consumeRtuFrames h now s)"

text \<open>Only the connected transport reaches the slot.\<close>

definition dataArrives ::
    "'c response_slot \<Rightarrow> int \<Rightarrow> ITransport \<Rightarrow> bytes \<Rightarrow> 'c world \<Rightarrow> 'c world option" where
  "dataArrives h now t data s =
     (if m_transport (snd s) = Some t then handleDataReceived h now data s else Some s)"

section \<open>Timeouts\<close>

record timeout_scan =
  ts_mgr :: tmgr
  expiredAndExhausted :: "PendingRequest list"
  framesToRetransmit :: "bytes list"

text \<open>The body of the downward loop at index \<open>i\<close>, and the loop from \<open>size() - 1\<close> to zero. The index
  stays in range because only position \<open>i\<close> itself is removed.\<close>

definition timeoutStep :: "int \<Rightarrow> nat \<Rightarrow> timeout_scan \<Rightarrow> timeout_scan" where
  "timeoutStep now i s =
     (let m = ts_mgr s; r = m_pending m ! i
      in if \<not> hasExpired now (deadline r) then s
         else if attemptsSoFar r \<le> m_retryCount m then
           let r = markAttempt now m r
           in s\<lparr>ts_mgr := m\<lparr>m_pending := (m_pending m)[i := r]\<rparr>,
                framesToRetransmit := framesToRetransmit s @ [frameFor m r]\<rparr>
         else
           s\<lparr>ts_mgr := m\<lparr>m_pending := take i (m_pending m) @ drop (Suc i) (m_pending m)\<rparr>,
             expiredAndExhausted := expiredAndExhausted s @ [r]\<rparr>)"

primrec timeoutLoop :: "int \<Rightarrow> nat \<Rightarrow> timeout_scan \<Rightarrow> timeout_scan" where
  "timeoutLoop now 0 s = s"
| "timeoutLoop now (Suc i) s = timeoutLoop now i (timeoutStep now i s)"

fun retransmitAll :: "'c write_slot \<Rightarrow> bytes list \<Rightarrow> 'c world \<Rightarrow> 'c world option" where
  "retransmitAll w [] s = Some s"
| "retransmitAll w (frame # frames) s = Option.bind (writeFrame w frame s) (retransmitAll w frames)"

definition timeoutReason :: "int \<Rightarrow> string" where
  "timeoutReason attempts = ''request timed out after '' @ number attempts @ '' attempt(s)''"

fun failAll :: "'c failure_slot \<Rightarrow> PendingRequest list \<Rightarrow> 'c world \<Rightarrow> 'c world option" where
  "failAll f [] s = Some s"
| "failAll f (r # rs) s =
     Option.bind
       (f (correlationId r) (timeoutReason (attemptsSoFar r))
          (fst s, emitSignal (RequestFailed (correlationId r) (timeoutReason (attemptsSoFar r))) (snd s)))
       (failAll f rs)"

definition handleTimeout ::
    "'c write_slot \<Rightarrow> 'c failure_slot \<Rightarrow> int \<Rightarrow> 'c world \<Rightarrow> 'c world option" where
  "handleTimeout w f now = (\<lambda>(c, m).
     let scan = timeoutLoop now (length (m_pending m))
                  \<lparr>ts_mgr = m, expiredAndExhausted = [], framesToRetransmit = []\<rparr>;
         m = rearmTimeoutTimer now (ts_mgr scan)
     in Option.bind (retransmitAll w (framesToRetransmit scan) (c, m))
          (failAll f (expiredAndExhausted scan)))"

text \<open>The single-shot timer is inactive by the time its slot runs.\<close>

definition timerFires ::
    "'c write_slot \<Rightarrow> 'c failure_slot \<Rightarrow> int \<Rightarrow> 'c world \<Rightarrow> 'c world option" where
  "timerFires w f now = (\<lambda>(c, m). handleTimeout w f now (c, m\<lparr>m_timeoutTimer := None\<rparr>))"

section \<open>The receiving loops are stream readers\<close>

abbreviation rx :: "'c world \<Rightarrow> bytes" where
  "rx s \<equiv> m_receiveBuffer (snd s)"

definition setRxBuffer :: "bytes \<Rightarrow> 'c world \<Rightarrow> 'c world" where
  "setRxBuffer b s = (fst s, (snd s)\<lparr>m_receiveBuffer := b\<rparr>)"

definition nothingPending :: "'c world \<Rightarrow> bool" where
  "nothingPending s \<longleftrightarrow> m_pending (snd s) = []"

lemma setRxBuffer_simps [simp]:
  "rx (setRxBuffer b s) = b" "setRxBuffer b (setRxBuffer b' s) = setRxBuffer b s"
  "setRxBuffer (rx s) s = s" "nothingPending (setRxBuffer b s) = nothingPending s"
  by (simp_all add: setRxBuffer_def nothingPending_def)

lemma setRxBuffer_pair: "setRxBuffer b (c, m) = (c, m\<lparr>m_receiveBuffer := b\<rparr>)"
  by (simp add: setRxBuffer_def)

text \<open>The buffer is independent of everything else the manager does to its members.\<close>

lemma outside_buffer:
  "emitSignal e (m\<lparr>m_receiveBuffer := b\<rparr>) = (emitSignal e m)\<lparr>m_receiveBuffer := b\<rparr>"
  "m\<lparr>m_receiveBuffer := b, m_pending := ps\<rparr> = m\<lparr>m_pending := ps, m_receiveBuffer := b\<rparr>"
  "rearmTimeoutTimer now (m\<lparr>m_receiveBuffer := b\<rparr>) = (rearmTimeoutTimer now m)\<lparr>m_receiveBuffer := b\<rparr>"
  "m_pending (emitSignal e m) = m_pending m"
  by (cases m; simp add: emitSignal_def rearmTimeoutTimer_def)+

text \<open>A slot of \<open>responseReceived\<close> that neither looks at the receive buffer nor changes it.\<close>

definition buffer_transparent :: "'c response_slot \<Rightarrow> bool" where
  "buffer_transparent h \<longleftrightarrow>
     (\<forall>cid pdu b s. h cid pdu (setRxBuffer b s) = map_option (setRxBuffer b) (h cid pdu s))"

definition deliverTcp :: "'c response_slot \<Rightarrow> int \<Rightarrow> bytes \<Rightarrow> 'c world \<Rightarrow> 'c world option" where
  "deliverTcp h now frame s =
     (case decodeMbapFrame frame of None \<Rightarrow> Some s | Some d \<Rightarrow> acceptTcpFrame h now frame d s)"

definition hasLength :: "bytes \<Rightarrow> bool" where
  "hasLength frame \<longleftrightarrow> mbapLengthField frame \<noteq> 0"

lemma decodeMbapFrame_take:
  assumes n: "mbapFrameLength buf = Some n" and good: "hasLength (take n buf)"
  obtains d where "decodeMbapFrame buf = Some d" "decodeMbapFrame (take n buf) = Some d"
    "frameByteCount d = n"
proof -
  obtain d where d: "decodeMbapFrame buf = Some d" "frameByteCount d = n"
    using n by (auto simp: mbapFrameLength_def)
  have "7 \<le> length buf" using d(1) decodeMbapFrame_short by (metis not_less option.distinct(1))
  then obtain t q l u rest where buf: "buf = be16 t @ be16 q @ be16 l @ [u] @ rest"
    by (rule mbap_fields)
  have q: "q = 0" "unat l \<le> length rest + 1" and n6: "n = 6 + unat l"
    using d unfolding buf decodeMbapFrame_fields by (auto split: if_splits)
  have l: "0 < unat l"
    using good n6 by (auto simp: hasLength_def mbapLengthField_def mbapU16_join buf be16_def unat_gt_0)
  then obtain k where k: "unat l = Suc k" by (cases "unat l") auto
  have front: "take n buf = be16 t @ be16 q @ be16 l @ [u] @ take k rest"
    unfolding buf n6 k by (simp add: be16_def numeral_eq_Suc)
  then have "decodeMbapFrame (take n buf) \<noteq> None"
    unfolding front decodeMbapFrame_fields using q k by simp
  then obtain d' where d': "decodeMbapFrame (take n buf) = Some d'" by blast
  from decodeMbapFrame_stable [OF this, of "drop n buf"] good d(1)
  have "d = d'" by (simp add: hasLength_def)
  with d d' show thesis using that by simp
qed

locale response_client =
  fixes h :: "'c response_slot" and now :: int
  assumes transparent: "buffer_transparent h"
begin

lemma slot_setRx: "h cid pdu (setRxBuffer b s) = map_option (setRxBuffer b) (h cid pdu s)"
  using transparent unfolding buffer_transparent_def by blast

lemma completeRequest_setRx:
  "completeRequest h now i pdu (setRxBuffer b s) =
     map_option (setRxBuffer b) (completeRequest h now i pdu s)"
  by (cases s) (auto simp: completeRequest_def setRxBuffer_pair outside_buffer Let_def
      simp flip: slot_setRx split: option.splits)

lemma acceptTcp_setRx:
  "acceptTcpFrame h now f d (setRxBuffer b s) =
     map_option (setRxBuffer b) (acceptTcpFrame h now f d s)"
  by (cases s) (auto simp: acceptTcpFrame_def setRxBuffer_pair outside_buffer Let_def
      simp flip: completeRequest_setRx)

lemma acceptRtu_setRx:
  "acceptRtuFrame h now f (setRxBuffer b s) = map_option (setRxBuffer b) (acceptRtuFrame h now f s)"
  by (cases s) (auto simp: acceptRtuFrame_def setRxBuffer_pair outside_buffer Let_def
      simp flip: completeRequest_setRx split: option.splits)

end

sublocale response_client \<subseteq> tcp: stream_reader mbapFrameLength rx setRxBuffer nothingPending
  hasLength "deliverTcp h now" "consumeTcpFrames h now"
proof
  fix f b s n
  show "deliverTcp h now f (setRxBuffer b s) = map_option (setRxBuffer b) (deliverTcp h now f s)"
    by (simp add: deliverTcp_def acceptTcp_setRx split: option.splits)
  show "nothingPending s \<Longrightarrow> consumeTcpFrames h now s = Some s"
    by (subst consumeTcpFrames.simps) (simp add: nothingPending_def)
  show "consumeTcpFrames h now s = Some s" if "\<not> nothingPending s" "mbapFrameLength (rx s) = None"
    using that by (subst consumeTcpFrames.simps) (simp add: nothingPending_def mbapFrameLength_def)
  assume busy: "\<not> nothingPending s" and n: "mbapFrameLength (rx s) = Some n"
    and good: "hasLength (take n (rx s))"
  from decodeMbapFrame_take [OF n good] obtain d where d: "decodeMbapFrame (rx s) = Some d"
    "decodeMbapFrame (take n (rx s)) = Some d" "frameByteCount d = n" .
  then show "consumeTcpFrames h now s =
      Option.bind (deliverTcp h now (take n (rx s)) (setRxBuffer (drop n (rx s)) s))
        (consumeTcpFrames h now)"
    using busy by (subst consumeTcpFrames.simps)
      (simp add: nothingPending_def deliverTcp_def setRxBuffer_def Let_def)
qed simp_all

sublocale response_client \<subseteq> rtu: stream_reader rtuFrameLength rx setRxBuffer nothingPending
  "\<lambda>_. True" "acceptRtuFrame h now" "consumeRtuFrames h now"
proof
  fix f b s n
  show "acceptRtuFrame h now f (setRxBuffer b s) = map_option (setRxBuffer b) (acceptRtuFrame h now f s)"
    by (rule acceptRtu_setRx)
  show "nothingPending s \<Longrightarrow> consumeRtuFrames h now s = Some s"
    by (subst consumeRtuFrames.simps) (simp add: nothingPending_def)
  show "consumeRtuFrames h now s = Some s" if "\<not> nothingPending s" "rtuFrameLength (rx s) = None"
    using that by (subst consumeRtuFrames.simps)
      (auto simp: nothingPending_def rtuFrameLength_def Let_def split: if_splits)
  assume busy: "\<not> nothingPending s" and n: "rtuFrameLength (rx s) = Some n"
  then show "consumeRtuFrames h now s =
      Option.bind (acceptRtuFrame h now (take n (rx s)) (setRxBuffer (drop n (rx s)) s))
        (consumeRtuFrames h now)"
    by (subst consumeRtuFrames.simps)
      (auto simp: nothingPending_def rtuFrameLength_def setRxBuffer_def Let_def split: if_splits)
qed simp_all

section \<open>What one timeout does\<close>

definition exhausted :: "int \<Rightarrow> tmgr \<Rightarrow> PendingRequest \<Rightarrow> bool" where
  "exhausted now m r \<longleftrightarrow> hasExpired now (deadline r) \<and> m_retryCount m < attemptsSoFar r"

definition retried :: "int \<Rightarrow> tmgr \<Rightarrow> PendingRequest \<Rightarrow> bool" where
  "retried now m r \<longleftrightarrow> hasExpired now (deadline r) \<and> attemptsSoFar r \<le> m_retryCount m"

definition afterTimeout :: "int \<Rightarrow> tmgr \<Rightarrow> PendingRequest \<Rightarrow> PendingRequest" where
  "afterTimeout now m r = (if retried now m r then markAttempt now m r else r)"

lemma markAttempt_pending [simp]: "markAttempt now (m\<lparr>m_pending := ps\<rparr>) r = markAttempt now m r"
  by (simp add: markAttempt_def)

lemma frameFor_pending [simp]: "frameFor (m\<lparr>m_pending := ps\<rparr>) r = frameFor m r"
  by (simp add: frameFor_def)

lemma timeoutLoop_eq:
  "n \<le> length ps \<Longrightarrow>
   timeoutLoop now n \<lparr>ts_mgr = m\<lparr>m_pending := ps\<rparr>, expiredAndExhausted = es, framesToRetransmit = fs\<rparr> =
     \<lparr>ts_mgr = m\<lparr>m_pending := map (afterTimeout now m) (filter (\<lambda>r. \<not> exhausted now m r) (take n ps)) @ drop n ps\<rparr>,
      expiredAndExhausted = es @ rev (filter (exhausted now m) (take n ps)),
      framesToRetransmit = fs @ map (\<lambda>r. frameFor m (markAttempt now m r)) (rev (filter (retried now m) (take n ps)))\<rparr>"
proof (induction n arbitrary: ps es fs)
  case (Suc n)
  then have n: "n < length ps" by simp
  let ?r = "ps ! n"
  have split: "take (Suc n) ps = take n ps @ [?r]" using n by (simp add: take_Suc_conv_app_nth)
  have put: "ps[n := r'] = take n ps @ r' # drop (Suc n) ps" for r'
    using n by (simp add: upd_conv_take_nth_drop)
  have rest: "drop n ps = ?r # drop (Suc n) ps" using n by (simp add: Cons_nth_drop_Suc)
  have min: "min n (length ps) = n" using n by simp
  consider "\<not> hasExpired now (deadline ?r)" | "retried now m ?r" | "exhausted now m ?r"
    unfolding retried_def exhausted_def by linarith
  then show ?case
  proof cases
    case 1
    with Suc n show ?thesis
      by (simp add: timeoutStep_def Let_def split rest retried_def exhausted_def afterTimeout_def)
  next
    case 2
    then have "\<not> exhausted now m ?r" by (simp add: retried_def exhausted_def)
    with 2 Suc.IH [of "ps[n := markAttempt now m ?r]"] n show ?thesis
      by (simp add: timeoutStep_def Let_def split retried_def put min afterTimeout_def)
  next
    case 3
    then have "\<not> retried now m ?r" by (simp add: retried_def exhausted_def)
    with 3 Suc.IH [of "take n ps @ drop (Suc n) ps"] n show ?thesis
      by (simp add: timeoutStep_def Let_def split exhausted_def min)
  qed
qed simp

definition timeoutPending :: "int \<Rightarrow> tmgr \<Rightarrow> PendingRequest list" where
  "timeoutPending now m = map (afterTimeout now m) (filter (\<lambda>r. \<not> exhausted now m r) (m_pending m))"

lemma handleTimeout_eq:
  "handleTimeout w f now (c, m) =
     Option.bind
       (retransmitAll w
          (map (\<lambda>r. frameFor m (markAttempt now m r)) (rev (filter (retried now m) (m_pending m))))
          (c, rearmTimeoutTimer now (m\<lparr>m_pending := timeoutPending now m\<rparr>)))
       (failAll f (rev (filter (exhausted now m) (m_pending m))))"
  using timeoutLoop_eq [of "length (m_pending m)" "m_pending m" now m "[]" "[]"]
  by (simp add: handleTimeout_def timeoutPending_def)

section \<open>Invariant\<close>

fun queuedOf :: "ManagerEvent \<Rightarrow> u64 multiset" where
  "queuedOf (RequestQueued cid) = {#cid#}"
| "queuedOf _ = {#}"

text \<open>The ids a signal or a cancellation settles.\<close>

fun settledOf :: "ManagerEvent \<Rightarrow> u64 multiset" where
  "settledOf (ResponseReceived cid _) = {#cid#}"
| "settledOf (RequestFailed cid _) = {#cid#}"
| "settledOf (RequestsDropped cids) = mset cids"
| "settledOf _ = {#}"

definition idsOf :: "PendingRequest list \<Rightarrow> u64 multiset" where
  "idsOf rs = mset (map correlationId rs)"

text \<open>
  Every queued id is settled, still pending, or among the ids \<open>X\<close> that the running timeout handler
  has taken off the list and not reported yet.
\<close>

definition owes :: "u64 multiset \<Rightarrow> tmgr \<Rightarrow> bool" where
  "owes X m \<longleftrightarrow>
     (\<Sum>e\<leftarrow>events m. queuedOf e) = (\<Sum>e\<leftarrow>events m. settledOf e) + idsOf (m_pending m) + X"

text \<open>The timer runs exactly while something is pending, and never past a deadline by more than 1 ms.\<close>

definition timerOk :: "int \<Rightarrow> tmgr \<Rightarrow> bool" where
  "timerOk now m \<longleftrightarrow>
     (m_timeoutTimer m = None \<longleftrightarrow> m_pending m = []) \<and>
     (\<forall>r \<in> set (m_pending m). \<forall>t F. deadline r = At t \<longrightarrow> m_timeoutTimer m = Some F \<longrightarrow> F \<le> max (now + 1) t)"

definition sound :: "u64 multiset \<Rightarrow> int \<Rightarrow> tmgr \<Rightarrow> bool" where
  "sound X now m \<longleftrightarrow> owes X m \<and> timerOk now m \<and> (\<forall>r \<in> set (m_pending m). 1 \<le> attemptsSoFar r)"

lemma soonestRemaining_le:
  "r \<in> set rs \<Longrightarrow> soonestRemaining now rs \<le> remainingTime now (deadline r)"
  unfolding soonestRemaining_def by (induction rs rule: rev_induct) auto

lemma rearm_fields [simp]:
  "m_pending (rearmTimeoutTimer now m) = m_pending m"
  "events (rearmTimeoutTimer now m) = events m"
  "m_transport (rearmTimeoutTimer now m) = m_transport m"
  "m_framingMode (rearmTimeoutTimer now m) = m_framingMode m"
  "m_receiveBuffer (rearmTimeoutTimer now m) = m_receiveBuffer m"
  "m_retryCount (rearmTimeoutTimer now m) = m_retryCount m"
  "m_timeoutMs (rearmTimeoutTimer now m) = m_timeoutMs m"
  "m_nextTransactionId (rearmTimeoutTimer now m) = m_nextTransactionId m"
  by (simp_all add: rearmTimeoutTimer_def)

lemma emit_fields [simp]:
  "m_pending (emitSignal e m) = m_pending m"
  "events (emitSignal e m) = events m @ [e]"
  "m_transport (emitSignal e m) = m_transport m"
  "m_framingMode (emitSignal e m) = m_framingMode m"
  "m_timeoutTimer (emitSignal e m) = m_timeoutTimer m"
  "m_receiveBuffer (emitSignal e m) = m_receiveBuffer m"
  "m_retryCount (emitSignal e m) = m_retryCount m"
  "m_timeoutMs (emitSignal e m) = m_timeoutMs m"
  "m_nextTransactionId (emitSignal e m) = m_nextTransactionId m"
  by (simp_all add: emitSignal_def)

lemma rearm_timerOk: "timerOk now (rearmTimeoutTimer now m)"
proof -
  have "now + qBound 1 (soonestRemaining now (m_pending m)) maxInt32 \<le> max (now + 1) t"
    if "r \<in> set (m_pending m)" "deadline r = At t" for r t
    using soonestRemaining_le [OF that(1), of now] that(2) by (auto simp: qBound_def)
  then show ?thesis
    unfolding timerOk_def by (auto simp: rearmTimeoutTimer_def)
qed

lemma owes_emit:
  "owes X (emitSignal e m) \<longleftrightarrow>
     (\<Sum>e\<leftarrow>events m. queuedOf e) + queuedOf e =
       (\<Sum>e\<leftarrow>events m. settledOf e) + settledOf e + idsOf (m_pending m) + X"
  by (simp add: owes_def)

lemma idsOf_simps [simp]:
  "idsOf [] = {#}" "idsOf (r # rs) = add_mset (correlationId r) (idsOf rs)"
  "idsOf (rs @ rs') = idsOf rs + idsOf rs'"
  by (simp_all add: idsOf_def)

lemma timerOk_emit [simp]: "timerOk now (emitSignal e m) = timerOk now m"
  by (simp add: timerOk_def)

lemma sound_emit_neutral:
  "sound X now m \<Longrightarrow> queuedOf e = {#} \<Longrightarrow> settledOf e = {#} \<Longrightarrow> sound X now (emitSignal e m)"
  by (simp add: sound_def owes_emit) (simp add: owes_def)

lemma sound_later:
  assumes "sound X now m" and "now \<le> now'"
  shows "sound X now' m"
proof -
  have "F \<le> max (now + 1) t \<Longrightarrow> F \<le> max (now' + 1) t" for F t
    using assms(2) by linarith
  with assms(1) show ?thesis unfolding sound_def timerOk_def by blast
qed

lemma sound_cancelAll: "sound X now m \<Longrightarrow> sound X now (cancelAll m)"
  by (simp add: sound_def cancelAll_def owes_def timerOk_def idsOf_def)

lemma sound_setting:
  "sound X now m \<Longrightarrow> sound X now (setTransport t m)"
  "sound X now m \<Longrightarrow> sound X now (setFramingMode mode m)"
  "sound X now m \<Longrightarrow> sound X now (setTimeoutMs ms m)"
  "sound X now m \<Longrightarrow> sound X now (setRetryCount n m)"
  "sound X now m \<Longrightarrow> sound X now (m\<lparr>m_receiveBuffer := b\<rparr>)"
  by (simp_all add: sound_def setTransport_def setFramingMode_def setTimeoutMs_def
      setRetryCount_def owes_def timerOk_def)

text \<open>
  The client keeps a relation \<open>R P X\<close> between its own state and the ids it has in flight: those
  pending, \<open>P\<close>, and those taken off the list and not yet reported to it, \<open>X\<close>.
\<close>

type_synonym 'c client_relation = "u64 multiset \<Rightarrow> u64 multiset \<Rightarrow> 'c \<Rightarrow> bool"

definition agrees :: "'c client_relation \<Rightarrow> u64 multiset \<Rightarrow> int \<Rightarrow> 'c world \<Rightarrow> bool" where
  "agrees R X now s \<longleftrightarrow> sound X now (snd s) \<and> R (idsOf (m_pending (snd s))) X (fst s)"

definition keeps :: "'c client_relation \<Rightarrow> int \<Rightarrow> ('c world \<Rightarrow> 'c world option) \<Rightarrow> bool" where
  "keeps R now act \<longleftrightarrow> (\<forall>X s s'. agrees R X now s \<longrightarrow> act s = Some s' \<longrightarrow> agrees R X now s')"

text \<open>The action puts \<open>cid\<close> among the pending ids, where the client already counts it.\<close>

definition enters :: "'c client_relation \<Rightarrow> int \<Rightarrow> u64 \<Rightarrow> ('c world \<Rightarrow> 'c world option) \<Rightarrow> bool" where
  "enters R now cid act \<longleftrightarrow>
     (\<forall>X c m s'. sound X now m \<longrightarrow> R (add_mset cid (idsOf (m_pending m))) X c \<longrightarrow>
        act (c, m) = Some s' \<longrightarrow> agrees R X now s')"

text \<open>The action tells the client that \<open>cid\<close> is settled; before it the client still counts it.\<close>

definition absorbs :: "'c client_relation \<Rightarrow> int \<Rightarrow> u64 \<Rightarrow> ('c world \<Rightarrow> 'c world option) \<Rightarrow> bool" where
  "absorbs R now cid act \<longleftrightarrow>
     (\<forall>X c m s'. sound X now m \<longrightarrow> R (idsOf (m_pending m)) (add_mset cid X) c \<longrightarrow>
        act (c, m) = Some s' \<longrightarrow> agrees R X now s')"

lemma agrees_pair: "agrees R X now (c, m) \<longleftrightarrow> sound X now m \<and> R (idsOf (m_pending m)) X c"
  by (simp add: agrees_def)

lemma keepsD: "keeps R now act \<Longrightarrow> agrees R X now s \<Longrightarrow> act s = Some s' \<Longrightarrow> agrees R X now s'"
  unfolding keeps_def by blast

lemma keepsI:
  "(\<And>X c m s'. agrees R X now (c, m) \<Longrightarrow> act (c, m) = Some s' \<Longrightarrow> agrees R X now s') \<Longrightarrow> keeps R now act"
  unfolding keeps_def by (metis prod.collapse)

lemma entersD:
  "enters R now cid act \<Longrightarrow> sound X now m \<Longrightarrow> R (add_mset cid (idsOf (m_pending m))) X c \<Longrightarrow>
   act (c, m) = Some s' \<Longrightarrow> agrees R X now s'"
  unfolding enters_def by blast

lemma absorbsD:
  "absorbs R now cid act \<Longrightarrow> sound X now m \<Longrightarrow> R (idsOf (m_pending m)) (add_mset cid X) c \<Longrightarrow>
   act (c, m) = Some s' \<Longrightarrow> agrees R X now s'"
  unfolding absorbs_def by blast

lemma agrees_later: "agrees R X now s \<Longrightarrow> now \<le> now' \<Longrightarrow> agrees R X now' s"
  using sound_later by (auto simp: agrees_def)

lemma agrees_emit_neutral:
  "agrees R X now (c, m) \<Longrightarrow> queuedOf e = {#} \<Longrightarrow> settledOf e = {#} \<Longrightarrow> agrees R X now (c, emitSignal e m)"
  by (simp add: agrees_def sound_emit_neutral)

lemma agrees_setting:
  "agrees R X now (c, m) \<Longrightarrow> agrees R X now (c, setTransport t m)"
  "agrees R X now (c, m) \<Longrightarrow> agrees R X now (c, setFramingMode mode m)"
  "agrees R X now (c, m) \<Longrightarrow> agrees R X now (c, setTimeoutMs ms m)"
  "agrees R X now (c, m) \<Longrightarrow> agrees R X now (c, setRetryCount n m)"
  "agrees R X now (c, m) \<Longrightarrow> agrees R X now (c, m\<lparr>m_receiveBuffer := b\<rparr>)"
  by (simp_all add: agrees_def sound_setting)
    (simp_all add: setTransport_def setFramingMode_def setTimeoutMs_def setRetryCount_def)

locale client_slots =
  fixes R :: "'c client_relation"
    and w :: "'c write_slot" and h :: "'c response_slot" and f :: "'c failure_slot" and now :: int
  assumes R_taken: "R (add_mset cid P) X c \<Longrightarrow> R P (add_mset cid X) c"
    and w_keeps: "keeps R now (w t frame)"
    and h_absorbs: "absorbs R now cid (h cid pdu)"
    and f_absorbs: "absorbs R now cid (f cid reason)"
begin

lemma R_taken_all: "R (P + idsOf rs) X c \<Longrightarrow> R P (idsOf rs + X) c"
proof (induction rs arbitrary: X)
  case (Cons r rs)
  then have "R (P + idsOf rs) (add_mset (correlationId r) X) c" by (intro R_taken) simp
  then show ?case using Cons.IH by fastforce
qed simp

lemma writeFrame_keeps: "keeps R now (writeFrame w frame)"
proof (rule keepsI)
  fix X c m s' assume s: "agrees R X now (c, m)" and w: "writeFrame w frame (c, m) = Some s'"
  then obtain t where "w t frame (c, emitSignal (TransportWrite t frame) (emitSignal (FrameSent frame) m)) = Some s'"
    by (auto simp: writeFrame_def Let_def split: option.splits)
  then show "agrees R X now s'"
    by (rule keepsD [OF w_keeps, rotated]) (simp add: s agrees_emit_neutral)
qed

lemma sendRequest_enters: "enters R now cid (sendRequest w now uid pdu cid)"
  unfolding enters_def
proof (intro allI impI)
  fix X c m s' assume s: "sound X now m" and R: "R (add_mset cid (idsOf (m_pending m))) X c"
    and send: "sendRequest w now uid pdu cid (c, m) = Some s'"
  define r where "r = markAttempt now m
     \<lparr>transactionId = m_nextTransactionId m + 1, pr_unitId = uid, requestPdu = pdu,
      correlationId = cid, attemptsSoFar = 0, deadline = Forever\<rparr>"
  define m1 where "m1 = rearmTimeoutTimer now (emitSignal (RequestQueued cid)
      (m\<lparr>m_nextTransactionId := m_nextTransactionId m + 1, m_pending := m_pending m @ [r]\<rparr>))"
  have r: "correlationId r = cid" "attemptsSoFar r = 1" by (simp_all add: r_def markAttempt_def)
  have "markAttempt now (m\<lparr>m_nextTransactionId := n\<rparr>) q = markAttempt now m q" for n q
    by (simp add: markAttempt_def)
  then have sent: "writeFrame w (frameFor m1 r) (c, m1) = Some s'"
    using send by (simp add: sendRequest_def Let_def m1_def r_def)
  have "owes X m1"
    using s r by (simp add: sound_def owes_def m1_def)
  moreover have "timerOk now m1" unfolding m1_def by (rule rearm_timerOk)
  moreover have "\<forall>q \<in> set (m_pending m1). 1 \<le> attemptsSoFar q"
    using s r by (auto simp: sound_def m1_def)
  ultimately have "agrees R X now (c, m1)" using R r by (simp add: agrees_def sound_def m1_def)
  then show "agrees R X now s'" by (rule keepsD [OF writeFrame_keeps _ sent])
qed

lemma completeRequest_keeps: "keeps R now (completeRequest h now i pdu)"
proof (rule keepsI)
  fix X c m s' assume s: "agrees R X now (c, m)" and compl: "completeRequest h now i pdu (c, m) = Some s'"
  then obtain r where r: "list_at (m_pending m) i = Some r"
    by (auto simp: completeRequest_def split: option.splits)
  let ?ps = "take (nat i) (m_pending m) @ drop (Suc (nat i)) (m_pending m)"
  define m1 where "m1 = emitSignal (ResponseReceived (correlationId r) pdu)
      (rearmTimeoutTimer now (m\<lparr>m_pending := ?ps\<rparr>))"
  have "nat i < length (m_pending m)" "m_pending m ! nat i = r"
    using r by (auto simp: list_at_eq_Some)
  then have split: "m_pending m = take (nat i) (m_pending m) @ r # drop (Suc (nat i)) (m_pending m)"
    using id_take_nth_drop by blast
  have ids: "idsOf (m_pending m) = add_mset (correlationId r) (idsOf ?ps)"
    by (subst split) simp
  then have "owes X m1" using s by (simp add: agrees_def sound_def owes_def m1_def)
  moreover have "timerOk now m1" by (simp add: m1_def rearm_timerOk)
  moreover have "\<forall>q \<in> set (m_pending m1). 1 \<le> attemptsSoFar q"
    using s by (auto simp: agrees_def sound_def m1_def dest: in_set_takeD in_set_dropD)
  ultimately have "sound X now m1" by (simp add: sound_def)
  moreover have "R (idsOf (m_pending m1)) (add_mset (correlationId r) X) c"
    using s ids by (intro R_taken) (simp add: agrees_def m1_def)
  moreover have "h (correlationId r) pdu (c, m1) = Some s'"
    using compl r by (simp add: completeRequest_def m1_def Let_def)
  ultimately show "agrees R X now s'" by (rule absorbsD [OF h_absorbs])
qed

lemma acceptTcpFrame_keeps: "keeps R now (acceptTcpFrame h now frame d)"
proof (rule keepsI)
  fix X c m s' assume s: "agrees R X now (c, m)" and step: "acceptTcpFrame h now frame d (c, m) = Some s'"
  have m1: "agrees R X now (c, emitSignal (FrameReceived frame) m)" using s by (simp add: agrees_emit_neutral)
  show "agrees R X now s'"
    using step m1 keepsD [OF completeRequest_keeps m1]
    by (auto simp: acceptTcpFrame_def Let_def split: if_splits)
qed

lemma acceptRtuFrame_keeps: "keeps R now (acceptRtuFrame h now frame)"
proof (rule keepsI)
  fix X c m s' assume s: "agrees R X now (c, m)" and step: "acceptRtuFrame h now frame (c, m) = Some s'"
  have m1: "agrees R X now (c, emitSignal (FrameReceived frame) m)" using s by (simp add: agrees_emit_neutral)
  show "agrees R X now s'"
    using step m1 keepsD [OF completeRequest_keeps m1]
    by (auto simp: acceptRtuFrame_def Let_def split: option.splits)
qed

lemma setRx_keeps: "agrees R X now s \<Longrightarrow> agrees R X now (fst s, (snd s)\<lparr>m_receiveBuffer := b\<rparr>)"
  by (cases s) (simp add: agrees_setting)

lemma consumeTcpFrames_keeps: "keeps R now (consumeTcpFrames h now)"
proof (rule keepsI)
  fix X c m s' assume "agrees R X now (c, m)" and "consumeTcpFrames h now (c, m) = Some s'"
  moreover have "hh = h \<longrightarrow> n = now \<longrightarrow> agrees R X now s \<longrightarrow> agrees R X now t"
    if "consumeTcpFrames hh n s = Some t" for hh :: "'c response_slot" and n s t
  proof (rule consumeTcpFrames.raw_induct
      [where P = "\<lambda>hh n s t. hh = h \<longrightarrow> n = now \<longrightarrow> agrees R X now s \<longrightarrow> agrees R X now t", OF _ that])
    fix loop and hh :: "'c response_slot" and n s t
    assume IH: "\<And>hh n s t. loop hh n s = Some t \<Longrightarrow>
        hh = h \<longrightarrow> n = now \<longrightarrow> agrees R X now s \<longrightarrow> agrees R X now (t :: 'c world)"
      and step: "(if m_pending (snd s) = [] then Some s
        else case decodeMbapFrame (rx s) of None \<Rightarrow> Some s
          | Some d \<Rightarrow> let buffer = rx s; rawFrame = take (frameByteCount d) buffer;
              s' = (fst s, (snd s)\<lparr>m_receiveBuffer := drop (frameByteCount d) buffer\<rparr>)
              in Option.bind (acceptTcpFrame hh n rawFrame d s') (loop hh n)) = Some t"
    show "hh = h \<longrightarrow> n = now \<longrightarrow> agrees R X now s \<longrightarrow> agrees R X now t"
    proof (intro impI)
      assume "hh = h" "n = now" and s: "agrees R X now s"
      with step consider "t = s"
        | d s1 where "acceptTcpFrame h now (take (frameByteCount d) (rx s)) d
              (fst s, (snd s)\<lparr>m_receiveBuffer := drop (frameByteCount d) (rx s)\<rparr>) = Some s1"
            "loop h now s1 = Some t"
        by (auto simp: Let_def split: if_splits option.splits bind_splits)
      then show "agrees R X now t"
      proof cases
        case 2
        from keepsD [OF acceptTcpFrame_keeps setRx_keeps [OF s] 2(1)] IH [OF 2(2)] show ?thesis by simp
      qed (simp add: s)
    qed
  qed
  ultimately show "agrees R X now s'" by blast
qed

lemma consumeRtuFrames_keeps: "keeps R now (consumeRtuFrames h now)"
proof (rule keepsI)
  fix X c m s' assume "agrees R X now (c, m)" and "consumeRtuFrames h now (c, m) = Some s'"
  moreover have "hh = h \<longrightarrow> n = now \<longrightarrow> agrees R X now s \<longrightarrow> agrees R X now t"
    if "consumeRtuFrames hh n s = Some t" for hh :: "'c response_slot" and n s t
  proof (rule consumeRtuFrames.raw_induct
      [where P = "\<lambda>hh n s t. hh = h \<longrightarrow> n = now \<longrightarrow> agrees R X now s \<longrightarrow> agrees R X now t", OF _ that])
    fix loop and hh :: "'c response_slot" and n s t
    assume IH: "\<And>hh n s t. loop hh n s = Some t \<Longrightarrow>
        hh = h \<longrightarrow> n = now \<longrightarrow> agrees R X now s \<longrightarrow> agrees R X now (t :: 'c world)"
      and step: "(if m_pending (snd s) = [] then Some s
        else let buffer = rx s; expectedLength = expectedRtuResponseLength buffer
          in if expectedLength = 0 \<or> length buffer < expectedLength then Some s
             else Option.bind (acceptRtuFrame hh n (take expectedLength buffer)
                 (fst s, (snd s)\<lparr>m_receiveBuffer := drop expectedLength buffer\<rparr>)) (loop hh n)) = Some t"
    show "hh = h \<longrightarrow> n = now \<longrightarrow> agrees R X now s \<longrightarrow> agrees R X now t"
    proof (intro impI)
      assume "hh = h" "n = now" and s: "agrees R X now s"
      with step consider "t = s"
        | k s1 where "acceptRtuFrame h now (take k (rx s))
              (fst s, (snd s)\<lparr>m_receiveBuffer := drop k (rx s)\<rparr>) = Some s1" "loop h now s1 = Some t"
        by (auto simp: Let_def split: if_splits bind_splits)
      then show "agrees R X now t"
      proof cases
        case 2
        from keepsD [OF acceptRtuFrame_keeps setRx_keeps [OF s] 2(1)] IH [OF 2(2)] show ?thesis by simp
      qed (simp add: s)
    qed
  qed
  ultimately show "agrees R X now s'" by blast
qed

lemma handleDataReceived_keeps: "keeps R now (handleDataReceived h now data)"
proof (rule keepsI)
  fix X c m s' assume s: "agrees R X now (c, m)" and step: "handleDataReceived h now data (c, m) = Some s'"
  define s1 where "s1 = (c, m\<lparr>m_receiveBuffer := m_receiveBuffer m @ data\<rparr>)"
  have "agrees R X now s1" using s by (simp add: s1_def agrees_setting)
  moreover have "s' = (c, m) \<or> consumeTcpFrames h now s1 = Some s' \<or> consumeRtuFrames h now s1 = Some s'"
    using step by (auto simp: handleDataReceived_def s1_def Let_def split: if_splits FramingMode.splits)
  ultimately show "agrees R X now s'"
    using s keepsD [OF consumeTcpFrames_keeps] keepsD [OF consumeRtuFrames_keeps] by blast
qed

lemma dataArrives_keeps: "keeps R now (dataArrives h now t data)"
  using handleDataReceived_keeps [of data] by (auto simp: keeps_def dataArrives_def)

lemma retransmitAll_keeps:
  "agrees R X now s \<Longrightarrow> retransmitAll w frames s = Some s' \<Longrightarrow> agrees R X now s'"
proof (induction frames arbitrary: s)
  case (Cons frame frames)
  from Cons.prems(2) obtain s1 where s1: "writeFrame w frame s = Some s1" "retransmitAll w frames s1 = Some s'"
    by (auto split: bind_splits)
  from keepsD [OF writeFrame_keeps Cons.prems(1) s1(1)] s1(2) show ?case by (rule Cons.IH)
qed simp

text \<open>While failures are reported, the remaining ids are owed.\<close>

lemma failAll_keeps:
  "agrees R (idsOf rs + X) now s \<Longrightarrow> failAll f rs s = Some s' \<Longrightarrow> agrees R X now s'"
proof (induction rs arbitrary: s)
  case (Cons r rs)
  let ?m = "emitSignal (RequestFailed (correlationId r) (timeoutReason (attemptsSoFar r))) (snd s)"
  obtain s1 where s1: "f (correlationId r) (timeoutReason (attemptsSoFar r)) (fst s, ?m) = Some s1"
    and rest: "failAll f rs s1 = Some s'"
    using Cons.prems(2) by (auto split: bind_splits)
  have "sound (idsOf rs + X) now ?m"
    using Cons.prems(1) by (simp add: agrees_def sound_def owes_emit) (simp add: owes_def)
  moreover have "R (idsOf (m_pending ?m)) (add_mset (correlationId r) (idsOf rs + X)) (fst s)"
    using Cons.prems(1) by (simp add: agrees_def)
  ultimately have "agrees R (idsOf rs + X) now s1" using s1 by (rule absorbsD [OF f_absorbs])
  then show ?case using Cons.IH rest by blast
qed simp

lemma timeout_ids:
  "idsOf rs = idsOf (map (afterTimeout now m) (filter (\<lambda>r. \<not> exhausted now m r) rs)) +
              idsOf (rev (filter (exhausted now m) rs))"
  by (induction rs) (auto simp: afterTimeout_def markAttempt_def idsOf_def)

lemma handleTimeout_keeps: "keeps R now (handleTimeout w f now)"
proof (rule keepsI)
  fix X c m s' assume s: "agrees R X now (c, m)" and step: "handleTimeout w f now (c, m) = Some s'"
  let ?gone = "rev (filter (exhausted now m) (m_pending m))"
  define m1 where "m1 = rearmTimeoutTimer now (m\<lparr>m_pending := timeoutPending now m\<rparr>)"
  obtain fs s1 where s1: "retransmitAll w fs (c, m1) = Some s1" "failAll f ?gone s1 = Some s'"
    using step by (auto simp: handleTimeout_eq m1_def split: bind_splits)
  have ids: "idsOf (m_pending m) = idsOf (m_pending m1) + idsOf ?gone"
    using timeout_ids [of "m_pending m" m] by (simp add: m1_def timeoutPending_def)
  have "owes (idsOf ?gone + X) m1"
    using s ids by (simp add: agrees_def sound_def owes_def m1_def ac_simps)
  moreover have "\<forall>q \<in> set (m_pending m1). 1 \<le> attemptsSoFar q"
    using s by (auto simp: m1_def timeoutPending_def afterTimeout_def markAttempt_def agrees_def sound_def)
  ultimately have "sound (idsOf ?gone + X) now m1" by (simp add: sound_def m1_def rearm_timerOk)
  moreover have "R (idsOf (m_pending m1)) (idsOf ?gone + X) c"
    using s ids by (intro R_taken_all) (simp add: agrees_def)
  ultimately have "agrees R (idsOf ?gone + X) now (c, m1)" by (simp add: agrees_def)
  then show "agrees R X now s'" using retransmitAll_keeps [OF _ s1(1)] failAll_keeps s1(2) by blast
qed

text \<open>The timer slot runs with the timer already inactive; it arms it again in either case.\<close>

lemma timerFires_keeps: "keeps R now (timerFires w f now)"
proof (rule keepsI)
  fix X c m s' assume s: "agrees R X now (c, m)" and step: "timerFires w f now (c, m) = Some s'"
  let ?m = "m\<lparr>m_timeoutTimer := None\<rparr>"
  have fs: "exhausted now ?m = exhausted now m" "retried now ?m = retried now m"
    "frameFor ?m = frameFor m" "markAttempt now ?m = markAttempt now m"
    by (simp_all add: exhausted_def retried_def markAttempt_def frameFor_def fun_eq_iff)
  then have "afterTimeout now ?m = afterTimeout now m" by (simp add: afterTimeout_def fun_eq_iff)
  with fs have same: "timeoutPending now ?m = timeoutPending now m" by (simp add: timeoutPending_def)
  have "rearmTimeoutTimer now (?m\<lparr>m_pending := ps\<rparr>) = rearmTimeoutTimer now (m\<lparr>m_pending := ps\<rparr>)" for ps
    by (simp add: rearmTimeoutTimer_def)
  then have "handleTimeout w f now (c, ?m) = handleTimeout w f now (c, m)"
    by (simp add: handleTimeout_eq same fs)
  then show "agrees R X now s'"
    using step keepsD [OF handleTimeout_keeps s] by (simp add: timerFires_def)
qed

end

section \<open>Runs of the manager\<close>

text \<open>
  Everything that can happen to the manager, with a clock that never goes back. The slots may depend
  on the instant at which they run.
\<close>

inductive manager_step ::
    "(int \<Rightarrow> 'c write_slot) \<Rightarrow> (int \<Rightarrow> 'c response_slot) \<Rightarrow> (int \<Rightarrow> 'c failure_slot) \<Rightarrow>
     int \<times> 'c world \<Rightarrow> int \<times> 'c world \<Rightarrow> bool"
  for w h f where
  clock: "now \<le> now' \<Longrightarrow> manager_step w h f (now, s) (now', s)"
| send: "sendRequest (w now) now uid pdu cid s = Some s' \<Longrightarrow> manager_step w h f (now, s) (now, s')"
| data: "dataArrives (h now) now t bytes s = Some s' \<Longrightarrow> manager_step w h f (now, s) (now, s')"
| timer: "m_timeoutTimer (snd s) = Some F \<Longrightarrow> F \<le> now \<Longrightarrow>
    timerFires (w now) (f now) now s = Some s' \<Longrightarrow> manager_step w h f (now, s) (now, s')"
| cancel: "manager_step w h f (now, (c, m)) (now, (c, cancelAll m))"
| transport: "manager_step w h f (now, (c, m)) (now, (c, setTransport t m))"
| framing: "manager_step w h f (now, (c, m)) (now, (c, setFramingMode mode m))"
| timeout: "manager_step w h f (now, (c, m)) (now, (c, setTimeoutMs ms m))"
| retries: "manager_step w h f (now, (c, m)) (now, (c, setRetryCount n m))"

definition slotsSound ::
    "(int \<Rightarrow> 'c write_slot) \<Rightarrow> (int \<Rightarrow> 'c response_slot) \<Rightarrow> (int \<Rightarrow> 'c failure_slot) \<Rightarrow> bool" where
  "slotsSound w h f \<longleftrightarrow> (\<forall>now. client_slots (\<lambda>_ _ _. True) (w now) (h now) (f now) now)"

lemma manager_step_sound:
  assumes "slotsSound w h f" and "manager_step w h f (now, s) (now', s')" and "sound {#} now (snd s)"
  shows "sound {#} now' (snd s')"
proof -
  let ?T = "\<lambda>_ _ _. True"
  note slots = assms(1) [unfolded slotsSound_def, rule_format]
  have s: "agrees ?T {#} now s" using assms(3) by (simp add: agrees_def)
  from assms(2) have "agrees ?T {#} now' s'"
  proof cases
    case clock
    then show ?thesis using s agrees_later by blast
  next
    case (send uid pdu cid)
    then show ?thesis using entersD [OF client_slots.sendRequest_enters [OF slots], of "{#}" now "snd s"] s
      by (cases s) (simp add: agrees_def)
  next
    case (data t bytes)
    then show ?thesis using keepsD [OF client_slots.dataArrives_keeps [OF slots] s] by blast
  next
    case (timer F)
    then show ?thesis using keepsD [OF client_slots.timerFires_keeps [OF slots] s] by blast
  qed (use s in \<open>simp_all add: agrees_pair sound_setting sound_cancelAll\<close>)
  then show ?thesis by (simp add: agrees_def)
qed

lemma newTransactionManager_sound: "sound {#} now (newTransactionManager t)"
  by (simp add: sound_def newTransactionManager_def setTransport_def owes_def timerOk_def)

definition quietWrite :: "int \<Rightarrow> 'c write_slot" where "quietWrite now t frame s = Some s"
definition quietResponse :: "int \<Rightarrow> 'c response_slot" where "quietResponse now cid pdu s = Some s"
definition quietFailure :: "int \<Rightarrow> 'c failure_slot" where "quietFailure now cid reason s = Some s"

lemmas quiet_defs = quietWrite_def quietResponse_def quietFailure_def

lemma quiet_slots: "slotsSound quietWrite quietResponse quietFailure"
  by (simp add: slotsSound_def client_slots_def keeps_def absorbs_def agrees_def quiet_defs)

lemma quiet_transparent: "buffer_transparent (quietResponse now)"
  by (simp add: buffer_transparent_def quiet_defs)

text \<open>C1: in every run of the manager, whatever its slots do with it as long as they use its operations,
  each queued request is accounted for exactly once: it is still pending, was answered, was
  reported as failed, or was dropped by a cancellation; the timer runs exactly while something is
  pending and never past the earliest deadline by more than the 1 ms floor.\<close>

theorem every_request_settled_once:
  assumes "slotsSound w h f"
    and "(manager_step w h f)\<^sup>*\<^sup>* (0, (c, newTransactionManager t)) (now, s)"
  shows "sound {#} now (snd s)"
proof -
  have "sound {#} (fst y) (snd (snd y))"
    if "(manager_step w h f)\<^sup>*\<^sup>* (0, (c, newTransactionManager t)) y" for y
    using that
  proof (induction rule: rtranclp_induct)
    case base
    show ?case by (simp add: newTransactionManager_sound)
  next
    case (step y z)
    then show ?case using manager_step_sound [OF assms(1), of "fst y" "snd y" "fst z" "snd z"] by simp
  qed
  from this [OF assms(2)] show ?thesis by simp
qed

theorem every_request_settled_once_witness:
  "\<exists>s'. sendRequest (quietWrite 0) 0 1 [3, 0, 0, 0, 1] 7 ((), newTransactionManager (Some TcpTransport)) = Some s' \<and>
        sound {#} 0 (snd s')"
proof -
  let ?s = "((), newTransactionManager (Some TcpTransport))"
  obtain s' where s': "sendRequest (quietWrite 0) 0 1 [3, 0, 0, 0, 1] 7 ?s = Some s'"
    by (simp add: sendRequest_def writeFrame_def quiet_defs newTransactionManager_def setTransport_def Let_def)
  have "manager_step quietWrite quietResponse quietFailure (0, ?s) (0, s')"
    by (rule manager_step.send) (rule s')
  then have "(manager_step quietWrite quietResponse quietFailure)\<^sup>*\<^sup>* (0, ?s) (0, s')" by blast
  from every_request_settled_once [OF quiet_slots this] s' show ?thesis by blast
qed

text \<open>C17: a timeout touches exactly the expired requests: each one with attempts left keeps its place,
  is counted once more, gets a fresh deadline and its own frame (same transaction id) is sent again;
  each one without is removed and reported as failed, after every retransmission; the timer is
  armed again for what is left before anything is written or reported.\<close>

theorem timeout_exact:
  "handleTimeout w f now (c, m) =
     Option.bind
       (retransmitAll w
          (map (\<lambda>r. frameFor m (markAttempt now m r)) (rev (filter (retried now m) (m_pending m))))
          (c, rearmTimeoutTimer now (m\<lparr>m_pending := timeoutPending now m\<rparr>)))
       (failAll f (rev (filter (exhausted now m) (m_pending m))))"
  by (rule handleTimeout_eq)

section \<open>A device that never answers\<close>

text \<open>The timer fires \<open>n\<close> times, each time at the instant it was armed for, and nothing else happens.\<close>

primrec silentRun :: "nat \<Rightarrow> tmgr \<Rightarrow> tmgr option" where
  "silentRun 0 m = Some m"
| "silentRun (Suc n) m =
     (case m_timeoutTimer m of
        None \<Rightarrow> None
      | Some F \<Rightarrow> Option.bind (timerFires (quietWrite F) (quietFailure F) F ((), m)) (\<lambda>s. silentRun n (snd s)))"

lemma silent_retry:
  assumes "m_pending m = [r]" "deadline r = At D" "attemptsSoFar r \<le> m_retryCount m"
    and "m_transport m = Some t" "0 < m_timeoutMs m" "m_timeoutMs m \<le> maxInt32"
  shows "timerFires (quietWrite D) (quietFailure D) D ((), m) =
    Some ((), m\<lparr>m_pending := [markAttempt D m r], m_timeoutTimer := Some (D + m_timeoutMs m),
      events := events m @ [FrameSent (frameFor m r), TransportWrite t (frameFor m r)]\<rparr>)"
proof -
  have "retried D m r" "\<not> exhausted D m r" using assms by (simp_all add: retried_def exhausted_def)
  moreover have "frameFor m (markAttempt D m r) = frameFor m r" for m
    by (simp add: frameFor_def markAttempt_def split: FramingMode.splits)
  moreover have "qBound 1 (soonestRemaining D [markAttempt D m r]) maxInt32 = m_timeoutMs m"
    using assms by (auto simp: qBound_def soonestRemaining_def markAttempt_def newDeadline_def
        maxInt64_def maxInt32_def)
  ultimately show ?thesis
    using assms by (simp add: timerFires_def handleTimeout_eq timeoutPending_def afterTimeout_def
        retried_def exhausted_def markAttempt_def frameFor_def
        writeFrame_def quiet_defs rearmTimeoutTimer_def emitSignal_def split: FramingMode.splits)
qed

lemma silent_failure:
  assumes "m_pending m = [r]" "deadline r = At D" "m_retryCount m < attemptsSoFar r"
  shows "timerFires (quietWrite D) (quietFailure D) D ((), m) =
    Some ((), m\<lparr>m_pending := [], m_timeoutTimer := None,
      events := events m @ [RequestFailed (correlationId r) (timeoutReason (attemptsSoFar r))]\<rparr>)"
  using assms by (simp add: timerFires_def handleTimeout_eq timeoutPending_def retried_def exhausted_def
      quiet_defs rearmTimeoutTimer_def emitSignal_def)

lemma silentRun_eq:
  assumes "m_pending m = [r]" "deadline r = At D" "m_timeoutTimer m = Some D"
    and "attemptsSoFar r + int k = m_retryCount m + 1"
    and "m_transport m = Some t" "0 < m_timeoutMs m" "m_timeoutMs m \<le> maxInt32"
  shows "silentRun (Suc k) m = Some (m\<lparr>m_pending := [], m_timeoutTimer := None,
      events := events m @ concat (replicate k [FrameSent (frameFor m r), TransportWrite t (frameFor m r)])
        @ [RequestFailed (correlationId r) (timeoutReason (m_retryCount m + 1))]\<rparr>)"
  using assms
proof (induction k arbitrary: m r D)
  case 0
  then show ?case using silent_failure [of m r D] by simp
next
  case (Suc k)
  let ?e = "[FrameSent (frameFor m r), TransportWrite t (frameFor m r)]"
  let ?m = "m\<lparr>m_pending := [markAttempt D m r], m_timeoutTimer := Some (D + m_timeoutMs m),
      events := events m @ ?e\<rparr>"
  have fire: "timerFires (quietWrite D) (quietFailure D) D ((), m) = Some ((), ?m)"
    using Suc.prems by (intro silent_retry) auto
  have frame: "frameFor ?m (markAttempt D m r) = frameFor m r"
    by (simp add: frameFor_def markAttempt_def split: FramingMode.splits)
  have "silentRun (Suc k) ?m = Some (?m\<lparr>m_pending := [], m_timeoutTimer := None,
      events := events ?m @ concat (replicate k ?e)
        @ [RequestFailed (correlationId r) (timeoutReason (m_retryCount m + 1))]\<rparr>)"
    using Suc.IH [of ?m "markAttempt D m r" "D + m_timeoutMs m"] Suc.prems frame
    by (simp add: markAttempt_def newDeadline_def del: silentRun.simps)
  with fire Suc.prems(3) show ?case by simp
qed

text \<open>A request to a device that never answers is written once plus once per retry, one timeout
  apart, and then fails with the number of attempts in its reason; nothing is left pending and the
  timer is off. This needs a positive timeout and a retry count that is not negative.\<close>

theorem silent_device_fails_after_retries:
  assumes "m_pending m = []" and "m_transport m = Some t"
    and "0 < m_timeoutMs m" and "m_timeoutMs m \<le> maxInt32" and "m_retryCount m = int n"
  shows "\<exists>m1 frame. sendRequest (quietWrite now) now uid pdu cid ((), m) = Some ((), m1) \<and>
     m_timeoutTimer m1 = Some (now + m_timeoutMs m) \<and>
     events m1 = events m @ [RequestQueued cid, FrameSent frame, TransportWrite t frame] \<and>
     silentRun (Suc n) m1 = Some (m1\<lparr>m_pending := [], m_timeoutTimer := None,
       events := events m1 @ concat (replicate n [FrameSent frame, TransportWrite t frame])
         @ [RequestFailed cid (timeoutReason (int n + 1))]\<rparr>)"
proof -
  define r where "r = \<lparr>transactionId = m_nextTransactionId m + 1, pr_unitId = uid, requestPdu = pdu,
      correlationId = cid, attemptsSoFar = 1, deadline = At (now + m_timeoutMs m)\<rparr>"
  define frame where "frame = frameFor m r"
  define m1 where "m1 = m\<lparr>m_nextTransactionId := m_nextTransactionId m + 1, m_pending := [r],
      m_timeoutTimer := Some (now + m_timeoutMs m),
      events := events m @ [RequestQueued cid, FrameSent frame, TransportWrite t frame]\<rparr>"
  have "qBound 1 (soonestRemaining now [r]) maxInt32 = m_timeoutMs m"
    using assms by (auto simp: qBound_def soonestRemaining_def r_def maxInt64_def maxInt32_def)
  then have send: "sendRequest (quietWrite now) now uid pdu cid ((), m) = Some ((), m1)"
    using assms by (simp add: sendRequest_def markAttempt_def newDeadline_def Let_def r_def frame_def m1_def
        writeFrame_def quiet_defs rearmTimeoutTimer_def emitSignal_def frameFor_def split: FramingMode.splits)
  have "frameFor m1 r = frame" by (simp add: frame_def m1_def frameFor_def)
  with silentRun_eq [of m1 r "now + m_timeoutMs m" n t] assms
  have "silentRun (Suc n) m1 = Some (m1\<lparr>m_pending := [], m_timeoutTimer := None,
       events := events m1 @ concat (replicate n [FrameSent frame, TransportWrite t frame])
         @ [RequestFailed cid (timeoutReason (int n + 1))]\<rparr>)"
    by (simp add: m1_def r_def del: silentRun.simps)
  with send show ?thesis
    by (intro exI [of _ m1] exI [of _ frame]) (simp add: m1_def del: silentRun.simps)
qed

theorem silent_device_fails_after_retries_witness:
  "\<exists>m1. sendRequest (quietWrite 0) 0 1 [3, 0, 0, 0, 1] 7
      ((), (newTransactionManager (Some SerialTransport))\<lparr>m_retryCount := 2\<rparr>) = Some ((), m1) \<and>
    map_option m_pending (silentRun 3 m1) = Some []"
proof -
  let ?m = "(newTransactionManager (Some SerialTransport))\<lparr>m_retryCount := 2\<rparr>"
  have hyps: "m_pending ?m = []" "m_transport ?m = Some SerialTransport"
    "0 < m_timeoutMs ?m" "m_timeoutMs ?m \<le> maxInt32" "m_retryCount ?m = int 2"
    by (simp_all add: newTransactionManager_def setTransport_def maxInt32_def)
  from silent_device_fails_after_retries [OF hyps, of 0 1 "[3, 0, 0, 0, 1]" 7] show ?thesis
    by (auto simp: numeral_3_eq_3 simp del: silentRun.simps)
qed

section \<open>Matching answers to requests\<close>

lemma matchIndexFrom_none:
  "\<forall>r \<in> set rs. transactionId r \<noteq> t \<Longrightarrow> matchIndexFrom i t rs = -1"
  by (induction rs arbitrary: i) auto

lemma matchIndexFrom_first:
  "transactionId r = t \<Longrightarrow> \<forall>x \<in> set xs. transactionId x \<noteq> t \<Longrightarrow>
   matchIndexFrom i t (xs @ r # ys) = i + int (length xs)"
  by (induction xs arbitrary: i) auto

lemma completeRequest_split:
  "m_pending m = xs @ r # ys \<Longrightarrow> i = int (length xs) \<Longrightarrow>
   completeRequest h now i p (c, m) =
     h (correlationId r) p (c, emitSignal (ResponseReceived (correlationId r) p)
        (rearmTimeoutTimer now (m\<lparr>m_pending := xs @ ys\<rparr>)))"
  by (simp add: completeRequest_def Let_def)

text \<open>The manager after an answer to \<open>r\<close> arrived in \<open>frame\<close>, with \<open>rest\<close> still pending.\<close>

definition answered :: "int \<Rightarrow> bytes \<Rightarrow> PendingRequest \<Rightarrow> PendingRequest list \<Rightarrow> bytes \<Rightarrow> tmgr \<Rightarrow> tmgr" where
  "answered now frame r rest p m =
     emitSignal (ResponseReceived (correlationId r) p)
       (rearmTimeoutTimer now ((emitSignal (FrameReceived frame) m)\<lparr>m_pending := rest\<rparr>))"

lemma bind_same: "(\<And>s. x = Some s \<Longrightarrow> g s = Some s) \<Longrightarrow> Option.bind x g = x"
  by (cases x) auto

lemma consume_empty:
  "rx s = [] \<Longrightarrow> consumeTcpFrames h now s = Some s" "rx s = [] \<Longrightarrow> consumeRtuFrames h now s = Some s"
  by (subst consumeTcpFrames.simps consumeRtuFrames.simps,
      simp add: decodeMbapFrame_short expectedRtuResponseLength_short)+

context response_client
begin

lemmas tcp_chunk = tcp.loop_chunk
lemmas rtu_chunk = rtu.loop_chunk
lemmas rtu_returns = rtu.loop_returns

lemma tcp_one_frame:
  assumes "m_framingMode m = Tcp" "m_receiveBuffer m = []" "m_pending m \<noteq> []" "length p \<le> 65534"
  shows "handleDataReceived h now (encodeMbapFrame t u p) (c, m) =
    acceptTcpFrame h now (encodeMbapFrame t u p)
      \<lparr>mb_transactionId = t, mb_unitId = u, mb_pdu = p, frameByteCount = 7 + length p\<rparr> (c, m)"
proof -
  let ?f = "encodeMbapFrame t u p"
  let ?d = "\<lparr>mb_transactionId = t, mb_unitId = u, mb_pdu = p, frameByteCount = 7 + length p\<rparr>"
  let ?s = "(c, m\<lparr>m_receiveBuffer := ?f\<rparr>)"
  have d: "decodeMbapFrame ?f = Some ?d" using decodeMbapFrame_encode [OF assms(4), of t u "[]"] by simp
  have m: "m\<lparr>m_receiveBuffer := []\<rparr> = m" using assms(2) by (cases m) simp
  have "handleDataReceived h now ?f (c, m) = consumeTcpFrames h now ?s"
    using assms by (simp add: handleDataReceived_def)
  also have "\<dots> = Option.bind (acceptTcpFrame h now ?f ?d (c, m)) (consumeTcpFrames h now)"
    using assms(3) d m by (subst consumeTcpFrames.simps) (simp add: Let_def)
  also have "\<dots> = acceptTcpFrame h now ?f ?d (c, m)"
  proof (rule bind_same)
    fix s assume "acceptTcpFrame h now ?f ?d (c, m) = Some s"
    then have "deliverTcp h now ?f (c, m) = Some s" by (simp add: deliverTcp_def d)
    then have "rx s = []" using tcp.deliver_buffer [of ?f "(c, m)" s] assms(2) by simp
    then show "consumeTcpFrames h now s = Some s" by (rule consume_empty)
  qed
  finally show ?thesis .
qed

lemma rtu_one_frame:
  assumes "m_framingMode m = Rtu" "m_receiveBuffer m = []" "m_pending m \<noteq> []"
    and "expectedRtuResponseLength f = length f" "f \<noteq> []"
  shows "handleDataReceived h now f (c, m) = acceptRtuFrame h now f (c, m)"
proof -
  have m: "m\<lparr>m_receiveBuffer := []\<rparr> = m" using assms(2) by (cases m) simp
  have "handleDataReceived h now f (c, m) = consumeRtuFrames h now (c, m\<lparr>m_receiveBuffer := f\<rparr>)"
    using assms by (simp add: handleDataReceived_def)
  also have "\<dots> = Option.bind (acceptRtuFrame h now f (c, m)) (consumeRtuFrames h now)"
    using assms(3-5) m by (subst consumeRtuFrames.simps) (simp add: Let_def)
  also have "\<dots> = acceptRtuFrame h now f (c, m)"
  proof (rule bind_same)
    fix s assume "acceptRtuFrame h now f (c, m) = Some s"
    then have "rx s = []" using rtu.deliver_buffer [of f "(c, m)" s] assms(2) by simp
    then show "consumeRtuFrames h now s = Some s" by (rule consume_empty)
  qed
  finally show ?thesis .
qed

end

text \<open>C18: over TCP an answer goes to the first pending request with its transaction id, wherever that
  stands in the queue: the request leaves the queue, the others stay in order, and the slot gets the
  request's own correlation id with exactly the answer's PDU. An answer with a transaction id that
  nothing pending has is logged and discarded without touching any request.\<close>

theorem tcp_answer_matched_by_transaction_id:
  assumes "buffer_transparent h" and "m_framingMode m = Tcp" and "m_receiveBuffer m = []"
    and "m_pending m \<noteq> []" and "length p \<le> 65534" and "frame = encodeMbapFrame t u p"
  shows "(\<forall>xs r ys. m_pending m = xs @ r # ys \<and> transactionId r = t \<and> (\<forall>x \<in> set xs. transactionId x \<noteq> t) \<longrightarrow>
            handleDataReceived h now frame (c, m) =
              h (correlationId r) p (c, answered now frame r (xs @ ys) p m)) \<and>
         ((\<forall>r \<in> set (m_pending m). transactionId r \<noteq> t) \<longrightarrow>
            handleDataReceived h now frame (c, m) = Some (c, emitSignal (FrameReceived frame) m))"
proof -
  note one = response_client.tcp_one_frame [OF response_client.intro [OF assms(1)] assms(2-5)]
  show ?thesis
    unfolding assms(6) one
    by (auto simp: acceptTcpFrame_def Let_def matchIndexFrom_none matchIndexFrom_first
        completeRequest_split answered_def)
qed

definition sampleRequest :: PendingRequest where
  "sampleRequest = \<lparr>transactionId = 9, pr_unitId = 1, requestPdu = [3, 0, 0, 0, 1],
     correlationId = 77, attemptsSoFar = 1, deadline = At 1000\<rparr>"

theorem tcp_answer_matched_by_transaction_id_witness:
  "let m = (newTransactionManager (Some TcpTransport))\<lparr>m_pending := [sampleRequest]\<rparr>;
       frame = encodeMbapFrame 9 1 [3, 2, 0, 5]
   in handleDataReceived (quietResponse 0) 0 frame ((), m) =
        Some ((), answered 0 frame sampleRequest [] [3, 2, 0, 5] m)"
proof -
  let ?m = "(newTransactionManager (Some TcpTransport))\<lparr>m_pending := [sampleRequest]\<rparr>"
  have "m_framingMode ?m = Tcp" "m_receiveBuffer ?m = []" "m_pending ?m \<noteq> []"
    "length [3, 2, 0, 5 :: u8] \<le> 65534"
    by (simp_all add: newTransactionManager_def setTransport_def)
  from tcp_answer_matched_by_transaction_id [OF quiet_transparent this refl, THEN conjunct1,
      rule_format, of "[]" sampleRequest "[]" 9] show ?thesis
    by (simp add: Let_def sampleRequest_def quiet_defs)
qed

text \<open>C28: over RTU an intact answer goes to the oldest pending request, whichever unit sent it, and an
  answer with a wrong checksum is logged and dropped without touching any request.\<close>

theorem rtu_answer_matched_by_position:
  assumes "buffer_transparent h" and "m_framingMode m = Rtu" and "m_receiveBuffer m = []"
    and "m_pending m = r # rs" and "expectedRtuResponseLength frame = length frame" and "frame \<noteq> []"
  shows "(\<forall>u p. frame = encodeRtuFrame u p \<longrightarrow>
            handleDataReceived h now frame (c, m) = h (correlationId r) p (c, answered now frame r rs p m)) \<and>
         (decodeRtuFrame frame = None \<longrightarrow>
            handleDataReceived h now frame (c, m) = Some (c, emitSignal (FrameReceived frame) m))"
proof -
  have "m_pending m \<noteq> []" using assms(4) by simp
  note one = response_client.rtu_one_frame [OF response_client.intro [OF assms(1)] assms(2,3) this assms(5,6)]
  have "completeRequest h now 0 p (c, emitSignal (FrameReceived frame) m) =
      h (correlationId r) p (c, answered now frame r rs p m)" for p
    using assms(4) by (subst completeRequest_split [where xs = "[]" and r = r and ys = rs])
      (simp_all add: answered_def)
  then show ?thesis
    unfolding one by (auto simp: acceptRtuFrame_def Let_def rtu_decode_encode)
qed

theorem rtu_answer_matched_by_position_witness:
  "let m = (setFramingMode Rtu (newTransactionManager (Some SerialTransport)))\<lparr>m_pending := [sampleRequest]\<rparr>;
       frame = encodeRtuFrame 1 [3, 2, 0, 5]
   in handleDataReceived (quietResponse 0) 0 frame ((), m) =
        Some ((), answered 0 frame sampleRequest [] [3, 2, 0, 5] m)"
proof -
  let ?m = "(setFramingMode Rtu (newTransactionManager (Some SerialTransport)))\<lparr>m_pending := [sampleRequest]\<rparr>"
  have "m_framingMode ?m = Rtu" "m_receiveBuffer ?m = []" "m_pending ?m = [sampleRequest]"
    by (simp_all add: newTransactionManager_def setTransport_def setFramingMode_def)
  moreover have "expectedRtuResponseLength (encodeRtuFrame 1 [3, 2, 0, 5]) = length (encodeRtuFrame 1 [3, 2, 0, 5])"
    "encodeRtuFrame 1 [3, 2, 0, 5] \<noteq> []"
    by (simp_all add: encodeRtuFrame_eq expectedRtuResponseLength_Cons2 isExceptionResponseFunctionCode_def
        isWriteFunctionCode_def isReadFunctionCode_def)
  ultimately have "handleDataReceived (quietResponse 0) 0 (encodeRtuFrame 1 [3, 2, 0, 5]) ((), ?m) =
      quietResponse 0 (correlationId sampleRequest) [3, 2, 0, 5]
        ((), answered 0 (encodeRtuFrame 1 [3, 2, 0, 5]) sampleRequest [] [3, 2, 0, 5] ?m)"
    by (rule rtu_answer_matched_by_position [OF quiet_transparent, THEN conjunct1, THEN spec, THEN spec,
          THEN mp, OF _ _ _ _ _ refl])
  then show ?thesis unfolding Let_def quiet_defs .
qed



section \<open>Receiving always returns\<close>

lemma matchIndexFrom_range:
  "matchIndexFrom i t rs = -1 \<or> (i \<le> matchIndexFrom i t rs \<and> matchIndexFrom i t rs < i + int (length rs))"
proof (induction rs arbitrary: i)
  case (Cons r rs)
  from Cons.IH [of "i + 1"] show ?case by auto
qed simp

lemma completeRequest_total:
  "(\<And>cid pdu s. h cid pdu s \<noteq> None) \<Longrightarrow> 0 \<le> i \<Longrightarrow> i < int (length (m_pending (snd s))) \<Longrightarrow>
   completeRequest h now i p s \<noteq> None"
  by (cases s) (simp add: completeRequest_def Let_def)

lemma acceptTcpFrame_total:
  assumes "\<And>cid pdu s. h cid pdu s \<noteq> None"
  shows "acceptTcpFrame h now frame d s \<noteq> None"
proof (cases s)
  case (Pair c m)
  then show ?thesis
    using completeRequest_total [of h _ "(c, emitSignal (FrameReceived frame) m)" now "mb_pdu d", OF assms]
      matchIndexFrom_range [of 0 "mb_transactionId d" "m_pending m"]
    by (auto simp: acceptTcpFrame_def Let_def)
qed

lemma acceptRtuFrame_total:
  assumes "\<And>cid pdu s. h cid pdu s \<noteq> None" and "\<not> nothingPending s"
  shows "acceptRtuFrame h now frame s \<noteq> None"
proof (cases s)
  case (Pair c m)
  then show ?thesis
    using assms(2) completeRequest_total [of h 0 "(c, emitSignal (FrameReceived frame) m)" now, OF assms(1)]
    by (auto simp: acceptRtuFrame_def Let_def nothingPending_def split: option.splits)
qed

context response_client
begin

lemma consumeTcpFrames_returns:
  assumes "\<And>cid pdu s. h cid pdu s \<noteq> None"
  shows "\<exists>t. consumeTcpFrames h now s = Some t"
proof (induction "length (rx s)" arbitrary: s rule: less_induct)
  case less
  show ?case
  proof (cases "m_pending (snd s) = [] \<or> decodeMbapFrame (rx s) = None")
    case True
    then show ?thesis by (subst consumeTcpFrames.simps) auto
  next
    case False
    then obtain d where d: "decodeMbapFrame (rx s) = Some d" and busy: "m_pending (snd s) \<noteq> []" by blast
    let ?f = "take (frameByteCount d) (rx s)"
    let ?s = "setRxBuffer (drop (frameByteCount d) (rx s)) s"
    obtain s1 where s1: "acceptTcpFrame h now ?f d ?s = Some s1"
      using acceptTcpFrame_total [of h now ?f d ?s, OF assms] by blast
    have "map_option (setRxBuffer (rx ?s)) (acceptTcpFrame h now ?f d ?s) = acceptTcpFrame h now ?f d ?s"
      using acceptTcp_setRx [of ?f d "rx ?s" ?s] by simp
    with s1 have "setRxBuffer (rx ?s) s1 = s1" by simp
    then have "rx s1 = drop (frameByteCount d) (rx s)" by (metis setRxBuffer_simps(1))
    then have "length (rx s1) < length (rx s)" using decodeMbapFrame_bounds [OF d] by (simp, linarith)
    then obtain t where "consumeTcpFrames h now s1 = Some t" using less by blast
    with d busy s1 show ?thesis
      by (subst consumeTcpFrames.simps) (simp add: Let_def setRxBuffer_def)
  qed
qed

end



section \<open>A stream that lost its frame boundaries\<close>

text \<open>
  The first bytes in the buffer can never become a frame: over TCP a protocol id other than zero, over
  RTU a function code the framer does not know.
\<close>

definition desynchronised :: "tmgr \<Rightarrow> bool" where
  "desynchronised m =
     (case m_framingMode m of
        Tcp \<Rightarrow> 7 \<le> length (m_receiveBuffer m) \<and> mbapU16 (m_receiveBuffer m) 2 \<noteq> 0
      | Rtu \<Rightarrow> 2 \<le> length (m_receiveBuffer m) \<and>
          \<not> isExceptionResponseFunctionCode (m_receiveBuffer m ! 1) \<and>
          \<not> isWriteFunctionCode (m_receiveBuffer m ! 1) \<and>
          \<not> isReadFunctionCode (m_receiveBuffer m ! 1))"

lemma desynchronised_more:
  "desynchronised m \<Longrightarrow> desynchronised (m\<lparr>m_receiveBuffer := m_receiveBuffer m @ data\<rparr>)"
  by (auto simp: desynchronised_def mbapU16_def nth_append split: FramingMode.splits)

lemma desynchronised_waits:
  assumes "desynchronised m"
  shows "m_framingMode m = Tcp \<Longrightarrow> decodeMbapFrame (m_receiveBuffer m) = None"
    and "m_framingMode m = Rtu \<Longrightarrow> expectedRtuResponseLength (m_receiveBuffer m) = 0"
  using assms by (auto simp: desynchronised_def decodeMbapFrame_def MbapHeaderByteCount_def Let_def
      expectedRtuResponseLength_def)

lemma desynchronised_cong:
  "m_framingMode m' = m_framingMode m \<Longrightarrow> m_receiveBuffer m' = m_receiveBuffer m \<Longrightarrow>
   desynchronised m' = desynchronised m"
  by (simp add: desynchronised_def split: FramingMode.splits)

lemma quiet_retransmit_buffer:
  "retransmitAll (quietWrite now) frames s = Some s' \<Longrightarrow>
     rx s' = rx s \<and> m_framingMode (snd s') = m_framingMode (snd s)"
proof (induction frames arbitrary: s)
  case (Cons frame frames)
  then obtain s1 where s1: "writeFrame (quietWrite now) frame s = Some s1"
    "retransmitAll (quietWrite now) frames s1 = Some s'"
    by (auto split: bind_splits)
  then have "rx s1 = rx s \<and> m_framingMode (snd s1) = m_framingMode (snd s)"
    by (cases s) (auto simp: writeFrame_def quiet_defs Let_def split: option.splits)
  with Cons.IH [OF s1(2)] show ?case by simp
qed simp

lemma quiet_fail_buffer:
  "failAll (quietFailure now) rs s = Some s' \<Longrightarrow>
     rx s' = rx s \<and> m_framingMode (snd s') = m_framingMode (snd s)"
  by (induction rs arbitrary: s) (auto simp: quiet_defs)



end
