(* ===== verification/Register_Model.thy ===== *)
theory Register_Model
  imports Modbus_Pdu
begin

text \<open>
  \<open>core/model/RegisterType\<close> and \<open>core/format/AddressConvention\<close>: the four Modbus data regions,
  what may be read or written in each, and the display transform between 0-based wire addresses
  and Modicon numbers.
\<close>

datatype RegisterType = Coil | DiscreteInput | HoldingRegister | InputRegister

text \<open>\<open>int(type)\<close>: the ordinal of the enumerator, by which the code compares types.\<close>

fun typeOrdinal :: "RegisterType \<Rightarrow> nat" where
  "typeOrdinal Coil = 0"
| "typeOrdinal DiscreteInput = 1"
| "typeOrdinal HoldingRegister = 2"
| "typeOrdinal InputRegister = 3"

lemma typeOrdinal_inject [simp]: "typeOrdinal a = typeOrdinal b \<longleftrightarrow> a = b"
  by (cases a; cases b) simp_all

instantiation RegisterType :: linorder
begin

definition less_RegisterType :: "RegisterType \<Rightarrow> RegisterType \<Rightarrow> bool" where
  "less_RegisterType a b \<longleftrightarrow> typeOrdinal a < typeOrdinal b"

definition less_eq_RegisterType :: "RegisterType \<Rightarrow> RegisterType \<Rightarrow> bool" where
  "less_eq_RegisterType a b \<longleftrightarrow> typeOrdinal a \<le> typeOrdinal b"

instance
  by standard (auto simp: less_RegisterType_def less_eq_RegisterType_def)

end

fun readFunctionCodeFor :: "RegisterType \<Rightarrow> FunctionCode" where
  "readFunctionCodeFor Coil = ReadCoils"
| "readFunctionCodeFor DiscreteInput = ReadDiscreteInputs"
| "readFunctionCodeFor HoldingRegister = ReadHoldingRegisters"
| "readFunctionCodeFor InputRegister = ReadInputRegisters"

definition isBitRegisterType :: "RegisterType \<Rightarrow> bool" where
  "isBitRegisterType t \<longleftrightarrow> t = Coil \<or> t = DiscreteInput"

definition isWritableRegisterType :: "RegisterType \<Rightarrow> bool" where
  "isWritableRegisterType t \<longleftrightarrow> t = Coil \<or> t = HoldingRegister"

definition MaxBitsPerReadRequest :: int where "MaxBitsPerReadRequest = 2000"
definition MaxRegistersPerReadRequest :: int where "MaxRegistersPerReadRequest = 125"

definition maxReadCountFor :: "RegisterType \<Rightarrow> int" where
  "maxReadCountFor t =
     (if isBitRegisterType t then MaxBitsPerReadRequest else MaxRegistersPerReadRequest)"

lemma isBitRegisterType_simps [simp]:
  "isBitRegisterType Coil" "isBitRegisterType DiscreteInput"
  "\<not> isBitRegisterType HoldingRegister" "\<not> isBitRegisterType InputRegister"
  by (simp_all add: isBitRegisterType_def)

section \<open>Address conventions\<close>

datatype AddressConvention = Pdu | Modicon

fun modiconBaseFor :: "RegisterType \<Rightarrow> int" where
  "modiconBaseFor Coil = 1"
| "modiconBaseFor DiscreteInput = 10001"
| "modiconBaseFor InputRegister = 30001"
| "modiconBaseFor HoldingRegister = 40001"

definition displayAddress :: "RegisterType \<Rightarrow> int \<Rightarrow> AddressConvention \<Rightarrow> int" where
  "displayAddress t pduAddr convention =
     (if convention = Pdu then pduAddr else modiconBaseFor t + pduAddr)"

definition pduAddress :: "RegisterType \<Rightarrow> int \<Rightarrow> AddressConvention \<Rightarrow> int" where
  "pduAddress t displayAddr convention =
     (if convention = Pdu then displayAddr else displayAddr - modiconBaseFor t)"

text \<open>The two directions of the address transform are inverse to each other under either
  convention, and a Modicon number names one region and one address only as long as each region
  keeps to its 10000 numbers; beyond that regions collide (coil 10000 and discrete input 0).\<close>

theorem address_convention_bijective:
  "pduAddress t (displayAddress t a c) c = a \<and> displayAddress t (pduAddress t d c) c = d \<and>
   inj_on (\<lambda>(t, a). displayAddress t a Modicon) (UNIV \<times> {0..<10000}) \<and>
   displayAddress Coil 10000 Modicon = displayAddress DiscreteInput 0 Modicon"
proof -
  have "t = t' \<and> a = a'" if "0 \<le> a" "a < 10000" "0 \<le> a'" "a' < 10000"
    and "modiconBaseFor t + a = modiconBaseFor t' + a'" for t t' and a a' :: int
    using that by (cases t; cases t') auto
  then have "inj_on (\<lambda>(t, a). displayAddress t a Modicon) (UNIV \<times> {0..<10000})"
    by (fastforce simp: inj_on_def displayAddress_def)
  then show ?thesis by (simp add: displayAddress_def pduAddress_def)
qed

end
