(* ===== verification/Read_Coalescer.thy ===== *)
theory Read_Coalescer
  imports Register_Model
begin

text \<open>
  \<open>core/poll/ReadCoalescer.cpp\<close> with the structs of \<open>PollTarget.h\<close>, \<open>CoalescingOptions.h\<close> and
  \<open>ReadRequestPlan.h\<close>: scattered poll targets become contiguous read requests. Targets are grouped
  by device and region, sorted by address, merged across gaps of at most \<open>maxGapToBridge\<close>, and each
  merged run is chopped into requests of at most the per-request maximum.

  The chopping loop advances by that maximum, so it does not end when the maximum is not positive:
  it is a \<open>partial_function (option)\<close>, and that it returns for positive maxima is proved. C++ \<open>int\<close>
  values are \<open>int\<close>: addresses stay below 131071 and the maxima of the code are at most 2000.
\<close>

section \<open>Targets, options, plans\<close>

record PollTarget =
  pt_unitId :: u8
  pt_registerType :: RegisterType
  pt_startAddress :: u16
  pt_quantity :: u16

definition endAddressExclusive :: "PollTarget \<Rightarrow> int" where
  "endAddressExclusive t = uint (pt_startAddress t) + uint (pt_quantity t)"

record CoalescingOptions =
  maxGapToBridge :: int
  maxBitsPerRequest :: int
  maxRegistersPerRequest :: int

definition defaultCoalescingOptions :: CoalescingOptions where
  "defaultCoalescingOptions =
     \<lparr>maxGapToBridge = 8, maxBitsPerRequest = MaxBitsPerReadRequest,
      maxRegistersPerRequest = MaxRegistersPerReadRequest\<rparr>"

definition maxCountFor :: "CoalescingOptions \<Rightarrow> RegisterType \<Rightarrow> int" where
  "maxCountFor options t =
     (if isBitRegisterType t then maxBitsPerRequest options else maxRegistersPerRequest options)"

record CoveredTarget =
  targetIndex :: nat
  offsetInPlan :: int
  offsetInTarget :: int
  count :: int

record ReadRequestPlan =
  rp_unitId :: u8
  rp_registerType :: RegisterType
  rp_startAddress :: u16
  rp_quantity :: u16
  covered :: "CoveredTarget list"

datatype GroupKey = GroupKey (gk_unitId: u8) (gk_registerType: RegisterType)

text \<open>\<open>GroupKey::operator<\<close>, which orders the groups.\<close>

definition keyPrecedes :: "GroupKey \<Rightarrow> GroupKey \<Rightarrow> bool" where
  "keyPrecedes k other \<longleftrightarrow>
     (if gk_unitId k \<noteq> gk_unitId other then gk_unitId k < gk_unitId other
      else gk_registerType k < gk_registerType other)"

instantiation GroupKey :: linorder
begin

definition less_GroupKey :: "GroupKey \<Rightarrow> GroupKey \<Rightarrow> bool" where
  "less_GroupKey k other \<longleftrightarrow> keyPrecedes k other"

definition less_eq_GroupKey :: "GroupKey \<Rightarrow> GroupKey \<Rightarrow> bool" where
  "less_eq_GroupKey k other \<longleftrightarrow> k < other \<or> k = other"

instance
proof
  fix x y z :: GroupKey
  show "x < y \<longleftrightarrow> x \<le> y \<and> \<not> y \<le> x"
    by (cases x; cases y) (auto simp: less_GroupKey_def keyPrecedes_def less_eq_GroupKey_def)
  show "x \<le> x" by (simp add: less_eq_GroupKey_def)
  show "x \<le> y \<Longrightarrow> y \<le> z \<Longrightarrow> x \<le> z"
    by (cases x; cases y; cases z)
      (auto simp: less_GroupKey_def keyPrecedes_def less_eq_GroupKey_def split: if_splits)
  show "x \<le> y \<Longrightarrow> y \<le> x \<Longrightarrow> x = y"
    by (cases x; cases y) (auto simp: less_GroupKey_def keyPrecedes_def less_eq_GroupKey_def split: if_splits)
  show "x \<le> y \<or> y \<le> x"
    by (cases x; cases y) (auto simp: less_GroupKey_def keyPrecedes_def less_eq_GroupKey_def neq_iff)
qed

end

record MergedRun =
  mr_startAddress :: int
  mr_endAddressExclusive :: int
  targetIndices :: "nat list"

section \<open>The algorithm\<close>

definition mergeStep :: "PollTarget list \<Rightarrow> int \<Rightarrow> MergedRun list \<Rightarrow> nat \<Rightarrow> MergedRun list" where
  "mergeStep targets maxGap runs index =
     (let target = targets ! index;
          startsNewRun = (runs = [] \<or>
            uint (pt_startAddress target) - mr_endAddressExclusive (last runs) > maxGap)
      in if startsNewRun then
           runs @ [\<lparr>mr_startAddress = uint (pt_startAddress target),
                    mr_endAddressExclusive = endAddressExclusive target,
                    targetIndices = [index]\<rparr>]
         else
           let current = last runs
           in butlast runs @ [current\<lparr>
                mr_endAddressExclusive :=
                  max (mr_endAddressExclusive current) (endAddressExclusive target),
                targetIndices := targetIndices current @ [index]\<rparr>])"

definition mergeByGap :: "PollTarget list \<Rightarrow> nat list \<Rightarrow> int \<Rightarrow> MergedRun list" where
  "mergeByGap targets sortedIndices maxGap = foldl (mergeStep targets maxGap) [] sortedIndices"

fun coveredSlices :: "PollTarget list \<Rightarrow> int \<Rightarrow> int \<Rightarrow> nat list \<Rightarrow> CoveredTarget list" where
  "coveredSlices targets chunkStart chunkEnd [] = []"
| "coveredSlices targets chunkStart chunkEnd (index # indices) =
     (let target = targets ! index;
          overlapStart = max (uint (pt_startAddress target)) chunkStart;
          overlapEnd = min (endAddressExclusive target) chunkEnd;
          rest = coveredSlices targets chunkStart chunkEnd indices
      in if overlapStart \<ge> overlapEnd then rest
         else \<lparr>targetIndex = index,
               offsetInPlan = overlapStart - chunkStart,
               offsetInTarget = overlapStart - uint (pt_startAddress target),
               count = overlapEnd - overlapStart\<rparr> # rest)"

definition planForChunk ::
    "PollTarget list \<Rightarrow> MergedRun \<Rightarrow> GroupKey \<Rightarrow> int \<Rightarrow> int \<Rightarrow> ReadRequestPlan" where
  "planForChunk targets run key chunkStart chunkEnd =
     \<lparr>rp_unitId = gk_unitId key, rp_registerType = gk_registerType key,
      rp_startAddress = word_of_int chunkStart,
      rp_quantity = word_of_int (chunkEnd - chunkStart),
      covered = coveredSlices targets chunkStart chunkEnd (targetIndices run)\<rparr>"

partial_function (option) chunkLoop ::
    "PollTarget list \<Rightarrow> MergedRun \<Rightarrow> GroupKey \<Rightarrow> int \<Rightarrow> int \<Rightarrow> ReadRequestPlan list
       \<Rightarrow> ReadRequestPlan list option" where
  "chunkLoop targets run key maxCount chunkStart plans =
     (if chunkStart < mr_endAddressExclusive run then
        let chunkEnd = min (chunkStart + maxCount) (mr_endAddressExclusive run)
        in chunkLoop targets run key maxCount (chunkStart + maxCount)
             (plans @ [planForChunk targets run key chunkStart chunkEnd])
      else Some plans)"

definition appendPlansForRun ::
    "PollTarget list \<Rightarrow> MergedRun \<Rightarrow> GroupKey \<Rightarrow> int \<Rightarrow> ReadRequestPlan list
       \<Rightarrow> ReadRequestPlan list option" where
  "appendPlansForRun targets run key maxCountPerRequest plans =
     chunkLoop targets run key maxCountPerRequest (mr_startAddress run) plans"

definition keyOf :: "PollTarget \<Rightarrow> GroupKey" where
  "keyOf t = GroupKey (pt_unitId t) (pt_registerType t)"

definition groupKeys :: "PollTarget list \<Rightarrow> GroupKey list" where
  "groupKeys targets =
     sort (foldl (\<lambda>keys t. if keyOf t \<in> set keys then keys else keys @ [keyOf t]) [] targets)"

definition groupIndices :: "PollTarget list \<Rightarrow> GroupKey \<Rightarrow> nat list" where
  "groupIndices targets key =
     sort_key (\<lambda>i. pt_startAddress (targets ! i))
       (filter (\<lambda>i. keyOf (targets ! i) = key) [0..<length targets])"

fun plansForRuns ::
    "PollTarget list \<Rightarrow> GroupKey \<Rightarrow> int \<Rightarrow> MergedRun list \<Rightarrow> ReadRequestPlan list
       \<Rightarrow> ReadRequestPlan list option" where
  "plansForRuns targets key maxCount [] plans = Some plans"
| "plansForRuns targets key maxCount (run # runs) plans =
     do { plans \<leftarrow> appendPlansForRun targets run key maxCount plans;
          plansForRuns targets key maxCount runs plans }"

fun plansForKeys ::
    "PollTarget list \<Rightarrow> CoalescingOptions \<Rightarrow> GroupKey list \<Rightarrow> ReadRequestPlan list
       \<Rightarrow> ReadRequestPlan list option" where
  "plansForKeys targets options [] plans = Some plans"
| "plansForKeys targets options (key # keys) plans =
     (let indices = groupIndices targets key;
          maxCount = maxCountFor options (gk_registerType key)
      in do { plans \<leftarrow> plansForRuns targets key maxCount
                          (mergeByGap targets indices (maxGapToBridge options)) plans;
              plansForKeys targets options keys plans })"

definition coalesce :: "PollTarget list \<Rightarrow> CoalescingOptions \<Rightarrow> ReadRequestPlan list option" where
  "coalesce targets options = plansForKeys targets options (groupKeys targets) []"

section \<open>The chopping loop returns\<close>

text \<open>The chunk starts the loop visits, as a total function.\<close>

function chunkStarts :: "int \<Rightarrow> int \<Rightarrow> int \<Rightarrow> int list" where
  "chunkStarts s e m = (if s < e \<and> 0 < m then s # chunkStarts (s + m) e m else [])"
  by pat_completeness auto
termination
  by (relation "measure (\<lambda>(s, e, m). nat (e - s))") auto

declare chunkStarts.simps [simp del]

definition runPlans :: "PollTarget list \<Rightarrow> GroupKey \<Rightarrow> int \<Rightarrow> MergedRun \<Rightarrow> ReadRequestPlan list" where
  "runPlans targets key m run =
     map (\<lambda>cs. planForChunk targets run key cs (min (cs + m) (mr_endAddressExclusive run)))
       (chunkStarts (mr_startAddress run) (mr_endAddressExclusive run) m)"

definition groupRuns :: "PollTarget list \<Rightarrow> CoalescingOptions \<Rightarrow> GroupKey \<Rightarrow> MergedRun list" where
  "groupRuns targets options key =
     mergeByGap targets (groupIndices targets key) (maxGapToBridge options)"

definition groupPlans ::
    "PollTarget list \<Rightarrow> CoalescingOptions \<Rightarrow> GroupKey \<Rightarrow> ReadRequestPlan list" where
  "groupPlans targets options key =
     concat (map (runPlans targets key (maxCountFor options (gk_registerType key)))
       (groupRuns targets options key))"

definition positive_options :: "CoalescingOptions \<Rightarrow> bool" where
  "positive_options options \<longleftrightarrow> 0 < maxBitsPerRequest options \<and> 0 < maxRegistersPerRequest options"

lemma maxCountFor_positive: "positive_options options \<Longrightarrow> 0 < maxCountFor options t"
  by (simp add: positive_options_def maxCountFor_def)

lemma chunkLoop_eq:
  assumes "0 < m"
  shows "chunkLoop targets run key m s plans =
    Some (plans @ map (\<lambda>cs. planForChunk targets run key cs (min (cs + m) (mr_endAddressExclusive run)))
      (chunkStarts s (mr_endAddressExclusive run) m))"
  using assms
proof (induction s "mr_endAddressExclusive run" m arbitrary: plans rule: chunkStarts.induct)
  case (1 s m)
  show ?case
  proof (cases "s < mr_endAddressExclusive run")
    case True
    with "1.hyps" [of "plans @ [planForChunk targets run key s (min (s + m) (mr_endAddressExclusive run))]"]
      "1.prems"
    show ?thesis
      by (subst chunkLoop.simps, subst chunkStarts.simps) (simp add: Let_def)
  next
    case False
    then show ?thesis by (subst chunkLoop.simps, subst chunkStarts.simps) simp
  qed
qed

lemma plansForRuns_eq:
  "0 < m \<Longrightarrow> plansForRuns targets key m runs plans =
     Some (plans @ concat (map (runPlans targets key m) runs))"
  by (induction runs arbitrary: plans) (simp_all add: appendPlansForRun_def chunkLoop_eq runPlans_def)

lemma plansForKeys_eq:
  "positive_options options \<Longrightarrow> plansForKeys targets options keys plans =
     Some (plans @ concat (map (groupPlans targets options) keys))"
  by (induction keys arbitrary: plans)
    (simp_all add: plansForRuns_eq maxCountFor_positive groupPlans_def groupRuns_def)

lemma coalesce_eq:
  "positive_options options \<Longrightarrow>
   coalesce targets options = Some (concat (map (groupPlans targets options) (groupKeys targets)))"
  by (simp add: coalesce_def plansForKeys_eq)

lemma chunkStarts_bounds: "cs \<in> set (chunkStarts s e m) \<Longrightarrow> s \<le> cs \<and> cs < e"
proof (induction s e m rule: chunkStarts.induct)
  case (1 s e m)
  then show ?case
    by (subst (asm) (2) chunkStarts.simps) (auto split: if_splits)
qed

lemma chunkStarts_sorted:
  "sorted_wrt (\<lambda>a b. a + m \<le> b) (chunkStarts s e m)"
proof (induction s e m rule: chunkStarts.induct)
  case (1 s e m)
  then show ?case
    using chunkStarts_bounds [of _ "s + m" e m]
    by (subst chunkStarts.simps) auto
qed

text \<open>Every address of the run lies in exactly one chunk.\<close>

lemma chunk_hits_outside:
  "a < s \<Longrightarrow> sum_list (map (\<lambda>cs. if cs \<le> a \<and> a < min (cs + m) e then 1 else 0 :: nat) (chunkStarts s e m)) = 0"
  using chunkStarts_bounds [of _ s e m] by fastforce

lemma chunk_hits:
  assumes "s \<le> a" "a < e" "0 < m"
  shows "sum_list (map (\<lambda>cs. if cs \<le> a \<and> a < min (cs + m) e then 1 else 0 :: nat) (chunkStarts s e m)) = 1"
  using assms
proof (induction s e m rule: chunkStarts.induct)
  case (1 s e m)
  show ?case
  proof (cases "a < s + m")
    case True
    with "1.prems" chunk_hits_outside [of a "s + m" m e] show ?thesis
      by (subst chunkStarts.simps) simp
  next
    case False
    with 1 show ?thesis by (subst chunkStarts.simps) simp
  qed
qed

section \<open>Merging\<close>

abbreviation start_of :: "PollTarget list \<Rightarrow> nat \<Rightarrow> int" where
  "start_of targets i \<equiv> uint (pt_startAddress (targets ! i))"

abbreviation end_of :: "PollTarget list \<Rightarrow> nat \<Rightarrow> int" where
  "end_of targets i \<equiv> endAddressExclusive (targets ! i)"

definition runs_ok :: "PollTarget list \<Rightarrow> int \<Rightarrow> nat list \<Rightarrow> MergedRun list \<Rightarrow> bool" where
  "runs_ok targets gap indices runs \<longleftrightarrow>
     concat (map targetIndices runs) = indices \<and>
     (\<forall>r \<in> set runs. \<forall>i \<in> set (targetIndices r).
        mr_startAddress r \<le> start_of targets i \<and> end_of targets i \<le> mr_endAddressExclusive r) \<and>
     (\<forall>r \<in> set runs. \<exists>i \<in> set (targetIndices r). mr_startAddress r = start_of targets i) \<and>
     (\<forall>r \<in> set runs. \<exists>i \<in> set (targetIndices r). mr_endAddressExclusive r = end_of targets i) \<and>
     sorted_wrt (\<lambda>r r'. mr_endAddressExclusive r + gap < mr_startAddress r') runs"

lemma runs_ok_subset:
  "runs_ok targets gap indices runs \<Longrightarrow> r \<in> set runs \<Longrightarrow> set (targetIndices r) \<subseteq> set indices"
  by (auto simp: runs_ok_def)

lemma mergeStep_ok:
  assumes ok: "runs_ok targets gap indices runs"
    and later: "\<forall>i \<in> set indices. start_of targets i \<le> start_of targets j"
  shows "runs_ok targets gap (indices @ [j]) (mergeStep targets gap runs j)"
proof (cases runs rule: rev_cases)
  case Nil
  with ok show ?thesis by (simp add: runs_ok_def mergeStep_def Let_def)
next
  case (snoc rs r)
  have "\<exists>i \<in> set (targetIndices r). mr_startAddress r = start_of targets i"
    using ok snoc by (simp add: runs_ok_def)
  moreover have "set (targetIndices r) \<subseteq> set indices"
    using ok snoc by (auto simp: runs_ok_def)
  ultimately have r: "mr_startAddress r \<le> start_of targets j" using later by auto
  show ?thesis
  proof (cases "start_of targets j - mr_endAddressExclusive r > gap")
    case True
    then have "mergeStep targets gap runs j = runs @ [\<lparr>mr_startAddress = start_of targets j,
        mr_endAddressExclusive = end_of targets j, targetIndices = [j]\<rparr>]"
      using snoc by (simp add: mergeStep_def Let_def)
    with ok True r snoc show ?thesis
      by (fastforce simp: runs_ok_def sorted_wrt_append)
  next
    case False
    then have "mergeStep targets gap runs j = rs @ [r\<lparr>
        mr_endAddressExclusive := max (mr_endAddressExclusive r) (end_of targets j),
        targetIndices := targetIndices r @ [j]\<rparr>]"
      using snoc by (simp add: mergeStep_def Let_def)
    with ok r snoc show ?thesis
      by (auto simp: runs_ok_def sorted_wrt_append max_def)
  qed
qed

lemma mergeByGap_ok:
  assumes "sorted (map (start_of targets) indices)"
  shows "runs_ok targets gap indices (mergeByGap targets indices gap)"
  using assms
proof (induction indices rule: rev_induct)
  case Nil
  then show ?case by (simp add: mergeByGap_def runs_ok_def)
next
  case (snoc j indices)
  then show ?case
    using mergeStep_ok [of targets gap indices "mergeByGap targets indices gap" j]
    by (auto simp: mergeByGap_def sorted_append)
qed

lemma groupIndices_set: "set (groupIndices targets key) = {i. i < length targets \<and> keyOf (targets ! i) = key}"
  by (auto simp: groupIndices_def)

lemma groupIndices_distinct: "distinct (groupIndices targets key)"
  by (simp add: groupIndices_def)

lemma groupIndices_sorted: "sorted (map (start_of targets) (groupIndices targets key))"
proof -
  have "sorted (map (\<lambda>i. pt_startAddress (targets ! i)) (groupIndices targets key))"
    by (simp add: groupIndices_def)
  then show ?thesis
    by (simp add: sorted_wrt_map word_le_def)
qed

lemma groupRuns_ok: "runs_ok targets (maxGapToBridge options) (groupIndices targets key) (groupRuns targets options key)"
  unfolding groupRuns_def by (rule mergeByGap_ok [OF groupIndices_sorted])

lemma collect_keys:
  defines "add \<equiv> \<lambda>keys t. if keyOf t \<in> set keys then keys else keys @ [keyOf t]"
  shows "set (foldl add ks targets) = set ks \<union> keyOf ` set targets"
    and "distinct ks \<Longrightarrow> distinct (foldl add ks targets)"
  by (induction targets arbitrary: ks) (auto simp: add_def)

lemma groupKeys_set: "set (groupKeys targets) = keyOf ` set targets"
  by (simp add: groupKeys_def collect_keys(1))

lemma groupKeys_distinct: "distinct (groupKeys targets)"
  by (simp add: groupKeys_def collect_keys(2))

section \<open>Slices\<close>

definition slice_fits :: "PollTarget list \<Rightarrow> int \<Rightarrow> int \<Rightarrow> CoveredTarget \<Rightarrow> bool" where
  "slice_fits targets chunkStart chunkEnd c \<longleftrightarrow>
     0 < count c \<and> 0 \<le> offsetInPlan c \<and> offsetInPlan c + count c \<le> chunkEnd - chunkStart \<and>
     0 \<le> offsetInTarget c \<and>
     offsetInTarget c + count c \<le> uint (pt_quantity (targets ! targetIndex c)) \<and>
     chunkStart + offsetInPlan c = start_of targets (targetIndex c) + offsetInTarget c"

lemma coveredSlices_fit:
  "c \<in> set (coveredSlices targets cs ce indices) \<Longrightarrow>
   targetIndex c \<in> set indices \<and> slice_fits targets cs ce c"
  by (induction indices)
    (auto simp: Let_def slice_fits_def endAddressExclusive_def split: if_splits)

text \<open>Value number \<open>k\<close> of target \<open>i\<close> is carried by the slice \<open>c\<close>.\<close>

definition carries :: "nat \<Rightarrow> int \<Rightarrow> CoveredTarget \<Rightarrow> bool" where
  "carries i k c \<longleftrightarrow>
     targetIndex c = i \<and> offsetInTarget c \<le> k \<and> k < offsetInTarget c + count c"

lemma carries_slice [simp]:
  "carries i k \<lparr>targetIndex = j, offsetInPlan = a, offsetInTarget = b, count = n\<rparr> \<longleftrightarrow>
     j = i \<and> b \<le> k \<and> k < b + n"
  by (simp add: carries_def)

definition hits :: "nat \<Rightarrow> int \<Rightarrow> ReadRequestPlan list \<Rightarrow> nat" where
  "hits i k plans = length (filter (carries i k) (concat (map covered plans)))"

lemma hits_simps [simp]:
  "hits i k [] = 0"
  "hits i k (p # ps) = length (filter (carries i k) (covered p)) + hits i k ps"
  "hits i k (ps @ qs) = hits i k ps + hits i k qs"
  by (simp_all add: hits_def)

lemma hits_concat: "hits i k (concat pss) = sum_list (map (hits i k) pss)"
  by (induction pss) simp_all

lemma slices_not_member:
  "i \<notin> set indices \<Longrightarrow> filter (carries i k) (coveredSlices targets cs ce indices) = []"
  using coveredSlices_fit [of _ targets cs ce indices] by (fastforce simp: filter_empty_conv carries_def)

lemma slices_hit:
  assumes "distinct indices" "0 \<le> k" "k < uint (pt_quantity (targets ! i))"
  shows "length (filter (carries i k) (coveredSlices targets cs ce indices)) =
    (if i \<in> set indices \<and> cs \<le> start_of targets i + k \<and> start_of targets i + k < ce then 1 else 0)"
  using assms(1)
proof (induction indices)
  case (Cons j indices)
  show ?case
  proof (cases "j = i")
    case True
    with Cons.prems slices_not_member [of i indices k targets cs ce] assms(2,3) show ?thesis
      by (auto simp: Let_def endAddressExclusive_def)
  next
    case False
    with Cons show ?thesis by (auto simp: Let_def)
  qed
qed simp

lemma planForChunk_hits:
  "hits i k (map (\<lambda>cs. planForChunk targets run key cs (f cs)) xs)
     = sum_list (map (\<lambda>cs. length (filter (carries i k)
         (coveredSlices targets cs (f cs) (targetIndices run)))) xs)"
  by (induction xs) (simp_all add: planForChunk_def)

lemma runPlans_hits:
  assumes "distinct (targetIndices run)" "0 \<le> k" "k < uint (pt_quantity (targets ! i))" "0 < m"
    and "i \<in> set (targetIndices run) \<Longrightarrow>
           mr_startAddress run \<le> start_of targets i \<and> end_of targets i \<le> mr_endAddressExclusive run"
  shows "hits i k (runPlans targets key m run) = (if i \<in> set (targetIndices run) then 1 else 0)"
proof (cases "i \<in> set (targetIndices run)")
  case True
  with assms have "mr_startAddress run \<le> start_of targets i + k"
    "start_of targets i + k < mr_endAddressExclusive run"
    by (auto simp: endAddressExclusive_def)
  from chunk_hits [OF this assms(4)] True show ?thesis
    by (simp add: runPlans_def planForChunk_hits slices_hit [OF assms(1-3)])
next
  case False
  then show ?thesis
    by (simp add: runPlans_def planForChunk_hits slices_hit [OF assms(1-3)])
qed

lemma indicator_sum_concat:
  "distinct (concat xss) \<Longrightarrow>
   sum_list (map (\<lambda>xs. if i \<in> set xs then 1 else 0 :: nat) xss) = (if i \<in> set (concat xss) then 1 else 0)"
  by (induction xss) auto

lemma indicator_sum_distinct:
  "distinct xs \<Longrightarrow> sum_list (map (\<lambda>x. if x = a then 1 else 0 :: nat) xs) = (if a \<in> set xs then 1 else 0)"
  by (induction xs) auto

lemma groupPlans_hits:
  assumes pos: "positive_options options" and k: "0 \<le> k" "k < uint (pt_quantity (targets ! i))"
  shows "hits i k (groupPlans targets options key) =
           (if i < length targets \<and> keyOf (targets ! i) = key then 1 else 0)"
proof -
  let ?runs = "groupRuns targets options key"
  have ok: "runs_ok targets (maxGapToBridge options) (groupIndices targets key) ?runs"
    by (rule groupRuns_ok)
  then have all: "concat (map targetIndices ?runs) = groupIndices targets key"
    by (simp add: runs_ok_def)
  then have dist: "distinct (concat (map targetIndices ?runs))"
    by (simp add: groupIndices_distinct)
  have "hits i k (runPlans targets key (maxCountFor options (gk_registerType key)) r)
          = (if i \<in> set (targetIndices r) then 1 else 0)" if "r \<in> set ?runs" for r
  proof (rule runPlans_hits [OF _ k maxCountFor_positive [OF pos]])
    show "distinct (targetIndices r)" using dist that by (auto simp: distinct_concat_iff)
  qed (use ok that in \<open>auto simp: runs_ok_def\<close>)
  then have "hits i k (groupPlans targets options key)
      = sum_list (map (\<lambda>xs. if i \<in> set xs then 1 else 0) (map targetIndices ?runs))"
    unfolding groupPlans_def hits_concat map_map by (intro arg_cong [of _ _ sum_list]) simp
  also have "\<dots> = (if i \<in> set (groupIndices targets key) then 1 else 0)"
    by (simp only: indicator_sum_concat [OF dist] all)
  finally show ?thesis by (simp add: groupIndices_set)
qed

section \<open>Properties of the coalescer\<close>

lemma coalesce_hits:
  assumes "positive_options options" and "coalesce targets options = Some plans"
    and "i < length targets" and "0 \<le> k" and "k < uint (pt_quantity (targets ! i))"
  shows "hits i k plans = 1"
proof -
  let ?key = "keyOf (targets ! i)"
  have plans: "plans = concat (map (groupPlans targets options) (groupKeys targets))"
    using assms(1,2) coalesce_eq by simp
  have "hits i k plans = sum_list (map (\<lambda>key. if key = ?key then 1 else 0) (groupKeys targets))"
    unfolding plans hits_concat map_map comp_def groupPlans_hits [OF assms(1,4,5)]
    using assms(3) by (intro arg_cong [of _ _ sum_list]) auto
  also have "\<dots> = 1"
    using assms(3) by (simp add: indicator_sum_distinct groupKeys_distinct groupKeys_set)
  finally show ?thesis .
qed

text \<open>C10: every value of every target is fetched exactly once: among all slices of all plans exactly
  one carries value number \<open>k\<close> of target \<open>i\<close>, whatever the overlaps between targets, the gaps
  and the splitting by request size.\<close>

theorem coalesce_covers_exactly_once:
  assumes "positive_options options" and "coalesce targets options = Some plans"
    and "i < length targets" and "0 \<le> k" and "k < uint (pt_quantity (targets ! i))"
  shows "hits i k plans = 1"
  by (rule coalesce_hits [OF assms])

theorem coalesce_covers_exactly_once_witness:
  "\<exists>plans. coalesce [\<lparr>pt_unitId = 1, pt_registerType = HoldingRegister, pt_startAddress = 100, pt_quantity = 130\<rparr>,
                     \<lparr>pt_unitId = 1, pt_registerType = HoldingRegister, pt_startAddress = 98, pt_quantity = 4\<rparr>]
             defaultCoalescingOptions = Some plans \<and> hits 0 129 plans = 1 \<and> hits 1 3 plans = 1"
proof -
  let ?ts = "[\<lparr>pt_unitId = 1, pt_registerType = HoldingRegister, pt_startAddress = 100, pt_quantity = 130\<rparr>,
              \<lparr>pt_unitId = 1, pt_registerType = HoldingRegister, pt_startAddress = 98, pt_quantity = 4\<rparr>]"
  have pos: "positive_options defaultCoalescingOptions"
    by (simp add: positive_options_def defaultCoalescingOptions_def MaxBitsPerReadRequest_def
        MaxRegistersPerReadRequest_def)
  then obtain plans where plans: "coalesce ?ts defaultCoalescingOptions = Some plans"
    using coalesce_eq by blast
  show ?thesis
    using plans coalesce_covers_exactly_once [OF pos plans, of 0 129]
      coalesce_covers_exactly_once [OF pos plans, of 1 3] by simp
qed

definition valid_options :: "CoalescingOptions \<Rightarrow> bool" where
  "valid_options options \<longleftrightarrow>
     0 \<le> maxGapToBridge options \<and>
     0 < maxBitsPerRequest options \<and> maxBitsPerRequest options \<le> 65535 \<and>
     0 < maxRegistersPerRequest options \<and> maxRegistersPerRequest options \<le> 65535"

lemma valid_positive: "valid_options options \<Longrightarrow> positive_options options"
  by (simp add: valid_options_def positive_options_def)

lemma valid_maxCount: "valid_options options \<Longrightarrow> 0 < maxCountFor options t \<and> maxCountFor options t \<le> 65535"
  by (simp add: valid_options_def maxCountFor_def)

text \<open>No target runs past the last wire address.\<close>

definition in_address_space :: "PollTarget list \<Rightarrow> bool" where
  "in_address_space targets \<longleftrightarrow> list_all (\<lambda>t. endAddressExclusive t \<le> 65536) targets"

definition plan_fits :: "PollTarget list \<Rightarrow> CoalescingOptions \<Rightarrow> ReadRequestPlan \<Rightarrow> bool" where
  "plan_fits targets options p \<longleftrightarrow>
     0 < uint (rp_quantity p) \<and> uint (rp_quantity p) \<le> maxCountFor options (rp_registerType p) \<and>
     list_all (\<lambda>c. targetIndex c < length targets \<and>
         pt_unitId (targets ! targetIndex c) = rp_unitId p \<and>
         pt_registerType (targets ! targetIndex c) = rp_registerType p \<and>
         slice_fits targets (uint (rp_startAddress p)) (uint (rp_startAddress p) + uint (rp_quantity p)) c)
       (covered p)"

lemma groupRuns_bounds:
  assumes "in_address_space targets" and "r \<in> set (groupRuns targets options key)"
  shows "0 \<le> mr_startAddress r \<and> mr_endAddressExclusive r \<le> 65536"
proof -
  have ok: "runs_ok targets (maxGapToBridge options) (groupIndices targets key) (groupRuns targets options key)"
    by (rule groupRuns_ok)
  then have sub: "set (targetIndices r) \<subseteq> {i. i < length targets}"
    using runs_ok_subset [OF _ assms(2)] groupIndices_set [of targets key] by blast
  obtain i j where "mr_startAddress r = start_of targets i"
    "j \<in> set (targetIndices r)" "mr_endAddressExclusive r = end_of targets j"
    using ok assms(2) by (fastforce simp: runs_ok_def)
  with assms(1) sub show ?thesis
    by (auto simp: in_address_space_def list_all_length)
qed

text \<open>What is known about one plan: its group, its run and its chunk, and its length.\<close>

lemma groupPlans_chunk:
  assumes "valid_options options" and "p \<in> set (groupPlans targets options key)"
  obtains run cs ce where "run \<in> set (groupRuns targets options key)"
    and "cs \<in> set (chunkStarts (mr_startAddress run) (mr_endAddressExclusive run)
           (maxCountFor options (gk_registerType key)))"
    and "ce = min (cs + maxCountFor options (gk_registerType key)) (mr_endAddressExclusive run)"
    and "p = planForChunk targets run key cs ce" and "cs < ce" and "uint (rp_quantity p) = ce - cs"
proof -
  let ?m = "maxCountFor options (gk_registerType key)"
  from assms(2) obtain run cs where run: "run \<in> set (groupRuns targets options key)"
    and cs: "cs \<in> set (chunkStarts (mr_startAddress run) (mr_endAddressExclusive run) ?m)"
    and p: "p = planForChunk targets run key cs (min (cs + ?m) (mr_endAddressExclusive run))"
    by (auto simp: groupPlans_def runPlans_def)
  define ce where "ce = min (cs + ?m) (mr_endAddressExclusive run)"
  have ce: "cs < ce" "ce - cs \<le> 65535"
    using chunkStarts_bounds [OF cs] valid_maxCount [OF assms(1), of "gk_registerType key"]
    by (auto simp: ce_def)
  have "uint (rp_quantity p) = ce - cs"
    unfolding p planForChunk_def ReadRequestPlan.simps ce_def [symmetric]
    using ce by (intro of_int_u16_uint) auto
  then show thesis using that [OF run cs ce_def] p ce by (simp add: ce_def)
qed

lemma groupPlans_start:
  assumes "in_address_space targets" and "run \<in> set (groupRuns targets options key)"
    and "cs \<in> set (chunkStarts (mr_startAddress run) (mr_endAddressExclusive run) m)"
  shows "uint (rp_startAddress (planForChunk targets run key cs ce)) = cs"
  unfolding planForChunk_def ReadRequestPlan.simps
  using chunkStarts_bounds [OF assms(3)] groupRuns_bounds [OF assms(1,2)] by (intro of_int_u16_uint) auto

lemma coalesce_plans:
  assumes "positive_options options" and "coalesce targets options = Some plans"
  shows "plans = concat (map (groupPlans targets options) (groupKeys targets))"
  using assms coalesce_eq by simp

text \<open>Lengths, targets and offsets of a plan's slices, whether or not its start address wrapped.\<close>

definition slices_within :: "PollTarget list \<Rightarrow> CoalescingOptions \<Rightarrow> ReadRequestPlan \<Rightarrow> bool" where
  "slices_within targets options p \<longleftrightarrow>
     0 < uint (rp_quantity p) \<and> uint (rp_quantity p) \<le> maxCountFor options (rp_registerType p) \<and>
     (\<forall>c \<in> set (covered p). targetIndex c < length targets \<and>
         pt_unitId (targets ! targetIndex c) = rp_unitId p \<and>
         pt_registerType (targets ! targetIndex c) = rp_registerType p \<and>
         0 < count c \<and> 0 \<le> offsetInPlan c \<and> offsetInPlan c + count c \<le> uint (rp_quantity p) \<and>
         0 \<le> offsetInTarget c \<and> offsetInTarget c + count c \<le> uint (pt_quantity (targets ! targetIndex c)))"

lemma coalesce_plan_cases:
  assumes "valid_options options" and "coalesce targets options = Some plans" and "p \<in> set plans"
  obtains key run cs ce where "run \<in> set (groupRuns targets options key)"
    and "cs \<in> set (chunkStarts (mr_startAddress run) (mr_endAddressExclusive run)
           (maxCountFor options (gk_registerType key)))"
    and "p = planForChunk targets run key cs ce" and "uint (rp_quantity p) = ce - cs"
    and "slices_within targets options p"
    and "\<forall>c \<in> set (covered p). slice_fits targets cs ce c"
proof -
  from assms obtain key where "p \<in> set (groupPlans targets options key)"
    using coalesce_plans [OF valid_positive [OF assms(1)] assms(2)] by auto
  from groupPlans_chunk [OF assms(1) this] obtain run cs ce
    where run: "run \<in> set (groupRuns targets options key)"
      and cs: "cs \<in> set (chunkStarts (mr_startAddress run) (mr_endAddressExclusive run)
           (maxCountFor options (gk_registerType key)))"
      and ce: "ce = min (cs + maxCountFor options (gk_registerType key)) (mr_endAddressExclusive run)"
      and p: "p = planForChunk targets run key cs ce" and w: "cs < ce" "uint (rp_quantity p) = ce - cs" .
  have "set (targetIndices run) \<subseteq> set (groupIndices targets key)"
    by (rule runs_ok_subset [OF groupRuns_ok run])
  then have all: "targetIndex c < length targets \<and> keyOf (targets ! targetIndex c) = key \<and>
      slice_fits targets cs ce c" if "c \<in> set (covered p)" for c
    using that coveredSlices_fit [of c targets cs ce "targetIndices run"] groupIndices_set [of targets key]
    by (auto simp: p planForChunk_def)
  then have "targetIndex c < length targets \<and>
      pt_unitId (targets ! targetIndex c) = rp_unitId p \<and>
      pt_registerType (targets ! targetIndex c) = rp_registerType p"
    if "c \<in> set (covered p)" for c
    using that by (cases key) (auto simp: keyOf_def p planForChunk_def)
  moreover have "ce - cs \<le> maxCountFor options (rp_registerType p)"
    using ce by (simp add: p planForChunk_def)
  ultimately have "slices_within targets options p"
    using w all by (auto simp: slices_within_def slice_fits_def)
  with that run cs p w all show thesis by blast
qed

lemma coalesce_slices_within:
  "valid_options options \<Longrightarrow> coalesce targets options = Some plans \<Longrightarrow> p \<in> set plans \<Longrightarrow>
   slices_within targets options p"
  by (rule coalesce_plan_cases)

lemma coalesce_slices_aligned:
  assumes "valid_options options" and "coalesce targets options = Some plans" and "p \<in> set plans"
    and "in_address_space targets" and "c \<in> set (covered p)"
  shows "uint (rp_startAddress p) + offsetInPlan c = start_of targets (targetIndex c) + offsetInTarget c"
proof -
  from assms(1-3) obtain key run cs ce where run: "run \<in> set (groupRuns targets options key)"
    and cs: "cs \<in> set (chunkStarts (mr_startAddress run) (mr_endAddressExclusive run)
           (maxCountFor options (gk_registerType key)))"
    and p: "p = planForChunk targets run key cs ce"
    and fit: "\<forall>c \<in> set (covered p). slice_fits targets cs ce c"
    by (rule coalesce_plan_cases)
  have "uint (rp_startAddress p) = cs" unfolding p by (rule groupPlans_start [OF assms(4) run cs])
  with fit assms(5) show ?thesis by (auto simp: slice_fits_def)
qed

text \<open>C20: every plan the coalescer produces is a legal request (between one value and the per-request
  maximum) for one device and region, and each of its slices lies inside the plan's answer, inside
  the target's values, and pairs equal addresses, provided no target runs past address 65535.\<close>

theorem coalesce_plans_fit:
  assumes "valid_options options" and "in_address_space targets"
    and "coalesce targets options = Some plans"
  shows "list_all (plan_fits targets options) plans"
  unfolding list_all_iff
proof
  fix p assume p: "p \<in> set plans"
  from coalesce_slices_within [OF assms(1,3) p] coalesce_slices_aligned [OF assms(1,3) p assms(2)]
  show "plan_fits targets options p"
    by (auto simp: plan_fits_def slices_within_def slice_fits_def list_all_iff)
qed

text \<open>A target spanning two requests, for the witnesses.\<close>

definition longTarget :: PollTarget where
  "longTarget = \<lparr>pt_unitId = 1, pt_registerType = HoldingRegister, pt_startAddress = 100, pt_quantity = 130\<rparr>"

lemma default_options_valid: "valid_options defaultCoalescingOptions"
  by (simp add: valid_options_def defaultCoalescingOptions_def MaxBitsPerReadRequest_def
      MaxRegistersPerReadRequest_def)

lemma longTarget_in_space: "in_address_space [longTarget]"
  by (simp add: in_address_space_def longTarget_def endAddressExclusive_def)

theorem coalesce_plans_fit_witness:
  "\<exists>plans. coalesce [longTarget] defaultCoalescingOptions = Some plans \<and>
     list_all (plan_fits [longTarget] defaultCoalescingOptions) plans"
proof -
  obtain plans where plans: "coalesce [longTarget] defaultCoalescingOptions = Some plans"
    using coalesce_eq [OF valid_positive [OF default_options_valid]] by blast
  show ?thesis
    using coalesce_plans_fit [OF default_options_valid longTarget_in_space plans] plans by blast
qed

definition plan_before :: "ReadRequestPlan \<Rightarrow> ReadRequestPlan \<Rightarrow> bool" where
  "plan_before p q \<longleftrightarrow>
     GroupKey (rp_unitId p) (rp_registerType p) < GroupKey (rp_unitId q) (rp_registerType q) \<or>
     (rp_unitId p = rp_unitId q \<and> rp_registerType p = rp_registerType q \<and>
      uint (rp_startAddress p) + uint (rp_quantity p) \<le> uint (rp_startAddress q))"

lemma plan_key:
  "p \<in> set (groupPlans targets options key) \<Longrightarrow> GroupKey (rp_unitId p) (rp_registerType p) = key"
  by (auto simp: groupPlans_def runPlans_def planForChunk_def)

lemma runPlans_sorted:
  assumes "valid_options options" and "in_address_space targets"
    and "run \<in> set (groupRuns targets options key)"
    and m: "m = maxCountFor options (gk_registerType key)"
  shows "sorted_wrt plan_before (runPlans targets key m run)"
proof -
  let ?s = "mr_startAddress run" and ?e = "mr_endAddressExclusive run"
  let ?plan = "\<lambda>cs. planForChunk targets run key cs (min (cs + m) ?e)"
  have words: "uint (rp_startAddress (?plan cs)) = cs \<and> uint (rp_quantity (?plan cs)) = min (cs + m) ?e - cs"
    if "cs \<in> set (chunkStarts ?s ?e m)" for cs
    using chunkStarts_bounds [OF that] groupRuns_bounds [OF assms(2,3)]
      valid_maxCount [OF assms(1), of "gk_registerType key"]
    unfolding planForChunk_def ReadRequestPlan.simps m by (intro conjI of_int_u16_uint) auto
  have "sorted_wrt (\<lambda>a b. plan_before (?plan a) (?plan b)) (chunkStarts ?s ?e m)"
  proof (rule sorted_wrt_mono_rel [OF _ chunkStarts_sorted [of m ?s ?e]])
    fix a b assume "a \<in> set (chunkStarts ?s ?e m)" "b \<in> set (chunkStarts ?s ?e m)" "a + m \<le> b"
    then show "plan_before (?plan a) (?plan b)"
      using words [of a] words [of b] unfolding plan_before_def by (simp add: planForChunk_def)
  qed
  then show ?thesis by (simp add: runPlans_def sorted_wrt_map)
qed

lemma groupPlans_sorted:
  assumes "valid_options options" and "in_address_space targets"
  shows "sorted_wrt plan_before (groupPlans targets options key)"
proof -
  let ?runs = "groupRuns targets options key"
  let ?m = "maxCountFor options (gk_registerType key)"
  have elim: "GroupKey (rp_unitId p) (rp_registerType p) = key \<and>
      mr_startAddress r \<le> uint (rp_startAddress p) \<and>
      uint (rp_startAddress p) + uint (rp_quantity p) \<le> mr_endAddressExclusive r"
    if r: "r \<in> set ?runs" and p: "p \<in> set (runPlans targets key ?m r)" for r p
  proof -
    obtain cs where cs: "cs \<in> set (chunkStarts (mr_startAddress r) (mr_endAddressExclusive r) ?m)"
      and p: "p = planForChunk targets r key cs (min (cs + ?m) (mr_endAddressExclusive r))"
      using p by (auto simp: runPlans_def)
    have "uint (rp_startAddress p) = cs \<and>
        uint (rp_quantity p) = min (cs + ?m) (mr_endAddressExclusive r) - cs"
      using chunkStarts_bounds [OF cs] groupRuns_bounds [OF assms(2) r]
        valid_maxCount [OF assms(1), of "gk_registerType key"]
      unfolding p planForChunk_def ReadRequestPlan.simps by (intro conjI of_int_u16_uint) auto
    then show ?thesis
      using chunkStarts_bounds [OF cs] by (simp add: p planForChunk_def)
  qed
  have gap: "sorted_wrt (\<lambda>r r'. mr_endAddressExclusive r + maxGapToBridge options < mr_startAddress r') ?runs"
    using groupRuns_ok [of targets options key] by (simp add: runs_ok_def)
  have "sorted_wrt (\<lambda>r r'. \<forall>p \<in> set (runPlans targets key ?m r).
      \<forall>q \<in> set (runPlans targets key ?m r'). plan_before p q) ?runs"
  proof (rule sorted_wrt_mono_rel [OF _ gap], intro ballI)
    fix r r' p q
    assume r: "r \<in> set ?runs" and r': "r' \<in> set ?runs"
      and "mr_endAddressExclusive r + maxGapToBridge options < mr_startAddress r'"
      and p: "p \<in> set (runPlans targets key ?m r)" and q: "q \<in> set (runPlans targets key ?m r')"
    with elim [OF r p] elim [OF r' q] assms(1) show "plan_before p q"
      by (auto simp: plan_before_def valid_options_def)
  qed
  with runPlans_sorted [OF assms _ refl] show ?thesis
    by (simp add: groupPlans_def sorted_wrt_concat sorted_wrt_map)
qed

lemma groupKeys_sorted: "sorted_wrt (<) (groupKeys targets)"
  using groupKeys_distinct [of targets] by (simp add: strict_sorted_iff groupKeys_def)

text \<open>The plans come out strictly ordered by device, region and address, and two plans for the same
  device and region never read the same address twice.\<close>

theorem coalesce_plans_ordered:
  assumes "valid_options options" and "in_address_space targets"
    and "coalesce targets options = Some plans"
  shows "sorted_wrt plan_before plans"
proof -
  have "sorted_wrt (\<lambda>k k'. \<forall>p \<in> set (groupPlans targets options k).
      \<forall>q \<in> set (groupPlans targets options k'). plan_before p q) (groupKeys targets)"
    by (rule sorted_wrt_mono_rel [OF _ groupKeys_sorted])
      (auto simp: plan_before_def dest!: plan_key)
  then show ?thesis
    unfolding coalesce_plans [OF valid_positive [OF assms(1)] assms(3)] sorted_wrt_concat sorted_wrt_map
    using groupPlans_sorted [OF assms(1,2)] by simp
qed

theorem coalesce_plans_ordered_witness:
  "\<exists>plans. coalesce [longTarget] defaultCoalescingOptions = Some plans \<and> sorted_wrt plan_before plans"
proof -
  obtain plans where plans: "coalesce [longTarget] defaultCoalescingOptions = Some plans"
    using coalesce_eq [OF valid_positive [OF default_options_valid]] by blast
  show ?thesis
    using coalesce_plans_ordered [OF default_options_valid longTarget_in_space plans] plans by blast
qed

section \<open>What a planner of reads promises\<close>

text \<open>
  The contract the poll engine relies on: plans exist, their slices stay inside the answers and
  inside the targets, equal addresses are paired, and every value of every target is carried.
\<close>

locale read_planner =
  fixes planner :: "PollTarget list \<Rightarrow> CoalescingOptions \<Rightarrow> ReadRequestPlan list option"
    and accepted :: "CoalescingOptions \<Rightarrow> bool"
  assumes plans_exist: "accepted options \<Longrightarrow> \<exists>plans. planner targets options = Some plans"
    and plans_within: "accepted options \<Longrightarrow> planner targets options = Some plans \<Longrightarrow>
          p \<in> set plans \<Longrightarrow> slices_within targets options p"
    and plans_aligned: "accepted options \<Longrightarrow> planner targets options = Some plans \<Longrightarrow>
          p \<in> set plans \<Longrightarrow> in_address_space targets \<Longrightarrow> c \<in> set (covered p) \<Longrightarrow>
          uint (rp_startAddress p) + offsetInPlan c = start_of targets (targetIndex c) + offsetInTarget c"
    and plans_cover: "accepted options \<Longrightarrow> planner targets options = Some plans \<Longrightarrow>
          i < length targets \<Longrightarrow> 0 \<le> k \<Longrightarrow> k < uint (pt_quantity (targets ! i)) \<Longrightarrow> hits i k plans = 1"
begin

lemma value_carried:
  assumes "accepted options" "planner targets options = Some plans"
    and "i < length targets" "0 \<le> k" "k < uint (pt_quantity (targets ! i))"
  shows "\<exists>p \<in> set plans. \<exists>c \<in> set (covered p). carries i k c"
proof -
  have "filter (carries i k) (concat (map covered plans)) \<noteq> []"
    using plans_cover [OF assms] by (auto simp: hits_def)
  then show ?thesis by (auto simp: filter_empty_conv)
qed

end

interpretation coalescer: read_planner coalesce valid_options
proof
  show "valid_options options \<Longrightarrow> \<exists>plans. coalesce targets options = Some plans" for options targets
    using coalesce_eq [OF valid_positive] by blast
qed (blast intro: coalesce_slices_within coalesce_slices_aligned coalesce_hits valid_positive)+

section \<open>When the chopping does not end, and when addresses wrap\<close>

lemma chunkLoop_diverges:
  assumes "m \<le> 0" and "s < mr_endAddressExclusive run"
  shows "chunkLoop targets run key m s plans = None"
proof -
  have "False" if "chunkLoop targets run key m s plans = Some result" for result
  proof -
    have "m \<le> 0 \<longrightarrow> \<not> s < mr_endAddressExclusive run"
    proof (rule chunkLoop.raw_induct
        [where P = "\<lambda>targets run key m s plans y. m \<le> 0 \<longrightarrow> \<not> s < mr_endAddressExclusive run", OF _ that])
      fix loop targets run key m s plans y
      assume IH: "\<And>targets run key m s plans y. loop targets run key m s plans = Some y \<Longrightarrow>
          m \<le> 0 \<longrightarrow> \<not> s < mr_endAddressExclusive (run :: MergedRun)"
        and step: "(if s < mr_endAddressExclusive run
           then let chunkEnd = min (s + m) (mr_endAddressExclusive run)
             in loop targets run key m (s + m) (plans @ [planForChunk targets run key s chunkEnd])
           else Some plans) = Some y"
      show "m \<le> 0 \<longrightarrow> \<not> s < mr_endAddressExclusive run"
        using IH [of targets run key m "s + m"] step by (auto simp: Let_def split: if_splits)
    qed
    with assms show False by simp
  qed
  then show ?thesis by (cases "chunkLoop targets run key m s plans") auto
qed

lemma plansForRuns_diverges:
  "m \<le> 0 \<Longrightarrow> \<exists>r \<in> set runs. mr_startAddress r < mr_endAddressExclusive r \<Longrightarrow>
   plansForRuns targets key m runs plans = None"
proof (induction runs arbitrary: plans)
  case (Cons r runs)
  show ?case
  proof (cases "mr_startAddress r < mr_endAddressExclusive r")
    case True
    with Cons.prems show ?thesis by (simp add: appendPlansForRun_def chunkLoop_diverges)
  next
    case False
    with Cons have "\<And>plans. plansForRuns targets key m runs plans = None" by auto
    then show ?thesis by (simp add: Option.bind_eq_None_conv split: bind_splits)
  qed
qed simp

lemma plansForKeys_diverges:
  assumes "key \<in> set keys"
    and "\<And>plans. plansForRuns targets key (maxCountFor options (gk_registerType key))
            (groupRuns targets options key) plans = None"
  shows "plansForKeys targets options keys plans = None"
  using assms(1)
proof (induction keys arbitrary: plans)
  case (Cons k keys)
  show ?case
  proof (cases "k = key")
    case True
    with assms(2) show ?thesis by (simp add: Let_def groupRuns_def)
  next
    case False
    with Cons have "\<And>plans. plansForKeys targets options keys plans = None" by simp
    then show ?thesis by (simp add: Let_def split: bind_splits)
  qed
qed simp

lemma runs_nonempty_if_quantity:
  assumes "i < length targets" and "0 < uint (pt_quantity (targets ! i))"
  shows "\<exists>r \<in> set (groupRuns targets options (keyOf (targets ! i))).
           mr_startAddress r < mr_endAddressExclusive r"
proof -
  let ?key = "keyOf (targets ! i)"
  have ok: "runs_ok targets (maxGapToBridge options) (groupIndices targets ?key)
              (groupRuns targets options ?key)"
    by (rule groupRuns_ok)
  have "concat (map targetIndices (groupRuns targets options ?key)) = groupIndices targets ?key"
    using ok by (simp add: runs_ok_def)
  moreover have "i \<in> set (groupIndices targets ?key)" using assms(1) by (simp add: groupIndices_set)
  ultimately have "i \<in> set (concat (map targetIndices (groupRuns targets options ?key)))" by simp
  then obtain r where r: "r \<in> set (groupRuns targets options ?key)" "i \<in> set (targetIndices r)"
    by auto
  with ok have "mr_startAddress r \<le> start_of targets i" "end_of targets i \<le> mr_endAddressExclusive r"
    by (auto simp: runs_ok_def)
  with assms(2) r(1) show ?thesis by (intro bexI [of _ r]) (auto simp: endAddressExclusive_def)
qed



lemma longRun_plans:
  "mergeByGap [t] [0] g = [\<lparr>mr_startAddress = uint (pt_startAddress t),
     mr_endAddressExclusive = endAddressExclusive t, targetIndices = [0]\<rparr>]"
  by (simp add: mergeByGap_def mergeStep_def)

text \<open>A target that runs past address 65535 makes the second request wrap around: two hundred
  registers from 65500 are read as 125 from 65500 and 75 from address 89.\<close>

theorem coalesce_wraps_past_the_last_address:
  "map_option (map (\<lambda>p. (rp_startAddress p, rp_quantity p)))
     (coalesce [\<lparr>pt_unitId = 1, pt_registerType = HoldingRegister,
                 pt_startAddress = 65500, pt_quantity = 200\<rparr>] defaultCoalescingOptions)
   = Some [(65500, 125), (89, 75)]"
  by (simp add: coalesce_def groupKeys_def groupIndices_def keyOf_def longRun_plans Let_def
      maxCountFor_def isBitRegisterType_def defaultCoalescingOptions_def MaxRegistersPerReadRequest_def
      endAddressExclusive_def appendPlansForRun_def chunkLoop.simps planForChunk_def)

end
