(* ===== verification/Poll_Engine.thy ===== *)
theory Poll_Engine
  imports Transaction_Manager Read_Coalescer
begin

text \<open>
  \<open>core/poll/PollEngine\<close>: keeps a set of poll targets live. Each cycle sends the coalesced read
  requests with a bounded number in flight, copies the answers into per-target caches and hands
  dirty caches on at every flush.

  \<^item> The engine's members are the record \<open>poll\<close>; its operations work on the engine, the rest of the
    program \<open>'e\<close> and the transaction manager: the state is \<open>(poll \<times> 'e) world\<close>.
  \<^item> \<open>None\<close> is a read or write outside a list, or a coalescing loop that never ends.
  \<^item> \<open>m_intervalTimer\<close> and \<open>m_flushTimer\<close> hold the instant at which the single-shot timer fires.
  \<^item> \<open>signals\<close> is the log of the signals the engine emits.
\<close>

section \<open>State\<close>

record TargetCache =
  tc_registerValues :: "u16 list"
  tc_bitValues :: "bool list"
  tc_dirty :: bool

datatype PollSignal =
    TargetRegistersUpdated nat u16 "u16 list" | TargetBitsUpdated nat u16 "bool list"
  | PollFailed string | TargetFailed nat string | PollCycleCompleted

record poll =
  m_intervalTimer :: "int option"
  m_flushTimer :: "int option"
  m_targets :: "PollTarget list"
  m_plans :: "ReadRequestPlan list"
  m_caches :: "TargetCache list"
  m_coalescingOptions :: CoalescingOptions
  m_intervalMs :: int
  m_maxInFlight :: int
  m_running :: bool
  m_generation :: u32
  m_nextPlanIndex :: int
  m_requestsOutstanding :: int
  signals :: "PollSignal list"

definition DefaultMaxInFlight :: int where "DefaultMaxInFlight = 8"
definition FlushIntervalMs :: int where "FlushIntervalMs = 16"

definition newPollEngine :: poll where
  "newPollEngine =
     \<lparr>m_intervalTimer = None, m_flushTimer = None, m_targets = [], m_plans = [], m_caches = [],
      m_coalescingOptions = defaultCoalescingOptions, m_intervalMs = 1000,
      m_maxInFlight = DefaultMaxInFlight, m_running = False, m_generation = 0,
      m_nextPlanIndex = 0, m_requestsOutstanding = 0, signals = []\<rparr>"

type_synonym 'e app = "(poll \<times> 'e) world"

abbreviation poll_of :: "'e app \<Rightarrow> poll" where
  "poll_of s \<equiv> fst (fst s)"

definition onPoll :: "(poll \<Rightarrow> poll) \<Rightarrow> 'e app \<Rightarrow> 'e app" where
  "onPoll g = (\<lambda>((p, e), m). ((g p, e), m))"

definition onManager :: "(tmgr \<Rightarrow> tmgr) \<Rightarrow> 'e app \<Rightarrow> 'e app" where
  "onManager g = (\<lambda>(c, m). (c, g m))"

definition emitPoll :: "PollSignal \<Rightarrow> poll \<Rightarrow> poll" where
  "emitPoll e p = p\<lparr>signals := signals p @ [e]\<rparr>"

section \<open>Correlation ids\<close>

definition makeCorrelationId :: "poll \<Rightarrow> int \<Rightarrow> u64" where
  "makeCorrelationId p planIndex =
     push_bit 32 (ucast (m_generation p)) OR ucast (word_of_int planIndex :: u32)"

definition isCurrentGeneration :: "poll \<Rightarrow> u64 \<Rightarrow> bool" where
  "isCurrentGeneration p cid \<longleftrightarrow> (ucast (drop_bit 32 cid) :: u32) = m_generation p"

text \<open>\<open>int(quint32(...))\<close> reads the low half as a signed number.\<close>

definition planIndexOf :: "u64 \<Rightarrow> int" where
  "planIndexOf cid = sint (ucast (cid AND 0xFFFFFFFF) :: u32)"

section \<open>The request window\<close>

definition effectiveWindowSize :: "'e app \<Rightarrow> int" where
  "effectiveWindowSize s = (if supportsPipelining (snd s) then m_maxInFlight (poll_of s) else 1)"

definition setMaxInFlight :: "int \<Rightarrow> poll \<Rightarrow> poll" where
  "setMaxInFlight maxInFlight p = p\<lparr>m_maxInFlight := max 1 maxInFlight\<rparr>"

definition planRequest :: "ReadRequestPlan \<Rightarrow> bytes" where
  "planRequest plan =
     encodeReadRequest (readFunctionCodeFor (rp_registerType plan)) (rp_startAddress plan) (rp_quantity plan)"

partial_function (option) pumpLoop ::
    "(poll \<times> 'e) write_slot \<Rightarrow> int \<Rightarrow> int \<Rightarrow> 'e app \<Rightarrow> 'e app option" where
  "pumpLoop w now window s =
     (let p = poll_of s
      in if m_running p \<and> m_nextPlanIndex p < int (length (m_plans p))
            \<and> m_requestsOutstanding p < window
         then Option.bind (list_at (m_plans p) (m_nextPlanIndex p)) (\<lambda>plan.
              Option.bind
                (sendRequest w now (rp_unitId plan) (planRequest plan)
                   (makeCorrelationId p (m_nextPlanIndex p))
                   (onPoll (\<lambda>p. p\<lparr>m_requestsOutstanding := m_requestsOutstanding p + 1\<rparr>) s)) (\<lambda>s.
              pumpLoop w now window (onPoll (\<lambda>p. p\<lparr>m_nextPlanIndex := m_nextPlanIndex p + 1\<rparr>) s)))
         else Some s)"

definition pumpRequests :: "(poll \<times> 'e) write_slot \<Rightarrow> int \<Rightarrow> 'e app \<Rightarrow> 'e app option" where
  "pumpRequests w now s = pumpLoop w now (effectiveWindowSize s) s"

definition beginCycle :: "(poll \<times> 'e) write_slot \<Rightarrow> int \<Rightarrow> 'e app \<Rightarrow> 'e app option" where
  "beginCycle w now s =
     (let p = poll_of s
      in if \<not> m_running p \<or> m_plans p = [] then Some s
         else pumpRequests w now
                (onPoll (\<lambda>p. p\<lparr>m_nextPlanIndex := 0, m_requestsOutstanding := 0\<rparr>) s))"

section \<open>Configuration, start and stop\<close>

definition rebuildPlans :: "poll \<Rightarrow> poll option" where
  "rebuildPlans p =
     map_option (\<lambda>plans. p\<lparr>m_plans := plans\<rparr>) (coalesce (m_targets p) (m_coalescingOptions p))"

definition setCoalescingOptions :: "CoalescingOptions \<Rightarrow> poll \<Rightarrow> poll option" where
  "setCoalescingOptions options p = rebuildPlans (p\<lparr>m_coalescingOptions := options\<rparr>)"

definition freshCache :: "PollTarget \<Rightarrow> TargetCache" where
  "freshCache t =
     (if isBitRegisterType (pt_registerType t) then
        \<lparr>tc_registerValues = [], tc_bitValues = replicate (unat (pt_quantity t)) False, tc_dirty = False\<rparr>
      else
        \<lparr>tc_registerValues = replicate (unat (pt_quantity t)) 0, tc_bitValues = [], tc_dirty = False\<rparr>)"

definition setTargets ::
    "(poll \<times> 'e) write_slot \<Rightarrow> int \<Rightarrow> PollTarget list \<Rightarrow> 'e app \<Rightarrow> 'e app option" where
  "setTargets w now targets = (\<lambda>((p, e), m).
     let p = p\<lparr>m_targets := targets, m_generation := m_generation p + 1, m_intervalTimer := None\<rparr>;
         m = cancelAll m
     in Option.bind (rebuildPlans p) (\<lambda>p.
        let p = p\<lparr>m_caches := map freshCache targets\<rparr>
        in if m_running p then beginCycle w now ((p, e), m) else Some ((p, e), m)))"

definition setIntervalMs :: "int \<Rightarrow> int \<Rightarrow> poll \<Rightarrow> poll" where
  "setIntervalMs now intervalMs p =
     (if m_intervalMs p = intervalMs then p
      else let p = p\<lparr>m_intervalMs := intervalMs\<rparr>
           in if m_running p \<and> m_intervalTimer p \<noteq> None
              then p\<lparr>m_intervalTimer := Some (now + m_intervalMs p)\<rparr> else p)"

definition startPoll :: "(poll \<times> 'e) write_slot \<Rightarrow> int \<Rightarrow> 'e app \<Rightarrow> 'e app option" where
  "startPoll w now s =
     (if m_running (poll_of s) then Some s
      else beginCycle w now (onPoll (\<lambda>p. p\<lparr>m_running := True\<rparr>) s))"

definition stopPoll :: "'e app \<Rightarrow> 'e app" where
  "stopPoll s =
     onPoll (\<lambda>p. p\<lparr>m_requestsOutstanding := 0\<rparr>)
       (onManager cancelAll
         (onPoll (\<lambda>p. p\<lparr>m_running := False, m_intervalTimer := None, m_flushTimer := None\<rparr>) s))"

section \<open>Answers and failures\<close>

fun copyValues :: "'v list \<Rightarrow> int \<Rightarrow> int \<Rightarrow> int \<Rightarrow> nat \<Rightarrow> 'v list \<Rightarrow> 'v list option" where
  "copyValues vals inPlan inTarget i 0 destination = Some destination"
| "copyValues vals inPlan inTarget i (Suc n) destination =
     do { v \<leftarrow> list_at vals (inPlan + i);
          destination \<leftarrow> list_put destination (inTarget + i) v;
          copyValues vals inPlan inTarget (i + 1) n destination }"

definition markDirty :: "int \<Rightarrow> nat \<Rightarrow> poll \<Rightarrow> poll option" where
  "markDirty now i p =
     do { cache \<leftarrow> list_at (m_caches p) (int i);
          Some (p\<lparr>m_caches := (m_caches p)[i := cache\<lparr>tc_dirty := True\<rparr>],
                  m_flushTimer := (case m_flushTimer p of
                     None \<Rightarrow> Some (now + FlushIntervalMs) | Some t \<Rightarrow> Some t)\<rparr>) }"

fun applyBits :: "int \<Rightarrow> bool list \<Rightarrow> CoveredTarget list \<Rightarrow> poll \<Rightarrow> poll option" where
  "applyBits now vals [] p = Some p"
| "applyBits now vals (c # cs) p =
     do { cache \<leftarrow> list_at (m_caches p) (int (targetIndex c));
          destination \<leftarrow> copyValues vals (offsetInPlan c) (offsetInTarget c) 0 (nat (count c))
                            (tc_bitValues cache);
          p \<leftarrow> markDirty now (targetIndex c)
                 (p\<lparr>m_caches := (m_caches p)[targetIndex c := cache\<lparr>tc_bitValues := destination\<rparr>]\<rparr>);
          applyBits now vals cs p }"

fun applyRegisters :: "int \<Rightarrow> u16 list \<Rightarrow> CoveredTarget list \<Rightarrow> poll \<Rightarrow> poll option" where
  "applyRegisters now vals [] p = Some p"
| "applyRegisters now vals (c # cs) p =
     do { cache \<leftarrow> list_at (m_caches p) (int (targetIndex c));
          destination \<leftarrow> copyValues vals (offsetInPlan c) (offsetInTarget c) 0 (nat (count c))
                            (tc_registerValues cache);
          p \<leftarrow> markDirty now (targetIndex c)
                 (p\<lparr>m_caches := (m_caches p)[targetIndex c := cache\<lparr>tc_registerValues := destination\<rparr>]\<rparr>);
          applyRegisters now vals cs p }"

text \<open>\<open>pollFailed\<close>, then \<open>targetFailed\<close> for every target the plan was covering.\<close>

definition reportPlanFailure :: "ReadRequestPlan \<Rightarrow> string \<Rightarrow> poll \<Rightarrow> poll" where
  "reportPlanFailure plan reason p =
     foldl (\<lambda>p c. emitPoll (TargetFailed (targetIndex c) reason) p)
       (emitPoll (PollFailed reason) p) (covered plan)"

definition applyPlanResponse :: "int \<Rightarrow> ReadRequestPlan \<Rightarrow> bytes \<Rightarrow> poll \<Rightarrow> poll option" where
  "applyPlanResponse now plan responsePdu p =
     (if isBitRegisterType (rp_registerType plan) then
        do { result \<leftarrow> (if rp_registerType plan = Coil
                        then decodeReadCoilsResponse responsePdu (rp_quantity plan)
                        else decodeReadDiscreteInputsResponse responsePdu (rp_quantity plan));
             (case result of
                Ok r \<Rightarrow> applyBits now (bitValues r) (covered plan) p
              | MalformedFrame _ \<Rightarrow> Some (reportPlanFailure plan (errorMessage result) p)
              | ExceptionResponse _ \<Rightarrow> Some (reportPlanFailure plan (errorMessage result) p)) }
      else
        do { result \<leftarrow> (if rp_registerType plan = HoldingRegister
                        then decodeReadHoldingRegistersResponse responsePdu
                        else decodeReadInputRegistersResponse responsePdu);
             (case result of
                Ok r \<Rightarrow> applyRegisters now (registerValues r) (covered plan) p
              | MalformedFrame _ \<Rightarrow> Some (reportPlanFailure plan (errorMessage result) p)
              | ExceptionResponse _ \<Rightarrow> Some (reportPlanFailure plan (errorMessage result) p)) })"

definition noteRequestSettled :: "(poll \<times> 'e) write_slot \<Rightarrow> int \<Rightarrow> 'e app \<Rightarrow> 'e app option" where
  "noteRequestSettled w now s =
     Option.bind
       (pumpRequests w now
          (onPoll (\<lambda>p. p\<lparr>m_requestsOutstanding := max 0 (m_requestsOutstanding p - 1)\<rparr>) s))
       (\<lambda>s. let p = poll_of s;
                cycleFinished = (m_nextPlanIndex p \<ge> int (length (m_plans p)) \<and> m_requestsOutstanding p = 0)
            in if \<not> cycleFinished then Some s
               else Some (onPoll (\<lambda>p.
                      let p = emitPoll PollCycleCompleted p
                      in if m_running p then p\<lparr>m_intervalTimer := Some (now + m_intervalMs p)\<rparr> else p) s))"

definition handleResponse ::
    "(poll \<times> 'e) write_slot \<Rightarrow> int \<Rightarrow> u64 \<Rightarrow> bytes \<Rightarrow> 'e app \<Rightarrow> 'e app option" where
  "handleResponse w now cid responsePdu s =
     (let p = poll_of s
      in if \<not> m_running p \<or> \<not> isCurrentGeneration p cid then Some s
         else
           let planIndex = planIndexOf cid
           in Option.bind
                (if 0 \<le> planIndex \<and> planIndex < int (length (m_plans p))
                 then map_option (\<lambda>p'. onPoll (\<lambda>_. p') s)
                        (applyPlanResponse now (m_plans p ! nat planIndex) responsePdu p)
                 else Some s)
                (noteRequestSettled w now))"

definition handleFailure ::
    "(poll \<times> 'e) write_slot \<Rightarrow> int \<Rightarrow> u64 \<Rightarrow> string \<Rightarrow> 'e app \<Rightarrow> 'e app option" where
  "handleFailure w now cid reason s =
     (let p = poll_of s
      in if \<not> m_running p \<or> \<not> isCurrentGeneration p cid then Some s
         else
           let planIndex = planIndexOf cid
           in noteRequestSettled w now
                (onPoll (\<lambda>p.
                   if 0 \<le> planIndex \<and> planIndex < int (length (m_plans p))
                   then reportPlanFailure (m_plans p ! nat planIndex) reason p
                   else emitPoll (PollFailed reason) p) s))"

section \<open>Timers\<close>

fun flushFrom :: "nat \<Rightarrow> nat \<Rightarrow> poll \<Rightarrow> poll option" where
  "flushFrom i 0 p = Some p"
| "flushFrom i (Suc n) p =
     do { cache \<leftarrow> list_at (m_caches p) (int i);
          if \<not> tc_dirty cache then flushFrom (i + 1) n p
          else do {
            target \<leftarrow> list_at (m_targets p) (int i);
            let p = p\<lparr>m_caches := (m_caches p)[i := cache\<lparr>tc_dirty := False\<rparr>]\<rparr>;
            flushFrom (i + 1) n
              (if isBitRegisterType (pt_registerType target)
               then emitPoll (TargetBitsUpdated i (pt_startAddress target) (tc_bitValues cache)) p
               else emitPoll (TargetRegistersUpdated i (pt_startAddress target) (tc_registerValues cache)) p) } }"

definition flushPendingUpdates :: "poll \<Rightarrow> poll option" where
  "flushPendingUpdates p = flushFrom 0 (length (m_caches p)) p"

text \<open>The two single-shot timers are inactive by the time their slots run.\<close>

definition intervalTimerFires :: "(poll \<times> 'e) write_slot \<Rightarrow> int \<Rightarrow> 'e app \<Rightarrow> 'e app option" where
  "intervalTimerFires w now s = beginCycle w now (onPoll (\<lambda>p. p\<lparr>m_intervalTimer := None\<rparr>) s)"

definition flushTimerFires :: "poll \<Rightarrow> poll option" where
  "flushTimerFires p = flushPendingUpdates (p\<lparr>m_flushTimer := None\<rparr>)"

section \<open>Correlation ids: facts\<close>

lemma bit_u64_lt: "bit (x :: u64) n \<Longrightarrow> n < 64"
  using bit_imp_le_length [of x n] by simp

lemma generation_of_id [simp]: "(ucast (drop_bit 32 (makeCorrelationId p i)) :: u32) = m_generation p"
  by (rule bit_word_eqI) (auto simp: makeCorrelationId_def bit_simps dest: bit_imp_le_length)

lemma isCurrentGeneration_make [simp]:
  "isCurrentGeneration p (makeCorrelationId q i) \<longleftrightarrow> m_generation q = m_generation p"
  by (simp add: isCurrentGeneration_def)

lemma low_half_of_id: "(ucast (makeCorrelationId p i AND 0xFFFFFFFF) :: u32) = word_of_int i"
proof -
  have m: "(0xFFFFFFFF :: u64) = mask 32" by (simp add: mask_eq_exp_minus_1)
  show ?thesis unfolding m
    by (rule bit_word_eqI) (auto simp: makeCorrelationId_def bit_simps dest: bit_imp_le_length)
qed

lemma planIndexOf_make:
  "0 \<le> i \<Longrightarrow> i < 2147483648 \<Longrightarrow> planIndexOf (makeCorrelationId p i) = i"
  unfolding planIndexOf_def low_half_of_id
  by (simp add: sint_uint uint_word_of_int signed_take_bit_int_eq_self_iff sint_word_ariths)

text \<open>A correlation id carries exactly the generation and the plan index it was made from: both are
  read back unchanged, for every generation and every plan index an \<open>int\<close> can hold.\<close>

theorem correlation_id_roundtrip:
  assumes "0 \<le> i" and "i < 2147483648"
  shows "planIndexOf (makeCorrelationId p i) = i \<and>
    (isCurrentGeneration q (makeCorrelationId p i) \<longleftrightarrow> m_generation q = m_generation p)"
  using planIndexOf_make [OF assms] by auto

theorem correlation_id_roundtrip_witness:
  "planIndexOf (makeCorrelationId (newPollEngine\<lparr>m_generation := 7\<rparr>) 3) = 3"
  using correlation_id_roundtrip [of 3 "newPollEngine\<lparr>m_generation := 7\<rparr>"] by simp

text \<open>Ids below two to the 32 (one-shot requests count from one) belong to generation zero.\<close>

lemma one_shot_generation:
  assumes "uint cid < 4294967296"
  shows "isCurrentGeneration p cid \<longleftrightarrow> m_generation p = 0"
proof -
  have "cid < 4294967296" using assms by (simp add: word_less_def)
  then have "drop_bit 32 cid = 0" by (simp add: drop_bit_eq_div div_word_less)
  then show ?thesis by (auto simp: isCurrentGeneration_def)
qed

text \<open>An answer or a failure that belongs to another generation, or that arrives while the engine is
  stopped, changes nothing; in particular a one-shot request's answer (ids below two to the 32) never
  reaches the caches or the window of an engine that has been given targets.\<close>

theorem foreign_answers_ignored:
  assumes "\<not> m_running (poll_of s) \<or> \<not> isCurrentGeneration (poll_of s) cid \<or>
    (uint cid < 4294967296 \<and> m_generation (poll_of s) \<noteq> 0)"
  shows "handleResponse w now cid pdu s = Some s \<and> handleFailure w now cid reason s = Some s"
  using assms one_shot_generation [of cid "poll_of s"]
  by (auto simp: handleResponse_def handleFailure_def)

theorem foreign_answers_ignored_witness:
  "let s = ((newPollEngine\<lparr>m_running := True, m_generation := 5\<rparr>, ()), newTransactionManager None)
   in handleResponse (quietWrite 0) 0 12 [3, 0] s = Some s"
proof -
  let ?s = "((newPollEngine\<lparr>m_running := True, m_generation := 5\<rparr>, ()), newTransactionManager None)"
  have "uint (12 :: u64) < 4294967296 \<and> m_generation (poll_of ?s) \<noteq> 0" by simp
  then show ?thesis
    unfolding Let_def by (intro foreign_answers_ignored [THEN conjunct1]) blast
qed

section \<open>Copying answers into caches\<close>

lemma copyValues_ok:
  assumes "0 \<le> inPlan + i" "inPlan + i + int n \<le> int (length vals)"
    and "0 \<le> inTarget + i" "inTarget + i + int n \<le> int (length destination)"
  shows "\<exists>d. copyValues vals inPlan inTarget i n destination = Some d \<and> length d = length destination \<and>
    (\<forall>k < length destination. d ! k =
       (if inTarget + i \<le> int k \<and> int k < inTarget + i + int n
        then vals ! nat (inPlan + (int k - inTarget)) else destination ! k))"
  using assms
proof (induction n arbitrary: i destination)
  case (Suc n)
  let ?d1 = "destination[nat (inTarget + i) := vals ! nat (inPlan + i)]"
  from Suc.prems Suc.IH [of "i + 1" ?d1] obtain d
    where d: "copyValues vals inPlan inTarget (i + 1) n ?d1 = Some d" "length d = length destination"
      and v: "\<And>k. k < length destination \<Longrightarrow> d ! k =
       (if inTarget + (i + 1) \<le> int k \<and> int k < inTarget + (i + 1) + int n
        then vals ! nat (inPlan + (int k - inTarget)) else ?d1 ! k)"
    by auto
  have "copyValues vals inPlan inTarget i (Suc n) destination = Some d"
    using Suc.prems d by simp
  moreover have "d ! k = (if inTarget + i \<le> int k \<and> int k < inTarget + i + int (Suc n)
        then vals ! nat (inPlan + (int k - inTarget)) else destination ! k)"
    if k: "k < length destination" for k
  proof (cases "int k = inTarget + i")
    case True
    then have "nat (inTarget + i) = k" "int k - inTarget = i" by auto
    with True k v [OF k] show ?thesis by simp
  next
    case False
    then have "nat (inTarget + i) \<noteq> k" using Suc.prems by auto
    with False k v [OF k] show ?thesis by auto
  qed
  ultimately show ?case using d(2) by blast
qed auto

lemma copyValues_short:
  "0 < n \<Longrightarrow> int (length vals) < inPlan + i + int n \<Longrightarrow>
   copyValues vals inPlan inTarget i n destination = None"
proof (induction n arbitrary: i destination)
  case (Suc n)
  show ?case
  proof (cases n)
    case 0
    with Suc.prems show ?thesis by (simp add: list_at_out)
  next
    case (Suc n')
    with Suc.prems Suc.IH [of "i + 1"] show ?thesis by (simp split: bind_splits)
  qed
qed simp

text \<open>One loop for both kinds of values: \<open>get\<close> and \<open>put\<close> select the list inside the cache.\<close>

fun applySlices ::
    "(TargetCache \<Rightarrow> 'v list) \<Rightarrow> ('v list \<Rightarrow> TargetCache \<Rightarrow> TargetCache) \<Rightarrow>
     int \<Rightarrow> 'v list \<Rightarrow> CoveredTarget list \<Rightarrow> poll \<Rightarrow> poll option" where
  "applySlices get put now vals [] p = Some p"
| "applySlices get put now vals (c # cs) p =
     do { cache \<leftarrow> list_at (m_caches p) (int (targetIndex c));
          destination \<leftarrow> copyValues vals (offsetInPlan c) (offsetInTarget c) 0 (nat (count c)) (get cache);
          p \<leftarrow> markDirty now (targetIndex c)
                 (p\<lparr>m_caches := (m_caches p)[targetIndex c := put destination cache]\<rparr>);
          applySlices get put now vals cs p }"

lemma applyBits_slices:
  "applyBits now vals cs = applySlices tc_bitValues (\<lambda>v c. c\<lparr>tc_bitValues := v\<rparr>) now vals cs"
proof (induction cs)
  case (Cons c cs)
  show ?case by (rule ext) (simp add: Cons.IH)
qed (rule ext, simp)

lemma applyRegisters_slices:
  "applyRegisters now vals cs = applySlices tc_registerValues (\<lambda>v c. c\<lparr>tc_registerValues := v\<rparr>) now vals cs"
proof (induction cs)
  case (Cons c cs)
  show ?case by (rule ext) (simp add: Cons.IH)
qed (rule ext, simp)

text \<open>
  What writing slices does: only caches and the flush timer change, every list keeps its length, the
  values of the other kind stay, and exactly the carried cells are filled with what \<open>mem\<close> says.
\<close>

definition filled ::
    "(TargetCache \<Rightarrow> 'v list) \<Rightarrow> (TargetCache \<Rightarrow> 'o list) \<Rightarrow> (nat \<Rightarrow> int \<Rightarrow> 'v) \<Rightarrow>
     CoveredTarget list \<Rightarrow> poll \<Rightarrow> poll \<Rightarrow> bool" where
  "filled get other mem cs p p' \<longleftrightarrow>
     p' = p\<lparr>m_caches := m_caches p', m_flushTimer := m_flushTimer p'\<rparr> \<and>
     length (m_caches p') = length (m_caches p) \<and>
     (\<forall>i < length (m_caches p).
        other (m_caches p' ! i) = other (m_caches p ! i) \<and>
        length (get (m_caches p' ! i)) = length (get (m_caches p ! i)) \<and>
        (\<forall>k < length (get (m_caches p ! i)). get (m_caches p' ! i) ! k =
           (if \<exists>c \<in> set cs. carries i (int k) c then mem i (int k) else get (m_caches p ! i) ! k)))"

definition slice_ok :: "(TargetCache \<Rightarrow> 'v list) \<Rightarrow> 'v list \<Rightarrow> poll \<Rightarrow> CoveredTarget \<Rightarrow> bool" where
  "slice_ok get vals p c \<longleftrightarrow>
     targetIndex c < length (m_caches p) \<and> 0 < count c \<and>
     0 \<le> offsetInPlan c \<and> offsetInPlan c + count c \<le> int (length vals) \<and>
     0 \<le> offsetInTarget c \<and>
     offsetInTarget c + count c \<le> int (length (get (m_caches p ! targetIndex c)))"

definition slice_means :: "(nat \<Rightarrow> int \<Rightarrow> 'v) \<Rightarrow> 'v list \<Rightarrow> CoveredTarget \<Rightarrow> bool" where
  "slice_means mem vals c \<longleftrightarrow>
     (\<forall>j. 0 \<le> j \<and> j < count c \<longrightarrow> vals ! nat (offsetInPlan c + j) = mem (targetIndex c) (offsetInTarget c + j))"

definition onlyCachesChanged :: "poll \<Rightarrow> poll \<Rightarrow> bool" where
  "onlyCachesChanged p p' \<longleftrightarrow> p' = p\<lparr>m_caches := m_caches p', m_flushTimer := m_flushTimer p'\<rparr>"

lemma onlyCachesChanged_fields:
  "onlyCachesChanged p p' \<Longrightarrow> m_targets p' = m_targets p \<and> m_plans p' = m_plans p \<and>
     m_coalescingOptions p' = m_coalescingOptions p \<and> m_running p' = m_running p \<and>
     m_generation p' = m_generation p \<and> m_intervalTimer p' = m_intervalTimer p \<and>
     m_maxInFlight p' = m_maxInFlight p \<and> m_nextPlanIndex p' = m_nextPlanIndex p \<and>
     m_requestsOutstanding p' = m_requestsOutstanding p \<and> signals p' = signals p"
  unfolding onlyCachesChanged_def by (cases p; cases p') simp

lemma onlyCachesChanged_trans:
  "onlyCachesChanged p q \<Longrightarrow> onlyCachesChanged q r \<Longrightarrow> onlyCachesChanged p r"
  unfolding onlyCachesChanged_def by (cases p; cases q; cases r) simp

lemma copyValues_length:
  "copyValues vals inPlan inTarget i n destination = Some d \<Longrightarrow> length d = length destination"
  by (induction n arbitrary: i destination) (fastforce simp: list_put_eq_Some split: bind_splits)+

locale cache_field =
  fixes get :: "TargetCache \<Rightarrow> 'v list" and put :: "'v list \<Rightarrow> TargetCache \<Rightarrow> TargetCache"
    and other :: "TargetCache \<Rightarrow> 'o list"
  assumes get_put [simp]: "get (put v c) = v"
    and get_dirty [simp]: "get (c\<lparr>tc_dirty := b\<rparr>) = get c"
    and other_put [simp]: "other (put v c) = other c"
    and other_dirty [simp]: "other (c\<lparr>tc_dirty := b\<rparr>) = other c"
begin

lemma one_slice:
  assumes "slice_ok get vals p c" and "slice_means mem vals c"
  obtains d t where "copyValues vals (offsetInPlan c) (offsetInTarget c) 0 (nat (count c))
      (get (m_caches p ! targetIndex c)) = Some d"
    and "markDirty now (targetIndex c)
      (p\<lparr>m_caches := (m_caches p)[targetIndex c := put d (m_caches p ! targetIndex c)]\<rparr>)
      = Some (p\<lparr>m_caches := (m_caches p)[targetIndex c := (put d (m_caches p ! targetIndex c))\<lparr>tc_dirty := True\<rparr>],
                m_flushTimer := t\<rparr>)"
    and "filled get other mem [c] p
      (p\<lparr>m_caches := (m_caches p)[targetIndex c := (put d (m_caches p ! targetIndex c))\<lparr>tc_dirty := True\<rparr>],
         m_flushTimer := t\<rparr>)"
proof -
  let ?i = "targetIndex c"
  let ?old = "get (m_caches p ! ?i)"
  have i: "?i < length (m_caches p)" using assms(1) by (simp add: slice_ok_def)
  from copyValues_ok [of "offsetInPlan c" 0 "nat (count c)" vals "offsetInTarget c" ?old] assms(1)
  obtain d where d: "copyValues vals (offsetInPlan c) (offsetInTarget c) 0 (nat (count c)) ?old = Some d"
    "length d = length ?old"
    and v: "\<And>k. k < length ?old \<Longrightarrow> d ! k =
       (if offsetInTarget c \<le> int k \<and> int k < offsetInTarget c + count c
        then vals ! nat (offsetInPlan c + (int k - offsetInTarget c)) else ?old ! k)"
    by (auto simp: slice_ok_def)
  have cell: "d ! k = (if carries ?i (int k) c then mem ?i (int k) else ?old ! k)" if "k < length ?old" for k
    using v [OF that] assms(2) by (auto simp: carries_def slice_means_def)
  define t where "t = (case m_flushTimer p of None \<Rightarrow> Some (now + FlushIntervalMs) | Some t \<Rightarrow> Some t)"
  have dirty: "markDirty now ?i (p\<lparr>m_caches := (m_caches p)[?i := put d (m_caches p ! ?i)]\<rparr>)
      = Some (p\<lparr>m_caches := (m_caches p)[?i := (put d (m_caches p ! ?i))\<lparr>tc_dirty := True\<rparr>], m_flushTimer := t\<rparr>)"
    using i by (simp add: markDirty_def t_def)
  have "filled get other mem [c] p
      (p\<lparr>m_caches := (m_caches p)[?i := (put d (m_caches p ! ?i))\<lparr>tc_dirty := True\<rparr>], m_flushTimer := t\<rparr>)"
    unfolding filled_def
  proof (intro conjI allI impI)
    fix j k assume j: "j < length (m_caches p)" and k: "k < length (get (m_caches p ! j))"
    show "get (m_caches (p\<lparr>m_caches := (m_caches p)[?i := (put d (m_caches p ! ?i))\<lparr>tc_dirty := True\<rparr>],
        m_flushTimer := t\<rparr>) ! j) ! k =
      (if \<exists>c \<in> set [c]. carries j (int k) c then mem j (int k) else get (m_caches p ! j) ! k)"
      using cell [of k] j k by (cases "j = ?i") (auto simp: carries_def)
  qed (use i d(2) in \<open>auto simp: nth_list_update\<close>)
  with d(1) dirty that show thesis by blast
qed

lemma filled_trans:
  assumes "filled get other mem cs p q" and "filled get other mem cs' q r"
  shows "filled get other mem (cs @ cs') p r"
proof -
  have len: "length (m_caches q) = length (m_caches p)" "length (m_caches r) = length (m_caches p)"
    using assms by (simp_all add: filled_def)
  have "q = p\<lparr>m_caches := m_caches q, m_flushTimer := m_flushTimer q\<rparr>"
    "r = q\<lparr>m_caches := m_caches r, m_flushTimer := m_flushTimer r\<rparr>"
    using assms unfolding filled_def by blast+
  then have "r = p\<lparr>m_caches := m_caches r, m_flushTimer := m_flushTimer r\<rparr>"
    by (cases p; cases q; cases r) simp
  moreover have "\<forall>i < length (m_caches p). other (m_caches r ! i) = other (m_caches p ! i) \<and> length (get (m_caches r ! i)) = length (get (m_caches p ! i)) \<and>
    (\<forall>k < length (get (m_caches p ! i)). get (m_caches r ! i) ! k =
      (if \<exists>c \<in> set (cs @ cs'). carries i (int k) c then mem i (int k) else get (m_caches p ! i) ! k))"
    using assms len by (auto simp: filled_def)
  ultimately show ?thesis using len by (simp add: filled_def)
qed

lemma filled_slices_ok:
  "filled get other mem cs p q \<Longrightarrow> slice_ok get vals p c \<Longrightarrow> slice_ok get vals q c"
  by (auto simp: filled_def slice_ok_def)

lemma applySlices_filled:
  assumes "\<forall>c \<in> set cs. slice_ok get vals p c \<and> slice_means mem vals c"
  shows "\<exists>p'. applySlices get put now vals cs p = Some p' \<and> filled get other mem cs p p'"
  using assms
proof (induction cs arbitrary: p)
  case Nil
  then show ?case by (simp add: filled_def)
next
  case (Cons c cs)
  then have ok: "slice_ok get vals p c" "slice_means mem vals c" by simp_all
  from one_slice [OF ok, of now] obtain d q where
    d: "copyValues vals (offsetInPlan c) (offsetInTarget c) 0 (nat (count c))
      (get (m_caches p ! targetIndex c)) = Some d"
    and q: "markDirty now (targetIndex c)
      (p\<lparr>m_caches := (m_caches p)[targetIndex c := put d (m_caches p ! targetIndex c)]\<rparr>) = Some q"
    and f: "filled get other mem [c] p q" by blast
  have "\<forall>c \<in> set cs. slice_ok get vals q c \<and> slice_means mem vals c"
    using Cons.prems filled_slices_ok [OF f] by simp
  from Cons.IH [OF this] obtain p' where
    p': "applySlices get put now vals cs q = Some p'" "filled get other mem cs q p'" by blast
  have "list_at (m_caches p) (int (targetIndex c)) = Some (m_caches p ! targetIndex c)"
    using ok(1) by (simp add: slice_ok_def)
  with d q p' have "applySlices get put now vals (c # cs) p = Some p'" by simp
  with filled_trans [OF f p'(2)] show ?case by simp
qed

lemma applySlices_total:
  "\<forall>c \<in> set cs. slice_ok get vals p c \<Longrightarrow> applySlices get put now vals cs p \<noteq> None"
proof (induction cs arbitrary: p)
  case (Cons c cs)
  then have ok: "slice_ok get vals p c" by simp
  define mem where "mem = (\<lambda>(i :: nat) k. vals ! nat (offsetInPlan c + (k - offsetInTarget c)))"
  have "slice_means mem vals c" by (simp add: slice_means_def mem_def)
  from one_slice [OF ok this, of now] obtain d q where
    d: "copyValues vals (offsetInPlan c) (offsetInTarget c) 0 (nat (count c))
      (get (m_caches p ! targetIndex c)) = Some d"
    and q: "markDirty now (targetIndex c)
      (p\<lparr>m_caches := (m_caches p)[targetIndex c := put d (m_caches p ! targetIndex c)]\<rparr>) = Some q"
    and f: "filled get other mem [c] p q" by blast
  have "applySlices get put now vals cs q \<noteq> None"
    using Cons.prems filled_slices_ok [OF f] by (intro Cons.IH) simp
  moreover have "list_at (m_caches p) (int (targetIndex c)) = Some (m_caches p ! targetIndex c)"
    using ok by (simp add: slice_ok_def)
  ultimately show ?case using d q by simp
qed simp

text \<open>Whatever the answer: only caches change, and no list changes its length.\<close>

definition same_shape :: "poll \<Rightarrow> poll \<Rightarrow> bool" where
  "same_shape p p' \<longleftrightarrow> onlyCachesChanged p p' \<and> length (m_caches p') = length (m_caches p) \<and>
     (\<forall>i < length (m_caches p). length (get (m_caches p' ! i)) = length (get (m_caches p ! i)) \<and>
        length (other (m_caches p' ! i)) = length (other (m_caches p ! i)))"

lemma applySlices_shape: "applySlices get put now vals cs p = Some p' \<Longrightarrow> same_shape p p'"
proof (induction cs arbitrary: p)
  case Nil
  then show ?case by (simp add: same_shape_def onlyCachesChanged_def)
next
  case (Cons c cs)
  let ?i = "targetIndex c" and ?old = "m_caches p ! targetIndex c"
  obtain d q where i: "?i < length (m_caches p)"
    and d: "copyValues vals (offsetInPlan c) (offsetInTarget c) 0 (nat (count c)) (get ?old) = Some d"
    and q: "markDirty now ?i (p\<lparr>m_caches := (m_caches p)[?i := put d ?old]\<rparr>) = Some q"
    and rest: "applySlices get put now vals cs q = Some p'"
    using Cons.prems by (auto simp: list_at_eq_Some split: bind_splits)
  have "m_caches q = (m_caches p)[?i := (put d ?old)\<lparr>tc_dirty := True\<rparr>]"
    "onlyCachesChanged p q"
    using q i by (auto simp: markDirty_def onlyCachesChanged_def)
  then have "same_shape p q"
    using i copyValues_length [OF d] by (auto simp: same_shape_def nth_list_update)
  with Cons.IH [OF rest] show ?case
    using onlyCachesChanged_trans by (auto simp: same_shape_def)
qed

text \<open>What an answer touches is handed on at the next flush.\<close>

lemma applySlices_dirty:
  assumes "applySlices get put now vals cs p = Some p'" and "tc_dirty (m_caches p ! i) \<or> i \<in> targetIndex ` set cs"
  shows "tc_dirty (m_caches p' ! i)"
  using assms
proof (induction cs arbitrary: p)
  case (Cons c cs)
  then obtain d q where i: "targetIndex c < length (m_caches p)"
    and q: "markDirty now (targetIndex c)
      (p\<lparr>m_caches := (m_caches p)[targetIndex c := put d (m_caches p ! targetIndex c)]\<rparr>) = Some q"
    and rest: "applySlices get put now vals cs q = Some p'"
    by (auto simp: list_at_eq_Some split: bind_splits)
  have "tc_dirty (m_caches q ! i)" if "tc_dirty (m_caches p ! i) \<or> i = targetIndex c"
    using q i that by (auto simp: markDirty_def nth_list_update)
  with Cons.IH [OF rest] Cons.prems(2) show ?case by auto
qed simp

text \<open>A slice that needs more values than the answer has stops the program.\<close>

lemma applySlices_short:
  assumes "\<forall>c \<in> set cs. 0 < count c" and "c \<in> set cs"
    and "int (length vals) < offsetInPlan c + count c"
  shows "applySlices get put now vals cs p = None"
  using assms
proof (induction cs arbitrary: p)
  case (Cons b cs)
  show ?case
  proof (cases "int (length vals) < offsetInPlan b + count b")
    case True
    with Cons.prems(1) copyValues_short [of "nat (count b)" vals "offsetInPlan b" 0] show ?thesis
      by (simp split: bind_splits)
  next
    case False
    with Cons.prems have "c \<in> set cs" by auto
    with Cons have "applySlices get put now vals cs q = None" for q by simp
    then show ?thesis by (simp split: bind_splits)
  qed
qed simp

end

interpretation bits: cache_field tc_bitValues "\<lambda>v c. c\<lparr>tc_bitValues := v\<rparr>" tc_registerValues
  by unfold_locales simp_all

interpretation registers: cache_field tc_registerValues "\<lambda>v c. c\<lparr>tc_registerValues := v\<rparr>" tc_bitValues
  by unfold_locales simp_all

section \<open>Answers of a conforming device\<close>

text \<open>Registers and bits of a device, per unit and region, by wire address.\<close>

type_synonym register_memory = "u8 \<Rightarrow> RegisterType \<Rightarrow> int \<Rightarrow> u16"
type_synonym bit_memory = "u8 \<Rightarrow> RegisterType \<Rightarrow> int \<Rightarrow> bool"

definition planValues :: "(u8 \<Rightarrow> RegisterType \<Rightarrow> int \<Rightarrow> 'v) \<Rightarrow> ReadRequestPlan \<Rightarrow> 'v list" where
  "planValues mem plan =
     map (\<lambda>k. mem (rp_unitId plan) (rp_registerType plan) (uint (rp_startAddress plan) + int k))
       [0..<unat (rp_quantity plan)]"

definition deviceAnswer :: "register_memory \<Rightarrow> bit_memory \<Rightarrow> ReadRequestPlan \<Rightarrow> bytes" where
  "deviceAnswer regs bts plan =
     (let fc = fcByte (readFunctionCodeFor (rp_registerType plan))
      in if isBitRegisterType (rp_registerType plan)
         then case packBits (planValues bts plan) of
                None \<Rightarrow> [] | Some data \<Rightarrow> [fc, word_of_nat (length data)] @ data
         else [fc, word_of_nat (2 * unat (rp_quantity plan))] @ concat (map be16 (planValues regs plan)))"

lemma length_planValues [simp]: "length (planValues mem plan) = unat (rp_quantity plan)"
  by (simp add: planValues_def)

lemma unat_le_uint: "uint w \<le> int n \<Longrightarrow> unat w \<le> n" for w :: "'a::len word"
  using uint_nat [of w] by linarith

lemma nat_less_unat: "0 \<le> j \<Longrightarrow> j < uint w \<Longrightarrow> nat j < unat w" for w :: "'a::len word"
  using uint_nat [of w] by linarith

lemma nth_planValues:
  "0 \<le> j \<Longrightarrow> j < uint (rp_quantity plan) \<Longrightarrow> planValues mem plan ! nat j =
     mem (rp_unitId plan) (rp_registerType plan) (uint (rp_startAddress plan) + j)"
  using nat_less_unat [of j "rp_quantity plan"] by (simp add: planValues_def)

lemma decode_device_registers:
  assumes "\<not> isBitRegisterType (rp_registerType plan)" and "uint (rp_quantity plan) \<le> 127"
  shows "decodeReadRegistersResponseImpl (deviceAnswer regs bts plan)
      (fcByte (readFunctionCodeFor (rp_registerType plan))) = Some (Ok \<lparr>registerValues = planValues regs plan\<rparr>)"
proof -
  have "unat (rp_quantity plan) \<le> 127" using unat_le_uint [of "rp_quantity plan" 127] assms(2) by simp
  then show ?thesis
    using assms(1) by (subst decodeReadRegisters_Ok_iff [OF not_exception_fcByte])
      (auto simp: deviceAnswer_def Let_def)
qed

lemma decode_device_bits:
  assumes "isBitRegisterType (rp_registerType plan)" and "uint (rp_quantity plan) \<le> 2040"
  shows "decodeReadBitsResponseImpl (deviceAnswer regs bts plan)
      (fcByte (readFunctionCodeFor (rp_registerType plan))) (rp_quantity plan)
      = Some (Ok \<lparr>bitValues = planValues bts plan\<rparr>)"
proof -
  have len: "length (planValues bts plan) \<le> 2040" 
    using unat_le_uint [of "rp_quantity plan" 2040] assms(2) by simp
  obtain data where data: "packBits (planValues bts plan) = Some data" using packBits_total by blast
  from decodeReadBits_packBits [OF not_exception_fcByte len data, of "readFunctionCodeFor (rp_registerType plan)" "[]"]
  show ?thesis using assms(1) data by (simp add: deviceAnswer_def Let_def)
qed

section \<open>Caches that follow the device\<close>

definition cachesMatch :: "poll \<Rightarrow> bool" where
  "cachesMatch p \<longleftrightarrow> length (m_caches p) = length (m_targets p) \<and>
     (\<forall>i < length (m_targets p).
        length (tc_bitValues (m_caches p ! i)) =
          (if isBitRegisterType (pt_registerType (m_targets p ! i)) then unat (pt_quantity (m_targets p ! i)) else 0) \<and>
        length (tc_registerValues (m_caches p ! i)) =
          (if isBitRegisterType (pt_registerType (m_targets p ! i)) then 0 else unat (pt_quantity (m_targets p ! i))))"

lemma fresh_cachesMatch: "m_caches p = map freshCache (m_targets p) \<Longrightarrow> cachesMatch p"
  by (simp add: cachesMatch_def freshCache_def)

definition targetMem :: "(u8 \<Rightarrow> RegisterType \<Rightarrow> int \<Rightarrow> 'v) \<Rightarrow> PollTarget list \<Rightarrow> nat \<Rightarrow> int \<Rightarrow> 'v" where
  "targetMem mem targets i k =
     mem (pt_unitId (targets ! i)) (pt_registerType (targets ! i)) (start_of targets i + k)"

text \<open>Value \<open>k\<close> of target \<open>i\<close> is in the cache.\<close>

definition cellOk :: "register_memory \<Rightarrow> bit_memory \<Rightarrow> poll \<Rightarrow> nat \<Rightarrow> nat \<Rightarrow> bool" where
  "cellOk regs bts p i k \<longleftrightarrow>
     (if isBitRegisterType (pt_registerType (m_targets p ! i))
      then tc_bitValues (m_caches p ! i) ! k = targetMem bts (m_targets p) i (int k)
      else tc_registerValues (m_caches p ! i) ! k = targetMem regs (m_targets p) i (int k))"

definition aligned :: "PollTarget list \<Rightarrow> ReadRequestPlan \<Rightarrow> bool" where
  "aligned targets plan \<longleftrightarrow> (\<forall>c \<in> set (covered plan).
     uint (rp_startAddress plan) + offsetInPlan c = start_of targets (targetIndex c) + offsetInTarget c)"

lemma slice_means_device:
  assumes "slices_within targets options plan" and "aligned targets plan" and "c \<in> set (covered plan)"
  shows "slice_means (targetMem mem targets) (planValues mem plan) c"
  unfolding slice_means_def
proof (intro allI impI)
  fix j assume j: "0 \<le> j \<and> j < count c"
  have c: "0 \<le> offsetInPlan c" "offsetInPlan c + count c \<le> uint (rp_quantity plan)"
    "pt_unitId (targets ! targetIndex c) = rp_unitId plan"
    "pt_registerType (targets ! targetIndex c) = rp_registerType plan"
    using assms(1,3) by (auto simp: slices_within_def)
  have "uint (rp_startAddress plan) + (offsetInPlan c + j) =
      start_of targets (targetIndex c) + (offsetInTarget c + j)"
    using assms(2,3) by (simp add: aligned_def)
  then have "targetMem mem targets (targetIndex c) (offsetInTarget c + j) =
      mem (rp_unitId plan) (rp_registerType plan) (uint (rp_startAddress plan) + (offsetInPlan c + j))"
    unfolding targetMem_def c by (simp only:)
  with j c show "planValues mem plan ! nat (offsetInPlan c + j) =
      targetMem mem targets (targetIndex c) (offsetInTarget c + j)"
    using nth_planValues [of "offsetInPlan c + j" plan mem] by simp
qed

lemma slice_ok_bits:
  assumes "cachesMatch p" "slices_within (m_targets p) options plan" "c \<in> set (covered plan)"
    and "isBitRegisterType (rp_registerType plan)" "int (length vals) = uint (rp_quantity plan)"
  shows "slice_ok tc_bitValues vals p c"
  using assms by (auto simp: slice_ok_def slices_within_def cachesMatch_def)

lemma slice_ok_registers:
  assumes "cachesMatch p" "slices_within (m_targets p) options plan" "c \<in> set (covered plan)"
    and "\<not> isBitRegisterType (rp_registerType plan)" "offsetInPlan c + count c \<le> int (length vals)"
  shows "slice_ok tc_registerValues vals p c"
  using assms by (auto simp: slice_ok_def slices_within_def cachesMatch_def)

text \<open>Within the limits of the protocol an answer's byte count fits its byte.\<close>

definition protocol_limits :: "CoalescingOptions \<Rightarrow> bool" where
  "protocol_limits options \<longleftrightarrow> valid_options options \<and>
     maxBitsPerRequest options \<le> 2040 \<and> maxRegistersPerRequest options \<le> 127"

lemma default_protocol_limits: "protocol_limits defaultCoalescingOptions"
  using default_options_valid by (simp add: protocol_limits_def defaultCoalescingOptions_def
      MaxBitsPerReadRequest_def MaxRegistersPerReadRequest_def)

lemma device_answer_copied:
  assumes "slices_within (m_targets p) options plan" and "protocol_limits options"
  shows "applyPlanResponse now plan (deviceAnswer regs bts plan) p =
    (if isBitRegisterType (rp_registerType plan) then applyBits now (planValues bts plan) (covered plan) p
     else applyRegisters now (planValues regs plan) (covered plan) p)"
proof (cases "isBitRegisterType (rp_registerType plan)")
  case True
  have "uint (rp_quantity plan) \<le> 2040"
    using assms True by (simp add: slices_within_def protocol_limits_def maxCountFor_def)
  from decode_device_bits [OF True this] show ?thesis
    using True by (cases "rp_registerType plan") (simp_all add: applyPlanResponse_def pdu_decoder_defs)
next
  case False
  have "uint (rp_quantity plan) \<le> 127"
    using assms False by (simp add: slices_within_def protocol_limits_def maxCountFor_def)
  from decode_device_registers [OF False this] show ?thesis
    using False by (cases "rp_registerType plan") (simp_all add: applyPlanResponse_def pdu_decoder_defs)
qed

lemma applyPlanResponse_device:
  assumes match: "cachesMatch p" and within: "slices_within (m_targets p) options plan"
    and al: "aligned (m_targets p) plan" and lim: "protocol_limits options"
  shows "\<exists>p'. applyPlanResponse now plan (deviceAnswer regs bts plan) p = Some p' \<and>
    onlyCachesChanged p p' \<and> cachesMatch p' \<and>
    (\<forall>i < length (m_targets p). \<forall>k < unat (pt_quantity (m_targets p ! i)).
       cellOk regs bts p i k \<or> (\<exists>c \<in> set (covered plan). carries i (int k) c) \<longrightarrow> cellOk regs bts p' i k)"
proof (cases "isBitRegisterType (rp_registerType plan)")
  case True
  note dec = device_answer_copied [OF within lim, of now regs bts, unfolded if_P [OF True]]
  have "\<forall>c \<in> set (covered plan). slice_ok tc_bitValues (planValues bts plan) p c \<and>
      slice_means (targetMem bts (m_targets p)) (planValues bts plan) c"
    using slice_ok_bits [OF match within _ True, of _ "planValues bts plan"]
      slice_means_device [OF within al, of _ bts] by simp
  from bits.applySlices_filled [OF this, of now] obtain p' where
    p': "applyBits now (planValues bts plan) (covered plan) p = Some p'"
    and f: "filled tc_bitValues tc_registerValues (targetMem bts (m_targets p)) (covered plan) p p'"
    unfolding applyBits_slices by blast
  have only: "onlyCachesChanged p p'" using f by (simp add: filled_def onlyCachesChanged_def)
  note same = onlyCachesChanged_fields [OF only]
  have match': "cachesMatch p'" using match f same by (auto simp: cachesMatch_def filled_def)
  have kind: "isBitRegisterType (pt_registerType (m_targets p ! i))"
    if "c \<in> set (covered plan)" "carries i k c" for i k c
    using that within True by (auto simp: slices_within_def carries_def)
  have "cellOk regs bts p' i k" if "i < length (m_targets p)" "k < unat (pt_quantity (m_targets p ! i))"
    "cellOk regs bts p i k \<or> (\<exists>c \<in> set (covered plan). carries i (int k) c)" for i k
    using that f match same kind by (auto simp: cellOk_def filled_def cachesMatch_def)
  with p' dec only match' show ?thesis by auto
next
  case False
  note dec = device_answer_copied [OF within lim, of now regs bts, unfolded if_not_P [OF False]]
  have "offsetInPlan c + count c \<le> int (length (planValues regs plan))" if "c \<in> set (covered plan)" for c
    using that within by (simp add: slices_within_def)
  then have "\<forall>c \<in> set (covered plan). slice_ok tc_registerValues (planValues regs plan) p c \<and>
      slice_means (targetMem regs (m_targets p)) (planValues regs plan) c"
    using slice_ok_registers [OF match within _ False, of _ "planValues regs plan"]
      slice_means_device [OF within al, of _ regs] by blast
  from registers.applySlices_filled [OF this, of now] obtain p' where
    p': "applyRegisters now (planValues regs plan) (covered plan) p = Some p'"
    and f: "filled tc_registerValues tc_bitValues (targetMem regs (m_targets p)) (covered plan) p p'"
    unfolding applyRegisters_slices by blast
  have only: "onlyCachesChanged p p'" using f by (simp add: filled_def onlyCachesChanged_def)
  note same = onlyCachesChanged_fields [OF only]
  have match': "cachesMatch p'" using match f same by (auto simp: cachesMatch_def filled_def)
  have kind: "\<not> isBitRegisterType (pt_registerType (m_targets p ! i))"
    if "c \<in> set (covered plan)" "carries i k c" for i k c
    using that within False by (auto simp: slices_within_def carries_def)
  have "cellOk regs bts p' i k" if "i < length (m_targets p)" "k < unat (pt_quantity (m_targets p ! i))"
    "cellOk regs bts p i k \<or> (\<exists>c \<in> set (covered plan). carries i (int k) c)" for i k
    using that f match same kind by (auto simp: cellOk_def filled_def cachesMatch_def)
  with p' dec only match' show ?thesis by auto
qed

primrec applyAnswers ::
    "int \<Rightarrow> register_memory \<Rightarrow> bit_memory \<Rightarrow> ReadRequestPlan list \<Rightarrow> poll \<Rightarrow> poll option" where
  "applyAnswers now regs bts [] p = Some p"
| "applyAnswers now regs bts (plan # plans) p =
     Option.bind (applyPlanResponse now plan (deviceAnswer regs bts plan) p)
       (applyAnswers now regs bts plans)"

definition cacheHolds :: "register_memory \<Rightarrow> bit_memory \<Rightarrow> PollTarget \<Rightarrow> TargetCache \<Rightarrow> bool" where
  "cacheHolds regs bts t cache \<longleftrightarrow>
     (if isBitRegisterType (pt_registerType t)
      then tc_bitValues cache = map (\<lambda>k. bts (pt_unitId t) (pt_registerType t) (uint (pt_startAddress t) + int k))
                                  [0..<unat (pt_quantity t)]
      else tc_registerValues cache = map (\<lambda>k. regs (pt_unitId t) (pt_registerType t) (uint (pt_startAddress t) + int k))
                                  [0..<unat (pt_quantity t)])"

lemma cacheHolds_cells:
  assumes "cachesMatch p" "i < length (m_targets p)"
    and "\<forall>k < unat (pt_quantity (m_targets p ! i)). cellOk regs bts p i k"
  shows "cacheHolds regs bts (m_targets p ! i) (m_caches p ! i)"
  using assms by (auto simp: cacheHolds_def cellOk_def cachesMatch_def targetMem_def intro!: nth_equalityI)

context read_planner
begin

lemma answers_fill:
  assumes "accepted options" "protocol_limits options" "in_address_space targets"
    and "planner targets options = Some plans" "set answers \<subseteq> set plans"
    and "m_targets p = targets" "cachesMatch p"
  shows "\<exists>p'. applyAnswers now regs bts answers p = Some p' \<and> m_targets p' = targets \<and> cachesMatch p' \<and>
    (\<forall>i < length targets. \<forall>k < unat (pt_quantity (targets ! i)).
       cellOk regs bts p i k \<or> (\<exists>plan \<in> set answers. \<exists>c \<in> set (covered plan). carries i (int k) c)
         \<longrightarrow> cellOk regs bts p' i k)"
  using assms(5-7)
proof (induction answers arbitrary: p)
  case (Cons plan answers)
  have "plan \<in> set plans" using Cons.prems by simp
  then have within: "slices_within (m_targets p) options plan" and al: "aligned (m_targets p) plan"
    using plans_within [OF assms(1,4)] plans_aligned [OF assms(1,4) _ assms(3)] Cons.prems(2)
    by (auto simp: aligned_def)
  from applyPlanResponse_device [OF Cons.prems(3) within al assms(2), of now regs bts] obtain q where
    q: "applyPlanResponse now plan (deviceAnswer regs bts plan) p = Some q" "onlyCachesChanged p q" "cachesMatch q"
    and cells: "\<And>i k. i < length targets \<Longrightarrow> k < unat (pt_quantity (targets ! i)) \<Longrightarrow>
      cellOk regs bts p i k \<or> (\<exists>c \<in> set (covered plan). carries i (int k) c) \<Longrightarrow> cellOk regs bts q i k"
    using Cons.prems(2) by blast
  have "set answers \<subseteq> set plans" "m_targets q = targets"
    using onlyCachesChanged_fields [OF q(2)] Cons.prems(1,2) by simp_all
  from Cons.IH [OF this q(3)] obtain p' where
    p': "applyAnswers now regs bts answers q = Some p'" "m_targets p' = targets" "cachesMatch p'"
    and rest: "\<And>i k. i < length targets \<Longrightarrow> k < unat (pt_quantity (targets ! i)) \<Longrightarrow>
      cellOk regs bts q i k \<or> (\<exists>plan \<in> set answers. \<exists>c \<in> set (covered plan). carries i (int k) c) \<Longrightarrow>
      cellOk regs bts p' i k"
    by blast
  have "cellOk regs bts p' i k" if "i < length targets" "k < unat (pt_quantity (targets ! i))"
    "cellOk regs bts p i k \<or> (\<exists>a \<in> set (plan # answers). \<exists>c \<in> set (covered a). carries i (int k) c)" for i k
    using that cells rest by (metis set_ConsD)
  with q(1) p' show ?case by auto
qed simp

lemma cycle_reads_device:
  assumes "accepted options" "protocol_limits options" "in_address_space (m_targets p)"
    and "planner (m_targets p) options = Some plans" "set answers = set plans" and "cachesMatch p"
  shows "\<exists>p'. applyAnswers now regs bts answers p = Some p' \<and>
    length (m_caches p') = length (m_targets p) \<and>
    (\<forall>i < length (m_targets p). cacheHolds regs bts (m_targets p ! i) (m_caches p' ! i))"
proof -
  from answers_fill [OF assms(1-4) _ refl assms(6), of answers now regs bts] assms(5) obtain p' where
    p': "applyAnswers now regs bts answers p = Some p'" "m_targets p' = m_targets p" "cachesMatch p'"
    and cells: "\<And>i k. i < length (m_targets p) \<Longrightarrow> k < unat (pt_quantity (m_targets p ! i)) \<Longrightarrow>
      (\<exists>plan \<in> set answers. \<exists>c \<in> set (covered plan). carries i (int k) c) \<Longrightarrow> cellOk regs bts p' i k"
    by auto
  have "cellOk regs bts p' i k" if i: "i < length (m_targets p)" and k: "k < unat (pt_quantity (m_targets p ! i))" for i k
  proof (rule cells [OF i k])
    have "int k < uint (pt_quantity (m_targets p ! i))" using k by (metis of_nat_less_iff uint_nat)
    from value_carried [OF assms(1,4) i _ this] assms(5)
    show "\<exists>plan \<in> set answers. \<exists>c \<in> set (covered plan). carries i (int k) c" by simp
  qed
  then have "cacheHolds regs bts (m_targets p ! i) (m_caches p' ! i)" if "i < length (m_targets p)" for i
    using cacheHolds_cells [OF p'(3)] p'(2) that by metis
  with p' show ?thesis by (auto simp: cachesMatch_def)
qed

end

text \<open>C6: one poll cycle brings every target up to date: after the answers of a conforming device to all
  coalesced requests, in whatever order and even if some come twice, every target's cache holds
  exactly the device's registers or bits at the target's addresses, whatever it held before.\<close>

theorem poll_cycle_reads_device:
  assumes "protocol_limits options" and "in_address_space (m_targets p)"
    and "coalesce (m_targets p) options = Some plans" and "set answers = set plans" and "cachesMatch p"
  shows "\<exists>p'. applyAnswers now regs bts answers p = Some p' \<and>
    length (m_caches p') = length (m_targets p) \<and>
    (\<forall>i < length (m_targets p). cacheHolds regs bts (m_targets p ! i) (m_caches p' ! i))"
  using assms by (intro coalescer.cycle_reads_device) (auto simp: protocol_limits_def)

theorem poll_cycle_reads_device_witness:
  "\<exists>plans p'. coalesce [longTarget] defaultCoalescingOptions = Some plans \<and>
     applyAnswers 0 (\<lambda>u t a. word_of_int a) (\<lambda>u t a. False) (rev plans)
       (newPollEngine\<lparr>m_targets := [longTarget], m_caches := [freshCache longTarget]\<rparr>) = Some p' \<and>
     tc_registerValues (m_caches p' ! 0) = map (\<lambda>k. word_of_int (100 + int k)) [0..<130]"
proof -
  let ?p = "newPollEngine\<lparr>m_targets := [longTarget], m_caches := [freshCache longTarget]\<rparr>"
  obtain plans where plans: "coalesce (m_targets ?p) defaultCoalescingOptions = Some plans"
    using coalescer.plans_exist [OF default_options_valid] by blast
  have "in_address_space (m_targets ?p)" "cachesMatch ?p"
    using longTarget_in_space by (simp_all add: fresh_cachesMatch)
  from poll_cycle_reads_device [OF default_protocol_limits this(1) plans _ this(2),
      of "rev plans" 0 "\<lambda>u t a. word_of_int a" "\<lambda>u t a. False"]
  show ?thesis using plans by (auto simp: cacheHolds_def longTarget_def)
qed

text \<open>A register answer is copied without leaving any list exactly when it carries as many registers
  as the plan's slices reach; a well-formed but shorter answer, which the decoder accepts, makes the
  copy read past its end. No shorter answer is rejected before.\<close>

theorem register_answer_must_be_long_enough:
  assumes "cachesMatch p" and "slices_within (m_targets p) options plan"
    and "\<not> isBitRegisterType (rp_registerType plan)"
    and "decodeReadRegistersResponseImpl pdu (fcByte (readFunctionCodeFor (rp_registerType plan))) = Some (Ok r)"
  shows "applyPlanResponse now plan pdu p \<noteq> None \<longleftrightarrow>
    (\<forall>c \<in> set (covered plan). offsetInPlan c + count c \<le> int (length (registerValues r)))"
proof -
  have eq: "applyPlanResponse now plan pdu p = applyRegisters now (registerValues r) (covered plan) p"
    using assms(3,4) by (cases "rp_registerType plan") (simp_all add: applyPlanResponse_def pdu_decoder_defs)
  show ?thesis
  proof (cases "\<forall>c \<in> set (covered plan). offsetInPlan c + count c \<le> int (length (registerValues r))")
    case True
    then have "\<forall>c \<in> set (covered plan). slice_ok tc_registerValues (registerValues r) p c"
      using slice_ok_registers [OF assms(1,2) _ assms(3)] by blast
    from registers.applySlices_total [OF this] True show ?thesis
      unfolding eq applyRegisters_slices by blast
  next
    case False
    then obtain c where c: "c \<in> set (covered plan)"
      "int (length (registerValues r)) < offsetInPlan c + count c"
      by auto
    have "\<forall>c \<in> set (covered plan). 0 < count c" using assms(2) by (simp add: slices_within_def)
    then have "applyPlanResponse now plan pdu p = None"
      unfolding eq applyRegisters_slices by (rule registers.applySlices_short [OF _ c])
    with False show ?thesis by blast
  qed
qed

theorem register_answer_must_be_long_enough_witness:
  "let t = \<lparr>pt_unitId = 1, pt_registerType = HoldingRegister, pt_startAddress = 0, pt_quantity = 2\<rparr>;
       plan = \<lparr>rp_unitId = 1, rp_registerType = HoldingRegister, rp_startAddress = 0, rp_quantity = 2,
               covered = [\<lparr>targetIndex = 0, offsetInPlan = 0, offsetInTarget = 0, count = 2\<rparr>]\<rparr>
   in applyPlanResponse 0 plan [3, 2, 0, 5] (newPollEngine\<lparr>m_targets := [t], m_caches := [freshCache t]\<rparr>) = None"
proof -
  let ?t = "\<lparr>pt_unitId = 1, pt_registerType = HoldingRegister, pt_startAddress = 0, pt_quantity = 2\<rparr>"
  let ?plan = "\<lparr>rp_unitId = 1, rp_registerType = HoldingRegister, rp_startAddress = 0, rp_quantity = 2,
               covered = [\<lparr>targetIndex = 0, offsetInPlan = 0, offsetInTarget = 0, count = 2\<rparr>]\<rparr>"
  let ?p = "newPollEngine\<lparr>m_targets := [?t], m_caches := [freshCache ?t]\<rparr>"
  have "cachesMatch ?p" by (simp add: fresh_cachesMatch)
  moreover have "slices_within (m_targets ?p) defaultCoalescingOptions ?plan"
    by (simp add: slices_within_def maxCountFor_def defaultCoalescingOptions_def MaxRegistersPerReadRequest_def)
  moreover have "\<not> isBitRegisterType (rp_registerType ?plan)" by simp
  moreover have "decodeReadRegistersResponseImpl [3, 2, 0, 5]
      (fcByte (readFunctionCodeFor (rp_registerType ?plan))) = Some (Ok \<lparr>registerValues = [5]\<rparr>)"
    by (subst decodeReadRegisters_Ok_iff [OF not_exception_fcByte])
      (simp add: be16_def hi_byte_def lo_byte_def)
  ultimately have "applyPlanResponse 0 ?plan [3, 2, 0, 5] ?p \<noteq> None \<longleftrightarrow>
      (\<forall>c \<in> set (covered ?plan). offsetInPlan c + count c \<le> int (length (registerValues \<lparr>registerValues = [5]\<rparr>)))"
    by (rule register_answer_must_be_long_enough)
  then show ?thesis by (simp add: Let_def)
qed

end
