(* ===== verification/Polling_Runs.thy ===== *)
theory Polling_Runs
  imports Poll_Engine
begin

text \<open>
  The poll engine on top of the transaction manager: the engine's slots fulfil what the manager
  relies on, and along every run of the two the window count is exact and polling never stalls.

  Writing to the transport may break it: the error reaches the rest of the program at once, which
  then stops polling (\<open>ConnectionController::handleTransportError\<close>, see \<open>Connection\<close>). \<open>react\<close> says
  when, and how the rest of the program \<open>'e\<close> changes, which may depend on whether polling was
  running; nothing else about it is assumed.
\<close>

definition reactingWrite :: "(ITransport \<Rightarrow> bytes \<Rightarrow> bool \<Rightarrow> 'e \<Rightarrow> 'e \<times> bool) \<Rightarrow> (poll \<times> 'e) write_slot" where
  "reactingWrite react t frame = (\<lambda>((p, e), m).
     let (e', broken) = react t frame (m_running p) e
     in Some (if broken \<and> m_running p then stopPoll ((p, e'), m) else ((p, e'), m)))"

section \<open>The relation between the engine and its requests in flight\<close>

definition wfPoll :: "poll \<Rightarrow> bool" where
  "wfPoll p \<longleftrightarrow> cachesMatch p \<and> valid_options (m_coalescingOptions p) \<and>
     (\<forall>plan \<in> set (m_plans p). slices_within (m_targets p) (m_coalescingOptions p) plan) \<and>
     0 \<le> m_nextPlanIndex p \<and> 0 \<le> m_requestsOutstanding p \<and> 1 \<le> m_maxInFlight p \<and>
     (m_generation p = 0 \<longrightarrow> m_plans p = [])"

text \<open>The engine's own requests among ids in flight; one-shot requests never count.\<close>

definition mine :: "poll \<Rightarrow> u64 \<Rightarrow> bool" where
  "mine p cid \<longleftrightarrow> isCurrentGeneration p cid \<and> m_generation p \<noteq> 0"

definition inFlight :: "poll \<Rightarrow> u64 multiset \<Rightarrow> int" where
  "inFlight p F = int (size (filter_mset (mine p) F))"

lemma inFlight_simps [simp]:
  "inFlight p {#} = 0" "inFlight p (F + G) = inFlight p F + inFlight p G"
  "inFlight p (add_mset cid F) = (if mine p cid then 1 else 0) + inFlight p F"
  by (simp_all add: inFlight_def)

lemma inFlight_nonneg [simp]: "0 \<le> inFlight p F"
  by (simp add: inFlight_def)

lemma inFlight_Suc [simp]: "1 + inFlight p F \<noteq> 0" "0 < 1 + inFlight p F"
  "inFlight p F + inFlight p G + 1 \<noteq> 0" "inFlight p F + (1 + inFlight p G) \<noteq> 0"
  using inFlight_nonneg [of p F] inFlight_nonneg [of p G] by linarith+

text \<open>Between two requests of one event: exact window count, interval timer off.\<close>

definition midRel :: "u64 multiset \<Rightarrow> u64 multiset \<Rightarrow> poll \<Rightarrow> bool" where
  "midRel P X p \<longleftrightarrow> wfPoll p \<and>
     (m_running p \<and> m_plans p \<noteq> [] \<longrightarrow> m_requestsOutstanding p = inFlight p P + inFlight p X) \<and>
     (\<not> m_running p \<or> m_plans p = [] \<longrightarrow> inFlight p P = 0) \<and>
     (\<not> m_running p \<or> m_plans p \<noteq> [] \<longrightarrow> m_intervalTimer p = None)"

text \<open>Between two events, and whenever other code runs: also, a cycle is under way or the next is due.\<close>

definition pollRel :: "(poll \<times> 'e) client_relation" where
  "pollRel P X c \<longleftrightarrow> (let p = fst c in wfPoll p \<and>
     (m_running p \<and> m_plans p \<noteq> [] \<longrightarrow>
        m_requestsOutstanding p = inFlight p P + inFlight p X \<and>
        (m_intervalTimer p \<noteq> None \<longleftrightarrow> m_requestsOutstanding p = 0)) \<and>
     (\<not> m_running p \<or> m_plans p = [] \<longrightarrow> inFlight p P = 0) \<and>
     (\<not> m_running p \<longrightarrow> m_intervalTimer p = None))"

lemma pollRel_pair:
  "pollRel P X (p, e) \<longleftrightarrow> wfPoll p \<and>
     (m_running p \<and> m_plans p \<noteq> [] \<longrightarrow>
        m_requestsOutstanding p = inFlight p P + inFlight p X \<and>
        (m_intervalTimer p \<noteq> None \<longleftrightarrow> m_requestsOutstanding p = 0)) \<and>
     (\<not> m_running p \<or> m_plans p = [] \<longrightarrow> inFlight p P = 0) \<and>
     (\<not> m_running p \<longrightarrow> m_intervalTimer p = None)"
  by (simp add: pollRel_def)

lemma pollRel_taken: "pollRel (add_mset cid P) X c \<Longrightarrow> pollRel P (add_mset cid X) c"
  by (cases c) (auto simp: pollRel_pair split: if_splits)

text \<open>Relation and window count only look at these members.\<close>

lemma inFlight_cong: "m_generation q = m_generation p \<Longrightarrow> inFlight q = inFlight p"
  by (simp add: fun_eq_iff inFlight_def mine_def [abs_def] isCurrentGeneration_def)

lemma wfPoll_counters:
  "wfPoll p \<Longrightarrow> 0 \<le> n \<Longrightarrow> wfPoll (p\<lparr>m_requestsOutstanding := n\<rparr>)"
  "wfPoll p \<Longrightarrow> 0 \<le> n \<Longrightarrow> wfPoll (p\<lparr>m_nextPlanIndex := n\<rparr>)"
  "wfPoll p \<Longrightarrow> wfPoll (p\<lparr>m_intervalTimer := t\<rparr>)"
  "wfPoll p \<Longrightarrow> wfPoll (p\<lparr>m_flushTimer := t\<rparr>)"
  "wfPoll p \<Longrightarrow> wfPoll (p\<lparr>m_running := b\<rparr>)"
  "wfPoll p \<Longrightarrow> wfPoll (p\<lparr>m_intervalMs := i\<rparr>)"
  "wfPoll p \<Longrightarrow> wfPoll (p\<lparr>signals := ss\<rparr>)"
  "wfPoll p \<Longrightarrow> 1 \<le> k \<Longrightarrow> wfPoll (p\<lparr>m_maxInFlight := k\<rparr>)"
  by (simp_all add: wfPoll_def cachesMatch_def)

lemma inFlight_updates [simp]:
  "inFlight (p\<lparr>m_requestsOutstanding := n\<rparr>) = inFlight p"
  "inFlight (p\<lparr>m_nextPlanIndex := n\<rparr>) = inFlight p"
  "inFlight (p\<lparr>m_intervalTimer := t\<rparr>) = inFlight p"
  "inFlight (p\<lparr>m_flushTimer := t\<rparr>) = inFlight p"
  "inFlight (p\<lparr>m_running := b\<rparr>) = inFlight p"
  "inFlight (p\<lparr>m_intervalMs := i\<rparr>) = inFlight p"
  "inFlight (p\<lparr>signals := ss\<rparr>) = inFlight p"
  "inFlight (p\<lparr>m_maxInFlight := i\<rparr>) = inFlight p"
  by (rule inFlight_cong, simp)+

section \<open>Stopping and writing\<close>

lemma stopPoll_eq:
  "stopPoll ((p, e), m) = ((p\<lparr>m_running := False, m_intervalTimer := None, m_flushTimer := None,
      m_requestsOutstanding := 0\<rparr>, e), cancelAll m)"
  by (simp add: stopPoll_def onPoll_def onManager_def)

lemma cancelAll_pending [simp]: "m_pending (cancelAll m) = []" "m_transport (cancelAll m) = m_transport m"
  by (simp_all add: cancelAll_def)

lemma stopPoll_agrees: "agrees pollRel X now s \<Longrightarrow> agrees pollRel X now (stopPoll s)"
  by (cases s; cases "fst s")
    (auto simp: stopPoll_eq agrees_pair pollRel_pair sound_cancelAll wfPoll_counters)

lemma reactingWrite_keeps: "keeps pollRel now (reactingWrite react t frame)"
proof (rule keepsI)
  fix X and c :: "poll \<times> 'a" and m s'
  assume s: "agrees pollRel X now (c, m)" and w: "reactingWrite react t frame (c, m) = Some s'"
  obtain p e where c: "c = (p, e)" by (cases c)
  obtain e' b where r: "react t frame (m_running p) e = (e', b)" by (cases "react t frame (m_running p) e")
  have "agrees pollRel X now ((p, e'), m)" using s by (simp add: c agrees_pair pollRel_pair)
  then show "agrees pollRel X now s'"
    using w stopPoll_agrees by (auto simp: reactingWrite_def c r split: if_splits)
qed

text \<open>After a write the engine is unchanged, or it was stopped.\<close>

lemma send_poll:
  assumes "sendRequest (reactingWrite react) now uid pdu cid ((p, e), m) = Some s'"
  shows "poll_of s' = p \<or> \<not> m_running (poll_of s')"
  using assms
  by (auto simp: sendRequest_def writeFrame_def reactingWrite_def Let_def stopPoll_eq
      split: option.splits if_splits prod.splits)

section \<open>Pumping requests\<close>

text \<open>The fields pumping leaves alone unless polling was stopped on the way, and its progress.\<close>

definition pumped :: "poll \<Rightarrow> poll \<Rightarrow> bool" where
  "pumped p q \<longleftrightarrow> m_plans q = m_plans p \<and> m_nextPlanIndex p \<le> m_nextPlanIndex q \<and>
     (m_running q \<longrightarrow> m_running p \<and> m_requestsOutstanding p \<le> m_requestsOutstanding q \<and>
        (m_nextPlanIndex p < int (length (m_plans p)) \<or> 0 < m_requestsOutstanding p \<longrightarrow>
           0 < m_requestsOutstanding q))"

lemma pumpLoop_stopped: "\<not> m_running (poll_of s) \<Longrightarrow> pumpLoop w now window s = Some s"
  by (subst pumpLoop.simps) (simp add: Let_def)

lemma send_plans:
  assumes "sendRequest (reactingWrite react) now uid pdu cid ((p, e), m) = Some s'"
  shows "m_plans (poll_of s') = m_plans p \<and> m_nextPlanIndex (poll_of s') = m_nextPlanIndex p"
  using assms
  by (auto simp: sendRequest_def writeFrame_def reactingWrite_def Let_def stopPoll_eq
      split: option.splits if_splits prod.splits)

text \<open>\<open>sendRequest\<close> with the engine's slots; the other two slots do not matter for it.\<close>

lemma poll_send_enters: "enters pollRel now cid (sendRequest (reactingWrite react) now uid pdu cid)"
proof -
  have "client_slots pollRel (reactingWrite react) (\<lambda>_ _ _. None) (\<lambda>_ _ _. None) now"
    by unfold_locales (auto simp: reactingWrite_keeps pollRel_taken absorbs_def)
  then show ?thesis by (rule client_slots.sendRequest_enters)
qed

lemma midRel_next: "midRel P X p \<Longrightarrow> 0 \<le> n \<Longrightarrow> midRel P X (p\<lparr>m_nextPlanIndex := n\<rparr>)"
  by (simp add: midRel_def wfPoll_counters)

lemma midRel_wf: "midRel P X p \<Longrightarrow> wfPoll p"
  by (simp add: midRel_def)

lemma wfPoll_nonneg: "wfPoll p \<Longrightarrow> 0 \<le> m_nextPlanIndex p \<and> 0 \<le> m_requestsOutstanding p \<and> 1 \<le> m_maxInFlight p"
  by (simp add: wfPoll_def)

text \<open>One request: counted before it is sent, pending after.\<close>

lemma pump_one:
  assumes "sound X now m" and mid: "midRel (idsOf (m_pending m)) X p"
    and run: "m_running p" "m_nextPlanIndex p < int (length (m_plans p))"
    and send: "sendRequest (reactingWrite react) now uid pdu (makeCorrelationId p i)
        ((p\<lparr>m_requestsOutstanding := m_requestsOutstanding p + 1\<rparr>, e), m) = Some s'"
  shows "sound X now (snd s') \<and> midRel (idsOf (m_pending (snd s'))) X (poll_of s') \<and>
     (poll_of s' = p\<lparr>m_requestsOutstanding := m_requestsOutstanding p + 1\<rparr> \<or> \<not> m_running (poll_of s'))"
proof -
  let ?p = "p\<lparr>m_requestsOutstanding := m_requestsOutstanding p + 1\<rparr>"
  have wf: "wfPoll p" using mid by (rule midRel_wf)
  note nonneg = wfPoll_nonneg [OF wf]
  have plans: "m_plans p \<noteq> []" using run(2) nonneg by auto
  then have gen: "m_generation p \<noteq> 0" using wf by (auto simp: wfPoll_def)
  then have own: "mine p (makeCorrelationId p i)" by (simp add: mine_def)
  have "pollRel (add_mset (makeCorrelationId p i) (idsOf (m_pending m))) X (?p, e)"
    using mid run(1) plans own nonneg wf
    by (simp add: pollRel_pair midRel_def wfPoll_counters)
  from entersD [OF poll_send_enters assms(1) this send] have ag: "agrees pollRel X now s'" .
  have same: "poll_of s' = ?p \<or> \<not> m_running (poll_of s')" by (rule send_poll [OF send])
  have "midRel (idsOf (m_pending (snd s'))) X (poll_of s')"
    using ag same mid plans run(1) unfolding agrees_def pollRel_def midRel_def Let_def
    by auto
  with ag same show ?thesis by (simp add: agrees_def)
qed

lemma pumpLoop_keeps:
  assumes "sound X now m" and "midRel (idsOf (m_pending m)) X p" and "1 \<le> window"
    and "pumpLoop (reactingWrite react) now window ((p, e), m) = Some s'"
  shows "sound X now (snd s') \<and> midRel (idsOf (m_pending (snd s'))) X (poll_of s') \<and> pumped p (poll_of s')"
  using assms
proof (induction "nat (int (length (m_plans p)) - m_nextPlanIndex p)" arbitrary: p e m rule: less_induct)
  case less
  note nonneg = wfPoll_nonneg [OF midRel_wf [OF less.prems(2)]]
  show ?case
  proof (cases "m_running p \<and> m_nextPlanIndex p < int (length (m_plans p)) \<and> m_requestsOutstanding p < window")
    case False
    then have "s' = ((p, e), m)" using less.prems(4) by (subst (asm) pumpLoop.simps) (auto simp: Let_def)
    with False less.prems nonneg show ?thesis by (auto simp: pumped_def)
  next
    case True
    let ?plan = "m_plans p ! nat (m_nextPlanIndex p)"
    let ?p1 = "p\<lparr>m_requestsOutstanding := m_requestsOutstanding p + 1\<rparr>"
    obtain s1 where s1: "sendRequest (reactingWrite react) now (rp_unitId ?plan) (planRequest ?plan)
          (makeCorrelationId p (m_nextPlanIndex p)) ((?p1, e), m) = Some s1"
      and rest: "pumpLoop (reactingWrite react) now window
          (onPoll (\<lambda>p. p\<lparr>m_nextPlanIndex := m_nextPlanIndex p + 1\<rparr>) s1) = Some s'"
      using less.prems(4) True nonneg
      by (subst (asm) pumpLoop.simps) (auto simp: Let_def onPoll_def list_at_eq_Some split: bind_splits)
    obtain p2 e2 m2 where s1p: "s1 = ((p2, e2), m2)" by (metis prod.exhaust)
    let ?p3 = "p2\<lparr>m_nextPlanIndex := m_nextPlanIndex p2 + 1\<rparr>"
    from pump_one [OF less.prems(1,2) _ _ s1] True
    have s2: "sound X now m2" and mid2: "midRel (idsOf (m_pending m2)) X p2"
      and p2: "p2 = ?p1 \<or> \<not> m_running p2" by (auto simp: s1p)
    have pl: "m_plans p2 = m_plans p" "m_nextPlanIndex p2 = m_nextPlanIndex p"
      using send_plans [OF s1] by (simp_all add: s1p)
    have mid3: "midRel (idsOf (m_pending m2)) X ?p3" using mid2 pl nonneg by (intro midRel_next) auto
    have rest': "pumpLoop (reactingWrite react) now window ((?p3, e2), m2) = Some s'"
      using rest by (simp add: s1p onPoll_def)
    show ?thesis
    proof (cases "m_running p2")
      case False
      then have "s' = ((?p3, e2), m2)" using rest' pumpLoop_stopped [of "((?p3, e2), m2)"] by simp
      with s2 mid3 pl False show ?thesis by (auto simp: pumped_def)
    next
      case run2: True
      then have p2': "p2 = ?p1" using p2 by blast
      have "nat (int (length (m_plans ?p3)) - m_nextPlanIndex ?p3)
          < nat (int (length (m_plans p)) - m_nextPlanIndex p)"
        using True by (simp add: pl)
      from less.hyps [OF this s2 mid3 less.prems(3) rest'] have "sound X now (snd s')"
        "midRel (idsOf (m_pending (snd s'))) X (poll_of s')" "pumped ?p3 (poll_of s')" by blast+
      moreover have "pumped p (poll_of s')"
        using \<open>pumped ?p3 (poll_of s')\<close> p2' True nonneg pl by (auto simp: pumped_def)
      ultimately show ?thesis by blast
    qed
  qed
qed

lemma pumpRequests_keeps:
  assumes "sound X now m" and "midRel (idsOf (m_pending m)) X p"
    and "pumpRequests (reactingWrite react) now ((p, e), m) = Some s'"
  shows "sound X now (snd s') \<and> midRel (idsOf (m_pending (snd s'))) X (poll_of s') \<and> pumped p (poll_of s')"
proof (rule pumpLoop_keeps [OF assms(1,2)])
  show "1 \<le> effectiveWindowSize ((p, e), m)"
    using wfPoll_nonneg [OF midRel_wf [OF assms(2)]] by (simp add: effectiveWindowSize_def)
  show "pumpLoop (reactingWrite react) now (effectiveWindowSize ((p, e), m)) ((p, e), m) = Some s'"
    using assms(3) by (simp add: pumpRequests_def)
qed

section \<open>Answers, failures and cycles\<close>

text \<open>What settling needs: one request is still counted although it is no longer in flight.\<close>

definition overRel :: "u64 multiset \<Rightarrow> u64 multiset \<Rightarrow> poll \<Rightarrow> bool" where
  "overRel P X p \<longleftrightarrow> wfPoll p \<and> m_running p \<and>
     (m_plans p \<noteq> [] \<longrightarrow>
        m_requestsOutstanding p = inFlight p P + inFlight p X + 1 \<and> m_intervalTimer p = None) \<and>
     (m_plans p = [] \<longrightarrow> inFlight p P = 0)"

lemma noteRequestSettled_keeps:
  assumes "sound X now m" and over: "overRel (idsOf (m_pending m)) X p"
    and step: "noteRequestSettled (reactingWrite react) now ((p, e), m) = Some s'"
  shows "agrees pollRel X now s'"
proof -
  let ?p = "p\<lparr>m_requestsOutstanding := max 0 (m_requestsOutstanding p - 1)\<rparr>"
  have "midRel (idsOf (m_pending m)) X ?p"
    using over by (auto simp: overRel_def midRel_def wfPoll_counters)
  moreover from step obtain s1 where pump: "pumpRequests (reactingWrite react) now ((?p, e), m) = Some s1"
    and fin: "s' = (let p = poll_of s1; cycleFinished = (m_nextPlanIndex p \<ge> int (length (m_plans p)) \<and> m_requestsOutstanding p = 0)
            in if \<not> cycleFinished then s1
               else onPoll (\<lambda>p. let p = emitPoll PollCycleCompleted p
                      in if m_running p then p\<lparr>m_intervalTimer := Some (now + m_intervalMs p)\<rparr> else p) s1)"
    by (auto simp: noteRequestSettled_def onPoll_def Let_def split: bind_splits if_splits)
  ultimately have "sound X now (snd s1) \<and> midRel (idsOf (m_pending (snd s1))) X (poll_of s1) \<and> pumped ?p (poll_of s1)"
    by (intro pumpRequests_keeps [OF assms(1) _ pump])
  moreover obtain p1 e1 m1 where s1: "s1 = ((p1, e1), m1)" by (metis prod.exhaust)
  ultimately have snd1: "sound X now m1" and mid1: "midRel (idsOf (m_pending m1)) X p1" and pu: "pumped ?p p1"
    by simp_all
  note wf = midRel_wf [OF mid1] and nonneg = wfPoll_nonneg [OF midRel_wf [OF mid1]]
  show ?thesis
  proof (cases "m_nextPlanIndex p1 \<ge> int (length (m_plans p1)) \<and> m_requestsOutstanding p1 = 0")
    case True
    then show ?thesis
      using fin snd1 mid1 wf
      by (auto simp: s1 onPoll_def emitPoll_def Let_def agrees_pair pollRel_pair midRel_def wfPoll_counters)
  next
    case False
    then have "s' = ((p1, e1), m1)" using fin by (simp add: s1 Let_def)
    moreover have "m_requestsOutstanding p1 \<noteq> 0" if "m_running p1" "m_plans p1 \<noteq> []"
    proof
      assume zero: "m_requestsOutstanding p1 = 0"
      with False have "m_nextPlanIndex p1 < int (length (m_plans p1))" by linarith
      with pu that(1) zero show False by (auto simp: pumped_def)
    qed
    ultimately show ?thesis
      using snd1 mid1 by (auto simp: agrees_pair pollRel_pair midRel_def)
  qed
qed

lemma overRel_intro:
  assumes "pollRel P (add_mset cid X) (p, e)" and "m_running p" and "isCurrentGeneration p cid"
  shows "overRel P X p"
proof -
  have "mine p cid" if "m_plans p \<noteq> []"
    using assms(1,3) that by (auto simp: mine_def pollRel_pair wfPoll_def)
  then show ?thesis using assms(1,2) by (auto simp: overRel_def pollRel_pair)
qed

lemma overRel_caches:
  assumes "overRel P X p" and "onlyCachesChanged p q" and "cachesMatch q"
  shows "overRel P X q"
proof -
  note f = onlyCachesChanged_fields [OF assms(2)]
  then have "inFlight q = inFlight p" by (intro inFlight_cong) simp
  with f assms(1,3) show ?thesis by (simp add: overRel_def wfPoll_def)
qed

lemma overRel_signals: "overRel P X p \<Longrightarrow> overRel P X (p\<lparr>signals := ss\<rparr>)"
  by (simp add: overRel_def wfPoll_counters)

lemma reportPlanFailure_signals: "\<exists>ss. reportPlanFailure plan reason p = p\<lparr>signals := ss\<rparr>"
proof -
  have "\<exists>ss. foldl (\<lambda>p c. emitPoll (TargetFailed (targetIndex c) reason) p) (p\<lparr>signals := ts\<rparr>) cs = p\<lparr>signals := ss\<rparr>"
    for cs ts
    by (induction cs arbitrary: ts) (auto simp: emitPoll_def)
  then show ?thesis by (simp add: reportPlanFailure_def emitPoll_def)
qed

lemma cachesMatch_shape:
  assumes "bits.same_shape p q \<or> registers.same_shape p q" and "cachesMatch p"
  shows "onlyCachesChanged p q \<and> cachesMatch q"
proof -
  have only: "onlyCachesChanged p q" and len: "length (m_caches q) = length (m_caches p)"
    and all: "\<forall>i < length (m_caches p).
      length (tc_bitValues (m_caches q ! i)) = length (tc_bitValues (m_caches p ! i)) \<and>
      length (tc_registerValues (m_caches q ! i)) = length (tc_registerValues (m_caches p ! i))"
    using assms(1) by (auto simp: bits.same_shape_def registers.same_shape_def)
  have "m_targets q = m_targets p" using onlyCachesChanged_fields [OF only] by simp
  with only len all assms(2) show ?thesis by (simp add: cachesMatch_def)
qed

text \<open>An answer changes caches, or reports its failure, and nothing else.\<close>

lemma applyPlanResponse_effect:
  assumes "applyPlanResponse now plan pdu p = Some q" and "cachesMatch p"
  shows "(onlyCachesChanged p q \<and> cachesMatch q) \<or> (\<exists>ss. q = p\<lparr>signals := ss\<rparr>)"
proof -
  have "(\<exists>vals. applyBits now vals (covered plan) p = Some q) \<or>
      (\<exists>vals. applyRegisters now vals (covered plan) p = Some q) \<or>
      (\<exists>reason. q = reportPlanFailure plan reason p)"
    using assms(1) by (auto simp: applyPlanResponse_def split: if_splits bind_splits PduDecodeResult.splits)
  then show ?thesis
    using bits.applySlices_shape registers.applySlices_shape cachesMatch_shape assms(2)
      reportPlanFailure_signals
    unfolding applyBits_slices applyRegisters_slices by metis
qed

lemma handleResponse_absorbs:
  "absorbs pollRel now cid (handleResponse (reactingWrite react) now cid pdu)"
  unfolding absorbs_def
proof (intro allI impI)
  fix X and c :: "poll \<times> 'a" and m s'
  assume s: "sound X now m" and rel: "pollRel (idsOf (m_pending m)) (add_mset cid X) c"
    and step: "handleResponse (reactingWrite react) now cid pdu (c, m) = Some s'"
  obtain p e where c: "c = (p, e)" by (cases c)
  have match: "cachesMatch p" using rel by (simp add: c pollRel_pair wfPoll_def)
  show "agrees pollRel X now s'"
  proof (cases "m_running p \<and> isCurrentGeneration p cid")
    case False
    then have "s' = ((p, e), m)" using step by (auto simp: c handleResponse_def Let_def)
    moreover have "pollRel (idsOf (m_pending m)) X (p, e)"
      using rel False by (auto simp: c pollRel_pair mine_def)
    ultimately show ?thesis using s by (simp add: agrees_pair)
  next
    case True
    then have over: "overRel (idsOf (m_pending m)) X p" using overRel_intro [OF rel [unfolded c]] by blast
    obtain q where q: "q = p \<or> (\<exists>plan. applyPlanResponse now plan pdu p = Some q)"
      and settle: "noteRequestSettled (reactingWrite react) now ((q, e), m) = Some s'"
      using step True by (auto simp: c handleResponse_def Let_def onPoll_def split: if_splits bind_splits)
    have "overRel (idsOf (m_pending m)) X q"
      using q over applyPlanResponse_effect [OF _ match] overRel_caches overRel_signals by metis
    from noteRequestSettled_keeps [OF s this settle] show ?thesis .
  qed
qed

lemma handleFailure_absorbs:
  "absorbs pollRel now cid (handleFailure (reactingWrite react) now cid reason)"
  unfolding absorbs_def
proof (intro allI impI)
  fix X and c :: "poll \<times> 'a" and m s'
  assume s: "sound X now m" and rel: "pollRel (idsOf (m_pending m)) (add_mset cid X) c"
    and step: "handleFailure (reactingWrite react) now cid reason (c, m) = Some s'"
  obtain p e where c: "c = (p, e)" by (cases c)
  show "agrees pollRel X now s'"
  proof (cases "m_running p \<and> isCurrentGeneration p cid")
    case False
    then have "s' = ((p, e), m)" using step by (auto simp: c handleFailure_def Let_def)
    moreover have "pollRel (idsOf (m_pending m)) X (p, e)"
      using rel False by (auto simp: c pollRel_pair mine_def)
    ultimately show ?thesis using s by (simp add: agrees_pair)
  next
    case True
    then have over: "overRel (idsOf (m_pending m)) X p" using overRel_intro [OF rel [unfolded c]] by blast
    let ?q = "if 0 \<le> planIndexOf cid \<and> planIndexOf cid < int (length (m_plans p))
      then reportPlanFailure (m_plans p ! nat (planIndexOf cid)) reason p else emitPoll (PollFailed reason) p"
    have settle: "noteRequestSettled (reactingWrite react) now ((?q, e), m) = Some s'"
      using step True by (simp add: c handleFailure_def Let_def onPoll_def)
    have "overRel (idsOf (m_pending m)) X (reportPlanFailure plan reason p)" for plan
      using reportPlanFailure_signals [of plan reason p] overRel_signals [OF over] by auto
    moreover have "overRel (idsOf (m_pending m)) X (emitPoll (PollFailed reason) p)"
      unfolding emitPoll_def by (rule overRel_signals [OF over])
    ultimately have "overRel (idsOf (m_pending m)) X ?q" by simp
    from noteRequestSettled_keeps [OF s this settle] show ?thesis .
  qed
qed

interpretation polling: client_slots pollRel "reactingWrite react"
    "handleResponse (reactingWrite react) now" "handleFailure (reactingWrite react) now" now
  for react :: "ITransport \<Rightarrow> bytes \<Rightarrow> bool \<Rightarrow> 'e \<Rightarrow> 'e \<times> bool" and now
  by unfold_locales (auto intro: pollRel_taken reactingWrite_keeps handleResponse_absorbs handleFailure_absorbs)

section \<open>Configuration, start, stop and timers\<close>

lemma beginCycle_keeps:
  assumes "sound X now m" and wf: "wfPoll p"
    and none: "inFlight p (idsOf (m_pending m)) = 0" "inFlight p X = 0"
    and timer: "m_intervalTimer p = None"
    and step: "beginCycle (reactingWrite react) now ((p, e), m) = Some s'"
  shows "agrees pollRel X now s'"
proof (cases "m_running p \<and> m_plans p \<noteq> []")
  case False
  then have "s' = ((p, e), m)" using step by (auto simp: beginCycle_def Let_def)
  moreover have "pollRel (idsOf (m_pending m)) X (p, e)"
    using wf none timer False by (auto simp: pollRel_pair)
  ultimately show ?thesis using assms(1) by (simp add: agrees_pair)
next
  case True
  let ?p = "p\<lparr>m_nextPlanIndex := 0, m_requestsOutstanding := 0\<rparr>"
  have pump: "pumpRequests (reactingWrite react) now ((?p, e), m) = Some s'"
    using step True by (simp add: beginCycle_def onPoll_def Let_def)
  have "midRel (idsOf (m_pending m)) X ?p"
    using wf none timer True by (simp add: midRel_def wfPoll_counters)
  from pumpRequests_keeps [OF assms(1) this pump]
  have k: "sound X now (snd s')" "midRel (idsOf (m_pending (snd s'))) X (poll_of s')" "pumped ?p (poll_of s')"
    by blast+
  have "0 < m_requestsOutstanding (poll_of s')" if "m_running (poll_of s')"
    using k(3) that True by (simp add: pumped_def)
  then show ?thesis
    using k by (auto simp: agrees_def pollRel_def midRel_def Let_def)
qed

lemma rebuildPlans_wf:
  assumes "rebuildPlans p = Some q" and "valid_options (m_coalescingOptions p)"
  shows "\<exists>plans. q = p\<lparr>m_plans := plans\<rparr> \<and>
     (\<forall>plan \<in> set plans. slices_within (m_targets p) (m_coalescingOptions p) plan)"
  using assms coalescer.plans_within by (auto simp: rebuildPlans_def)

lemma setTargets_keeps:
  assumes "agrees pollRel {#} now ((p, e), m)" and gen: "m_generation p + 1 \<noteq> 0"
    and step: "setTargets (reactingWrite react) now targets ((p, e), m) = Some s'"
  shows "agrees pollRel {#} now s'"
proof -
  let ?p = "p\<lparr>m_targets := targets, m_generation := m_generation p + 1, m_intervalTimer := None\<rparr>"
  have wf: "wfPoll p" and s: "sound {#} now (cancelAll m)"
    using assms(1) by (simp_all add: agrees_pair pollRel_pair sound_cancelAll)
  obtain p1 where p1: "rebuildPlans ?p = Some p1"
    and rest: "(let q = p1\<lparr>m_caches := map freshCache targets\<rparr>
        in if m_running q then beginCycle (reactingWrite react) now ((q, e), cancelAll m)
           else Some ((q, e), cancelAll m)) = Some s'"
    using step by (auto simp: setTargets_def Let_def split: bind_splits)
  from rebuildPlans_wf [OF p1] wf obtain plans where plans: "p1 = ?p\<lparr>m_plans := plans\<rparr>"
    "\<forall>plan \<in> set plans. slices_within targets (m_coalescingOptions p) plan"
    by (auto simp: wfPoll_def)
  let ?q = "p1\<lparr>m_caches := map freshCache targets\<rparr>"
  have "cachesMatch ?q" by (rule fresh_cachesMatch) (simp add: plans(1))
  then have wfq: "wfPoll ?q" using wf plans gen by (simp add: wfPoll_def)
  show ?thesis
  proof (cases "m_running ?q")
    case True
    then have "beginCycle (reactingWrite react) now ((?q, e), cancelAll m) = Some s'" using rest by (simp add: Let_def)
    from beginCycle_keeps [OF s wfq _ _ _ this] show ?thesis by (simp add: plans(1))
  next
    case False
    then have "s' = ((?q, e), cancelAll m)" using rest by (simp add: Let_def)
    with s wfq False show ?thesis by (simp add: agrees_pair pollRel_pair plans(1))
  qed
qed

lemma startPoll_keeps:
  assumes "agrees pollRel {#} now ((p, e), m)"
    and step: "startPoll (reactingWrite react) now ((p, e), m) = Some s'"
  shows "agrees pollRel {#} now s'"
proof (cases "m_running p")
  case True
  then show ?thesis using assms by (simp add: startPoll_def)
next
  case False
  then have cycle: "beginCycle (reactingWrite react) now ((p\<lparr>m_running := True\<rparr>, e), m) = Some s'"
    using step by (simp add: startPoll_def onPoll_def)
  have "wfPoll (p\<lparr>m_running := True\<rparr>)" "sound {#} now m" "inFlight p (idsOf (m_pending m)) = 0"
    "m_intervalTimer p = None"
    using assms(1) False by (auto simp: agrees_pair pollRel_pair wfPoll_counters)
  from beginCycle_keeps [OF this(2,1) _ _ _ cycle] this(3,4) show ?thesis by simp
qed

lemma intervalTimer_keeps:
  assumes "agrees pollRel {#} now ((p, e), m)" and "m_intervalTimer p = Some t"
    and step: "intervalTimerFires (reactingWrite react) now ((p, e), m) = Some s'"
  shows "agrees pollRel {#} now s'"
proof -
  have cycle: "beginCycle (reactingWrite react) now ((p\<lparr>m_intervalTimer := None\<rparr>, e), m) = Some s'"
    using step by (simp add: intervalTimerFires_def onPoll_def)
  have "wfPoll (p\<lparr>m_intervalTimer := None\<rparr>)" "sound {#} now m"
    using assms(1) by (auto simp: agrees_pair pollRel_pair wfPoll_counters)
  moreover have "inFlight p (idsOf (m_pending m)) = 0"
    using assms(1,2) by (cases "m_running p \<and> m_plans p \<noteq> []") (auto simp: agrees_pair pollRel_pair)
  ultimately show ?thesis using beginCycle_keeps [OF _ _ _ _ _ cycle] by simp
qed

lemma setIntervalMs_keeps:
  "agrees pollRel {#} now ((p, e), m) \<Longrightarrow> agrees pollRel {#} now ((setIntervalMs now ms p, e), m)"
  by (auto simp: agrees_pair pollRel_pair setIntervalMs_def Let_def wfPoll_counters)

lemma setMaxInFlight_keeps:
  "agrees pollRel {#} now ((p, e), m) \<Longrightarrow> agrees pollRel {#} now ((setMaxInFlight n p, e), m)"
  by (auto simp: agrees_pair pollRel_pair setMaxInFlight_def wfPoll_counters)

text \<open>One flush keeps every list, and only clears marks and adds signals.\<close>

lemma flushFrom_effect:
  "flushFrom i n p = Some q \<Longrightarrow>
   q = p\<lparr>m_caches := m_caches q, signals := signals q\<rparr> \<and> length (m_caches q) = length (m_caches p) \<and>
   (\<forall>j < length (m_caches p). tc_bitValues (m_caches q ! j) = tc_bitValues (m_caches p ! j) \<and>
      tc_registerValues (m_caches q ! j) = tc_registerValues (m_caches p ! j))"
proof (induction n arbitrary: i p)
  case (Suc n)
  obtain cache where c: "list_at (m_caches p) (int i) = Some cache"
    using Suc.prems by (auto split: bind_splits)
  show ?case
  proof (cases "tc_dirty cache")
    case False
    with Suc c show ?thesis by simp
  next
    case True
    define r where "r = p\<lparr>m_caches := (m_caches p)[i := cache\<lparr>tc_dirty := False\<rparr>]\<rparr>"
    obtain e where "flushFrom (i + 1) n (emitPoll e r) = Some q"
      using Suc.prems c True by (auto simp: r_def Let_def split: bind_splits if_splits)
    note IH = Suc.IH [OF this]
    have r: "m_caches r = (m_caches p)[i := cache\<lparr>tc_dirty := False\<rparr>]" by (simp add: r_def)
    have i: "i < length (m_caches p)" "cache = m_caches p ! i" using c by (auto simp: list_at_eq_Some)
    have "q = r\<lparr>m_caches := m_caches q, signals := signals q\<rparr>"
      using IH by (cases q; cases r) (simp add: emitPoll_def)
    then have "q = p\<lparr>m_caches := m_caches q, signals := signals q\<rparr>"
      by (cases q; cases p) (simp add: r_def)
    moreover have "tc_bitValues (m_caches r ! j) = tc_bitValues (m_caches p ! j) \<and>
        tc_registerValues (m_caches r ! j) = tc_registerValues (m_caches p ! j)" for j
      using i by (simp add: r nth_list_update)
    ultimately show ?thesis using IH r by (simp add: emitPoll_def)
  qed
qed simp

lemma flushTimer_fields:
  assumes "flushTimerFires p = Some q"
  shows "m_targets q = m_targets p" "m_plans q = m_plans p" "m_running q = m_running p"
    "m_generation q = m_generation p" "m_intervalTimer q = m_intervalTimer p"
    "m_coalescingOptions q = m_coalescingOptions p" "m_maxInFlight q = m_maxInFlight p"
    "m_nextPlanIndex q = m_nextPlanIndex p" "m_requestsOutstanding q = m_requestsOutstanding p"
    "cachesMatch p \<Longrightarrow> cachesMatch q"
proof -
  let ?p = "p\<lparr>m_flushTimer := None\<rparr>"
  have f: "q = ?p\<lparr>m_caches := m_caches q, signals := signals q\<rparr>" "length (m_caches q) = length (m_caches p)"
    "\<forall>j < length (m_caches p). tc_bitValues (m_caches q ! j) = tc_bitValues (m_caches p ! j) \<and>
      tc_registerValues (m_caches q ! j) = tc_registerValues (m_caches p ! j)"
    using flushFrom_effect [OF assms [unfolded flushTimerFires_def flushPendingUpdates_def]] by simp_all
  then show same: "m_targets q = m_targets p" "m_plans q = m_plans p" "m_running q = m_running p"
    "m_generation q = m_generation p" "m_intervalTimer q = m_intervalTimer p"
    "m_coalescingOptions q = m_coalescingOptions p" "m_maxInFlight q = m_maxInFlight p"
    "m_nextPlanIndex q = m_nextPlanIndex p" "m_requestsOutstanding q = m_requestsOutstanding p"
    by (cases q; cases p; simp)+
  show "cachesMatch p \<Longrightarrow> cachesMatch q" using f(2,3) same by (simp add: cachesMatch_def)
qed

lemma flushTimer_keeps:
  assumes "agrees pollRel {#} now ((p, e), m)" and "flushTimerFires p = Some q"
  shows "agrees pollRel {#} now ((q, e), m)"
  using assms(1) flushTimer_fields [OF assms(2)] inFlight_cong [OF flushTimer_fields(4) [OF assms(2)]]
  by (simp add: agrees_pair pollRel_pair wfPoll_def)

section \<open>Runs of engine and manager\<close>

text \<open>
  Everything that can happen to the two while the program runs: what the program calls (one-shot
  requests included, whose ids count from one), what the transport delivers, and the three timers.
  The generation counter is assumed not to wrap to zero, that is, fewer than two to the 32
  retargetings; \<open>setCoalescingOptions\<close>, which the program never calls, is left out.
\<close>

inductive poll_step ::
    "(ITransport \<Rightarrow> bytes \<Rightarrow> bool \<Rightarrow> 'e \<Rightarrow> 'e \<times> bool) \<Rightarrow> int \<times> 'e app \<Rightarrow> int \<times> 'e app \<Rightarrow> bool"
  for react where
  clock: "now \<le> now' \<Longrightarrow> poll_step react (now, s) (now', s)"
| rest: "poll_step react (now, ((p, e), m)) (now, ((p, e'), m))"
| targets: "m_generation (poll_of s) + 1 \<noteq> 0 \<Longrightarrow>
    setTargets (reactingWrite react) now ts s = Some s' \<Longrightarrow> poll_step react (now, s) (now, s')"
| start: "startPoll (reactingWrite react) now s = Some s' \<Longrightarrow> poll_step react (now, s) (now, s')"
| stop: "poll_step react (now, s) (now, stopPoll s)"
| interval: "poll_step react (now, ((p, e), m)) (now, ((setIntervalMs now ms p, e), m))"
| window: "poll_step react (now, ((p, e), m)) (now, ((setMaxInFlight n p, e), m))"
| interval_timer: "m_intervalTimer (poll_of s) = Some t \<Longrightarrow> t \<le> now \<Longrightarrow>
    intervalTimerFires (reactingWrite react) now s = Some s' \<Longrightarrow> poll_step react (now, s) (now, s')"
| flush_timer: "m_flushTimer p = Some t \<Longrightarrow> t \<le> now \<Longrightarrow> flushTimerFires p = Some q \<Longrightarrow>
    poll_step react (now, ((p, e), m)) (now, ((q, e), m))"
| one_shot: "uint cid < 4294967296 \<Longrightarrow>
    sendRequest (reactingWrite react) now uid pdu cid s = Some s' \<Longrightarrow> poll_step react (now, s) (now, s')"
| data: "dataArrives (handleResponse (reactingWrite react) now) now t bytes s = Some s' \<Longrightarrow>
    poll_step react (now, s) (now, s')"
| timeout: "m_timeoutTimer (snd s) = Some F \<Longrightarrow> F \<le> now \<Longrightarrow>
    timerFires (reactingWrite react) (handleFailure (reactingWrite react) now) now s = Some s' \<Longrightarrow>
    poll_step react (now, s) (now, s')"
| transport: "poll_step react (now, (c, m)) (now, (c, setTransport t m))"
| framing: "poll_step react (now, (c, m)) (now, (c, setFramingMode mode m))"
| timeout_ms: "poll_step react (now, (c, m)) (now, (c, setTimeoutMs ms m))"
| retries: "poll_step react (now, (c, m)) (now, (c, setRetryCount n m))"

lemma one_shot_enters:
  assumes "agrees pollRel X now s" and "uint cid < 4294967296"
    and "sendRequest (reactingWrite react) now uid pdu cid s = Some s'"
  shows "agrees pollRel X now s'"
proof -
  obtain p e m where s: "s = ((p, e), m)" by (metis prod.exhaust)
  have "\<not> mine p cid" using one_shot_generation [OF assms(2)] by (simp add: mine_def)
  then have "pollRel (add_mset cid (idsOf (m_pending m))) X (p, e)"
    using assms(1) by (simp add: s agrees_pair pollRel_pair)
  then show ?thesis
    using entersD [OF poll_send_enters _ _ assms(3) [unfolded s]] assms(1) by (simp add: s agrees_pair)
qed

lemma poll_step_agrees:
  assumes "poll_step react (now, s) (now', s')" and ag: "agrees pollRel {#} now s"
  shows "agrees pollRel {#} now' s'"
  using assms(1)
proof cases
  case clock
  then show ?thesis using ag agrees_later by blast
next
  case (rest p e m e')
  then show ?thesis using ag by (simp add: agrees_pair pollRel_pair)
next
  case (targets ts)
  then show ?thesis using ag by (cases s; cases "fst s") (auto intro: setTargets_keeps)
next
  case start
  then show ?thesis using ag by (cases s; cases "fst s") (auto intro: startPoll_keeps)
next
  case stop
  then show ?thesis using ag stopPoll_agrees by blast
next
  case (interval p e m ms)
  then show ?thesis using ag setIntervalMs_keeps [of now p e m ms] by simp
next
  case (window p e m n)
  then show ?thesis using ag setMaxInFlight_keeps [of now p e m n] by simp
next
  case (interval_timer t)
  then show ?thesis using ag by (cases s; cases "fst s") (auto intro: intervalTimer_keeps)
next
  case (flush_timer p t q e m)
  then show ?thesis using ag flushTimer_keeps [of now p e m q] by simp
next
  case (one_shot cid uid pdu)
  then show ?thesis using ag one_shot_enters by blast
next
  case (data t bytes)
  then show ?thesis using keepsD [OF polling.dataArrives_keeps ag] by blast
next
  case (timeout F)
  then show ?thesis using keepsD [OF polling.timerFires_keeps ag] by blast
qed (use ag in \<open>simp_all add: agrees_setting\<close>)

lemma new_agrees: "agrees pollRel {#} now ((newPollEngine, e), newTransactionManager t)"
  using newTransactionManager_sound default_options_valid
  by (simp add: agrees_pair pollRel_pair wfPoll_def newPollEngine_def cachesMatch_def DefaultMaxInFlight_def)
    (simp add: newTransactionManager_def setTransport_def)

definition poll_reachable ::
    "(ITransport \<Rightarrow> bytes \<Rightarrow> bool \<Rightarrow> 'e \<Rightarrow> 'e \<times> bool) \<Rightarrow> int \<Rightarrow> 'e app \<Rightarrow> bool" where
  "poll_reachable react now s \<longleftrightarrow>
     (\<exists>e t. (poll_step react)\<^sup>*\<^sup>* (0, ((newPollEngine, e), newTransactionManager t)) (now, s))"

lemma reachable_agrees:
  assumes "poll_reachable react now s"
  shows "agrees pollRel {#} now s"
proof -
  from assms obtain e t where run: "(poll_step react)\<^sup>*\<^sup>* (0, ((newPollEngine, e), newTransactionManager t)) (now, s)"
    by (auto simp: poll_reachable_def)
  have "agrees pollRel {#} (fst y) (snd y)"
    if "(poll_step react)\<^sup>*\<^sup>* (0, ((newPollEngine, e), newTransactionManager t)) y" for y
    using that
  proof (induction rule: rtranclp_induct)
    case base
    show ?case by (simp add: new_agrees)
  next
    case (step y z)
    then show ?case using poll_step_agrees [of react "fst y" "snd y" "fst z" "snd z"] by simp
  qed
  from this [OF run] show ?thesis by simp
qed

lemma inFlight_list: "inFlight p (idsOf rs) = int (length (filter (\<lambda>r. mine p (correlationId r)) rs))"
  by (induction rs) simp_all

text \<open>While the engine runs and has something to poll, polling never stalls: either a cycle is under
  way, with a pending request and the manager's timer armed, or the interval timer of the next cycle
  is armed; whatever the device, the transport errors and the order of events.\<close>

theorem polling_never_stalls:
  assumes "poll_reachable react now ((p, e), m)" and "m_running p" and "m_plans p \<noteq> []"
  shows "(m_intervalTimer p \<noteq> None \<and> m_requestsOutstanding p = 0) \<or>
    (m_timeoutTimer m \<noteq> None \<and> (\<exists>r \<in> set (m_pending m). isCurrentGeneration p (correlationId r)))"
proof -
  have ag: "sound {#} now m" "pollRel (idsOf (m_pending m)) {#} (p, e)"
    using reachable_agrees [OF assms(1)] by (simp_all add: agrees_pair)
  show ?thesis
  proof (cases "m_requestsOutstanding p = 0")
    case True
    then show ?thesis using ag(2) assms(2,3) by (simp add: pollRel_pair)
  next
    case False
    then have "filter (\<lambda>r. mine p (correlationId r)) (m_pending m) \<noteq> []"
      using ag(2) assms(2,3) by (auto simp: pollRel_pair inFlight_list)
    then obtain r where "r \<in> set (m_pending m)" "mine p (correlationId r)"
      by (auto simp: filter_empty_conv)
    then show ?thesis using ag(1) by (auto simp: sound_def timerOk_def mine_def)
  qed
qed

text \<open>The engine's count of outstanding requests is exact: it equals the number of its own requests
  pending in the transaction manager, so no answer, timeout, cancellation or one-shot request ever
  leaks a slot of the window; and a stopped engine has none pending.\<close>

theorem outstanding_count_exact:
  assumes "poll_reachable react now ((p, e), m)" and "m_generation p \<noteq> 0"
  shows "(m_running p \<and> m_plans p \<noteq> [] \<longrightarrow> m_requestsOutstanding p =
      int (length (filter (\<lambda>r. isCurrentGeneration p (correlationId r)) (m_pending m)))) \<and>
    (\<not> m_running p \<longrightarrow> filter (\<lambda>r. isCurrentGeneration p (correlationId r)) (m_pending m) = [])"
proof -
  have "mine p = isCurrentGeneration p" using assms(2) by (simp add: fun_eq_iff mine_def)
  with reachable_agrees [OF assms(1)] show ?thesis
    by (auto simp: agrees_pair pollRel_pair inFlight_list)
qed

text \<open>C27: in every reachable state there is one cache per target with exactly the target's number of
  values of its kind, and every slice of every plan lies inside its plan's answer and its target's
  cache, so that only a shorter answer than requested can lead a copy outside a list.\<close>

theorem engine_state_wellformed:
  assumes "poll_reachable react now ((p, e), m)"
  shows "cachesMatch p \<and> 0 \<le> m_nextPlanIndex p \<and> 0 \<le> m_requestsOutstanding p \<and> 1 \<le> m_maxInFlight p \<and>
    (\<forall>plan \<in> set (m_plans p). slices_within (m_targets p) (m_coalescingOptions p) plan)"
  using reachable_agrees [OF assms] by (simp add: agrees_pair pollRel_pair wfPoll_def)

section \<open>A transport that works\<close>

definition calmReact :: "ITransport \<Rightarrow> bytes \<Rightarrow> bool \<Rightarrow> 'e \<Rightarrow> 'e \<times> bool" where
  "calmReact t frame running e = (e, False)"

lemma calm_write: "reactingWrite calmReact t frame s = Some s"
  by (cases s; cases "fst s") (simp add: reactingWrite_def calmReact_def)

text \<open>What is asked of whom, and under which id.\<close>

definition asked :: "PendingRequest \<Rightarrow> u8 \<times> bytes \<times> u64" where
  "asked r = (pr_unitId r, requestPdu r, correlationId r)"

definition planAsked :: "poll \<Rightarrow> nat \<Rightarrow> u8 \<times> bytes \<times> u64" where
  "planAsked p i =
     (let plan = m_plans p ! i in (rp_unitId plan, planRequest plan, makeCorrelationId p (int i)))"

lemma send_calm:
  assumes "m_transport m = Some t"
  shows "\<exists>m'. sendRequest (reactingWrite calmReact) now uid pdu cid (c, m) = Some (c, m') \<and>
    m_transport m' = Some t \<and> map asked (m_pending m') = map asked (m_pending m) @ [(uid, pdu, cid)]"
  using assms
  by (simp add: sendRequest_def writeFrame_def Let_def asked_def markAttempt_def calm_write)

lemma pumpLoop_calm:
  assumes "m_running p" and "m_nextPlanIndex p = int i" and "m_transport m = Some t"
    and "i + k \<le> length (m_plans p)" and "m_requestsOutstanding p + int k \<le> window"
    and "k < length (m_plans p) - i \<longrightarrow> m_requestsOutstanding p + int k = window"
  shows "\<exists>m'. pumpLoop (reactingWrite calmReact) now window ((p, e), m) =
      Some ((p\<lparr>m_nextPlanIndex := int (i + k), m_requestsOutstanding := m_requestsOutstanding p + int k\<rparr>, e), m') \<and>
    map asked (m_pending m') = map asked (m_pending m) @ map (planAsked p) [i..<i + k]"
  using assms
proof (induction k arbitrary: p i m)
  case 0
  then have "\<not> (m_nextPlanIndex p < int (length (m_plans p)) \<and> m_requestsOutstanding p < window)" by auto
  then have "pumpLoop (reactingWrite calmReact) now window ((p, e), m) = Some ((p, e), m)"
    by (subst pumpLoop.simps) (auto simp: Let_def)
  moreover have "p\<lparr>m_nextPlanIndex := int i\<rparr> = p" using 0 by (cases p) simp
  ultimately show ?case by simp
next
  case (Suc k)
  let ?plan = "m_plans p ! i"
  let ?p1 = "p\<lparr>m_requestsOutstanding := m_requestsOutstanding p + 1\<rparr>"
  let ?p2 = "?p1\<lparr>m_nextPlanIndex := m_nextPlanIndex p + 1\<rparr>"
  obtain m1 where send: "sendRequest (reactingWrite calmReact) now (rp_unitId ?plan) (planRequest ?plan)
      (makeCorrelationId p (int i)) ((?p1, e), m) = Some ((?p1, e), m1)"
    and m1: "m_transport m1 = Some t" "map asked (m_pending m1) = map asked (m_pending m) @ [planAsked p i]"
    using send_calm [OF Suc.prems(3)] by (metis planAsked_def)
  have step: "pumpLoop (reactingWrite calmReact) now window ((p, e), m) =
      pumpLoop (reactingWrite calmReact) now window ((?p2, e), m1)"
    using Suc.prems send by (subst pumpLoop.simps) (simp add: Let_def onPoll_def)
  have same: "planAsked ?p2 = planAsked p"
    by (simp add: fun_eq_iff planAsked_def makeCorrelationId_def)
  have "\<exists>m'. pumpLoop (reactingWrite calmReact) now window ((?p2, e), m1) =
      Some ((?p2\<lparr>m_nextPlanIndex := int (Suc i + k), m_requestsOutstanding := m_requestsOutstanding ?p2 + int k\<rparr>, e), m') \<and>
    map asked (m_pending m') = map asked (m_pending m1) @ map (planAsked ?p2) [Suc i..<Suc i + k]"
    using Suc.prems m1 by (intro Suc.IH) auto
  then obtain m' where pump: "pumpLoop (reactingWrite calmReact) now window ((?p2, e), m1) =
      Some ((?p2\<lparr>m_nextPlanIndex := int (Suc i + k), m_requestsOutstanding := m_requestsOutstanding ?p2 + int k\<rparr>, e), m')"
    and pending: "map asked (m_pending m') = map asked (m_pending m1) @ map (planAsked p) [Suc i..<Suc i + k]"
    unfolding same by blast
  have upt: "[i..<i + Suc k] = i # [Suc i..<Suc i + k]" by (simp add: upt_conv_Cons del: upt_Suc)
  show ?case
  proof (intro exI [of _ m'] conjI)
    show "pumpLoop (reactingWrite calmReact) now window ((p, e), m) =
        Some ((p\<lparr>m_nextPlanIndex := int (i + Suc k), m_requestsOutstanding := m_requestsOutstanding p + int (Suc k)\<rparr>, e), m')"
      unfolding step pump by (simp add: ac_simps)
    show "map asked (m_pending m') = map asked (m_pending m) @ map (planAsked p) [i..<i + Suc k]"
      unfolding pending m1(2) upt by simp
  qed
qed

text \<open>Pumping sends the next plans' requests in order, each to its device and under the id of its
  plan, and exactly as many as fit: it stops when the plans are used up or the window is full. Over
  a transport that cannot pipeline the window is one request.\<close>

theorem pump_fills_window:
  assumes "m_running p" and "m_nextPlanIndex p = int i" and "i \<le> length (m_plans p)"
    and "m_transport m = Some t" and "window = (if t = TcpTransport then m_maxInFlight p else 1)"
    and "m_requestsOutstanding p \<le> window"
    and "k = min (length (m_plans p) - i) (nat (window - m_requestsOutstanding p))"
  shows "\<exists>m'. pumpRequests (reactingWrite calmReact) now ((p, e), m) =
      Some ((p\<lparr>m_nextPlanIndex := int (i + k), m_requestsOutstanding := m_requestsOutstanding p + int k\<rparr>, e), m') \<and>
    map asked (m_pending m') = map asked (m_pending m) @ map (planAsked p) [i..<i + k]"
proof -
  have "effectiveWindowSize ((p, e), m) = window"
    using assms(4,5) by (cases t) (simp_all add: effectiveWindowSize_def supportsPipelining_def)
  moreover have "i + k \<le> length (m_plans p)" "m_requestsOutstanding p + int k \<le> window"
    "k < length (m_plans p) - i \<longrightarrow> m_requestsOutstanding p + int k = window"
    using assms(3,6,7) by auto
  ultimately show ?thesis
    using pumpLoop_calm [OF assms(1,2,4)] by (simp add: pumpRequests_def)
qed

text \<open>A running engine with one plan, reached from the start.\<close>

definition samplePoll :: poll where
  "samplePoll = newPollEngine\<lparr>m_running := True, m_generation := 1,
     m_plans := [\<lparr>rp_unitId = 1, rp_registerType = Coil, rp_startAddress = 0, rp_quantity = 8, covered = []\<rparr>]\<rparr>"

theorem pump_fills_window_witness:
  "\<exists>m'. pumpRequests (reactingWrite calmReact) 0 ((samplePoll, ()), newTransactionManager (Some SerialTransport)) =
      Some ((samplePoll\<lparr>m_nextPlanIndex := 1, m_requestsOutstanding := 1\<rparr>, ()), m') \<and>
    map asked (m_pending m') = [(1, [1, 0, 0, 0, 8], 0x100000000)]"
proof -
  let ?m = "newTransactionManager (Some SerialTransport)"
  have hyps: "m_running samplePoll" "m_nextPlanIndex samplePoll = int 0" "0 \<le> length (m_plans samplePoll)"
    "m_transport ?m = Some SerialTransport"
    "1 = (if SerialTransport = TcpTransport then m_maxInFlight samplePoll else 1)"
    "m_requestsOutstanding samplePoll \<le> 1"
    "1 = min (length (m_plans samplePoll) - 0) (nat (1 - m_requestsOutstanding samplePoll))"
    by (simp_all add: samplePoll_def newPollEngine_def newTransactionManager_def setTransport_def)
  have "planAsked samplePoll 0 = (1, [1, 0, 0, 0, 8], 0x100000000)"
    by (simp add: planAsked_def samplePoll_def planRequest_def encodeReadRequest_def appendBigEndianU16_eq
        be16_def hi_byte_def lo_byte_def makeCorrelationId_def)
  moreover have "m_pending ?m = []" "m_requestsOutstanding samplePoll = 0"
    by (simp_all add: newTransactionManager_def setTransport_def samplePoll_def newPollEngine_def)
  ultimately show ?thesis
    using pump_fills_window [OF hyps, of 0 "()"] by simp
qed

lemma sample_run:
  obtains p m where "poll_reachable calmReact 0 ((p, ()), m)" "m_running p" "m_plans p \<noteq> []" "m_generation p = 1"
proof -
  let ?m = "newTransactionManager (Some SerialTransport)"
  let ?p1 = "newPollEngine\<lparr>m_targets := [longTarget], m_generation := 1, m_intervalTimer := None\<rparr>"
  obtain plans where plans: "coalesce [longTarget] defaultCoalescingOptions = Some plans"
    using coalescer.plans_exist [OF default_options_valid] by blast
  have nonempty: "plans \<noteq> []"
    using coalescer.value_carried [OF default_options_valid plans, of 0 0] by (auto simp: longTarget_def)
  let ?p2 = "?p1\<lparr>m_plans := plans, m_caches := [freshCache longTarget]\<rparr>"
  have t: "setTargets (reactingWrite calmReact) 0 [longTarget] ((newPollEngine, ()), ?m) = Some ((?p2, ()), cancelAll ?m)"
    using plans by (simp add: setTargets_def rebuildPlans_def newPollEngine_def Let_def)
  let ?p3 = "?p2\<lparr>m_running := True, m_nextPlanIndex := 0, m_requestsOutstanding := 0\<rparr>"
  have "\<exists>m'. pumpLoop (reactingWrite calmReact) 0 1 ((?p3, ()), cancelAll ?m) =
      Some ((?p3\<lparr>m_nextPlanIndex := int (0 + 1), m_requestsOutstanding := m_requestsOutstanding ?p3 + int 1\<rparr>, ()), m') \<and>
      map asked (m_pending m') = map asked (m_pending (cancelAll ?m)) @ map (planAsked ?p3) [0..<0 + 1]"
    using nonempty by (intro pumpLoop_calm [where t = SerialTransport])
      (simp_all add: newTransactionManager_def setTransport_def Suc_le_eq)
  then obtain m' where pump: "pumpLoop (reactingWrite calmReact) 0 1 ((?p3, ()), cancelAll ?m) =
      Some ((?p3\<lparr>m_nextPlanIndex := int (0 + 1), m_requestsOutstanding := m_requestsOutstanding ?p3 + int 1\<rparr>, ()), m')"
    by blast
  have window: "effectiveWindowSize ((?p3, ()), cancelAll ?m) = 1"
    by (simp add: effectiveWindowSize_def supportsPipelining_def newTransactionManager_def setTransport_def)
  let ?p4 = "?p3\<lparr>m_nextPlanIndex := int (0 + 1), m_requestsOutstanding := m_requestsOutstanding ?p3 + int 1\<rparr>"
  have s: "startPoll (reactingWrite calmReact) 0 ((?p2, ()), cancelAll ?m) = Some ((?p4, ()), m')"
    using nonempty window pump by (simp add: startPoll_def beginCycle_def pumpRequests_def onPoll_def newPollEngine_def)
  have "poll_step calmReact (0, ((newPollEngine, ()), ?m)) (0, ((?p2, ()), cancelAll ?m))"
    by (rule poll_step.targets [OF _ t]) (simp add: newPollEngine_def)
  moreover have "poll_step calmReact (0, ((?p2, ()), cancelAll ?m)) (0, ((?p4, ()), m'))"
    by (rule poll_step.start) (rule s)
  ultimately have "poll_reachable calmReact 0 ((?p4, ()), m')"
    unfolding poll_reachable_def by (meson r_into_rtranclp rtranclp.rtrancl_into_rtrancl)
  then show thesis by (rule that) (simp_all add: nonempty)
qed

theorem polling_never_stalls_witness:
  "\<exists>p m. poll_reachable calmReact 0 ((p, ()), m) \<and> m_running p \<and> m_plans p \<noteq> [] \<and>
     (m_intervalTimer p \<noteq> None \<or> m_timeoutTimer m \<noteq> None)"
proof -
  obtain p m where r: "poll_reachable calmReact 0 ((p, ()), m)" "m_running p" "m_plans p \<noteq> []"
    by (rule sample_run)
  from polling_never_stalls [OF this] r show ?thesis by blast
qed

theorem outstanding_count_exact_witness:
  "\<exists>p m. poll_reachable calmReact 0 ((p, ()), m) \<and> m_running p \<and> m_requestsOutstanding p =
      int (length (filter (\<lambda>r. isCurrentGeneration p (correlationId r)) (m_pending m)))"
proof -
  obtain p m where r: "poll_reachable calmReact 0 ((p, ()), m)" "m_running p" "m_plans p \<noteq> []" "m_generation p = 1"
    by (rule sample_run)
  then have "m_generation p \<noteq> 0" by simp
  from outstanding_count_exact [OF r(1) this] r show ?thesis by blast
qed

theorem engine_state_wellformed_witness:
  "\<exists>p m. poll_reachable calmReact 0 ((p, ()), m) \<and> m_plans p \<noteq> [] \<and> cachesMatch p"
proof -
  obtain p m where r: "poll_reachable calmReact 0 ((p, ()), m)" "m_running p" "m_plans p \<noteq> []"
    by (rule sample_run)
  from engine_state_wellformed [OF r(1)] r show ?thesis by blast
qed

section \<open>The engine as a client of the receiving loops\<close>

text \<open>Over a working transport the engine's slot neither reads nor changes the receive buffer.\<close>

lemma outside_buffer_send:
  "m\<lparr>m_receiveBuffer := b, m_nextTransactionId := n\<rparr> = m\<lparr>m_nextTransactionId := n, m_receiveBuffer := b\<rparr>"
  "markAttempt now (m\<lparr>m_receiveBuffer := b\<rparr>) r = markAttempt now m r"
  "frameFor (m\<lparr>m_receiveBuffer := b\<rparr>) r = frameFor m r"
  by (cases m; simp add: markAttempt_def frameFor_def)+

lemma send_setRx:
  "sendRequest (reactingWrite calmReact) now uid pdu cid (setRxBuffer b s) =
     map_option (setRxBuffer b) (sendRequest (reactingWrite calmReact) now uid pdu cid s)"
  by (cases s) (simp add: sendRequest_def writeFrame_def setRxBuffer_pair outside_buffer
      outside_buffer_send Let_def calm_write split: option.splits)

lemma pumpLoop_setRx:
  "pumpLoop (reactingWrite calmReact) now window (setRxBuffer b ((p, e), m)) =
     map_option (setRxBuffer b) (pumpLoop (reactingWrite calmReact) now window ((p, e), m))"
proof (induction "nat (int (length (m_plans p)) - m_nextPlanIndex p)" arbitrary: p e m rule: less_induct)
  case less
  let ?s = "((p, e), m)"
  show ?case
  proof (cases "m_running p \<and> m_nextPlanIndex p < int (length (m_plans p)) \<and> m_requestsOutstanding p < window")
    case False
    then show ?thesis
      by (subst (1 2) pumpLoop.simps) (auto simp: Let_def setRxBuffer_pair)
  next
    case True
    let ?plan = "m_plans p ! nat (m_nextPlanIndex p)"
    let ?p1 = "p\<lparr>m_requestsOutstanding := m_requestsOutstanding p + 1\<rparr>"
    let ?send = "sendRequest (reactingWrite calmReact) now (rp_unitId ?plan) (planRequest ?plan)
        (makeCorrelationId p (m_nextPlanIndex p))"
    let ?next = "\<lambda>s. pumpLoop (reactingWrite calmReact) now window
        (onPoll (\<lambda>p. p\<lparr>m_nextPlanIndex := m_nextPlanIndex p + 1\<rparr>) s)"
    show ?thesis
    proof (cases "0 \<le> m_nextPlanIndex p")
      case False
      then show ?thesis using True
        by (subst (1 2) pumpLoop.simps) (auto simp: Let_def setRxBuffer_pair list_at_out)
    next
      case nonneg: True
      have left: "pumpLoop (reactingWrite calmReact) now window (setRxBuffer b ?s)
          = Option.bind (?send (setRxBuffer b ((?p1, e), m))) ?next"
        using True nonneg by (subst pumpLoop.simps) (simp add: Let_def setRxBuffer_pair onPoll_def)
      have right: "pumpLoop (reactingWrite calmReact) now window ?s = Option.bind (?send ((?p1, e), m)) ?next"
        using True nonneg by (subst pumpLoop.simps) (simp add: Let_def onPoll_def)
      show ?thesis
      proof (cases "?send ((?p1, e), m)")
        case None
        then show ?thesis unfolding left right send_setRx by simp
      next
        case (Some s1)
        have s1: "fst s1 = (?p1, e)"
          using Some by (auto simp: sendRequest_def writeFrame_def Let_def calm_write split: option.splits)
        then obtain m1 where m1: "s1 = ((?p1, e), m1)" by (metis prod.collapse)
        let ?p2 = "?p1\<lparr>m_nextPlanIndex := m_nextPlanIndex p + 1\<rparr>"
        have "nat (int (length (m_plans ?p2)) - m_nextPlanIndex ?p2) < nat (int (length (m_plans p)) - m_nextPlanIndex p)"
          using True by simp
        from less.hyps [OF this, of e m1] show ?thesis
          unfolding left right send_setRx Some by (simp add: m1 onPoll_def setRxBuffer_pair)
      qed
    qed
  qed
qed

lemma pumpRequests_setRx:
  "pumpRequests (reactingWrite calmReact) now (setRxBuffer b s) =
     map_option (setRxBuffer b) (pumpRequests (reactingWrite calmReact) now s)"
proof -
  obtain p e m where s: "s = ((p, e), m)" by (metis prod.exhaust)
  have "effectiveWindowSize (setRxBuffer b s) = effectiveWindowSize s"
    by (simp add: s setRxBuffer_pair effectiveWindowSize_def supportsPipelining_def)
  then show ?thesis using pumpLoop_setRx by (simp add: pumpRequests_def s)
qed

lemma onPoll_setRx: "onPoll g (setRxBuffer b s) = setRxBuffer b (onPoll g s)"
  by (cases s; cases "fst s") (simp add: onPoll_def setRxBuffer_pair)

lemma poll_of_setRx [simp]: "poll_of (setRxBuffer b s) = poll_of s"
  by (simp add: setRxBuffer_def)

lemma noteRequestSettled_setRx:
  "noteRequestSettled (reactingWrite calmReact) now (setRxBuffer b s) =
     map_option (setRxBuffer b) (noteRequestSettled (reactingWrite calmReact) now s)"
proof -
  let ?s = "onPoll (\<lambda>p. p\<lparr>m_requestsOutstanding := max 0 (m_requestsOutstanding p - 1)\<rparr>) s"
  show ?thesis
    by (cases "pumpRequests (reactingWrite calmReact) now ?s")
      (simp_all add: noteRequestSettled_def onPoll_setRx pumpRequests_setRx Let_def)
qed

lemma handleResponse_transparent: "buffer_transparent (handleResponse (reactingWrite calmReact) now)"
  unfolding buffer_transparent_def
proof (intro allI)
  fix cid pdu b and s :: "(poll \<times> 'a) world"
  show "handleResponse (reactingWrite calmReact) now cid pdu (setRxBuffer b s) =
      map_option (setRxBuffer b) (handleResponse (reactingWrite calmReact) now cid pdu s)"
    by (cases "applyPlanResponse now (m_plans (poll_of s) ! nat (planIndexOf cid)) pdu (poll_of s)")
      (simp_all add: handleResponse_def Let_def onPoll_setRx noteRequestSettled_setRx)
qed

interpretation engine: response_client "handleResponse (reactingWrite calmReact) now" now for now
  by (rule response_client.intro) (rule handleResponse_transparent)

text \<open>The poll engine may be fed the byte stream in any chunks: over a working transport, delivering
  two chunks one after the other or joined leaves engine and manager in the same state, as long as
  something is still pending after the first.\<close>

theorem engine_chunks_do_not_matter:
  fixes s :: "'e app"
  assumes "m_pending (snd s) \<noteq> []" and "m_framingMode (snd s) = Rtu"
    and "handleDataReceived (handleResponse (reactingWrite calmReact) now) now a s = Some s'"
    and "m_pending (snd s') \<noteq> []" and "m_framingMode (snd s') = Rtu"
  shows "handleDataReceived (handleResponse (reactingWrite calmReact) now) now (a @ b) s =
    handleDataReceived (handleResponse (reactingWrite calmReact) now) now b s'"
proof -
  let ?s = "setRxBuffer (rx s @ a) s"
  have eq: "handleDataReceived (handleResponse (reactingWrite calmReact) now) now x t =
      consumeRtuFrames (handleResponse (reactingWrite calmReact) now) now (setRxBuffer (rx t @ x) t)"
    if "m_pending (snd t) \<noteq> []" "m_framingMode (snd t) = Rtu" for x and t :: "'e app"
    using that by (cases t) (simp add: handleDataReceived_def setRxBuffer_pair)
  have "\<not> nothingPending s'" using assms(4) by (simp add: nothingPending_def)
  moreover have "consumeRtuFrames (handleResponse (reactingWrite calmReact) now) now ?s = Some s'"
    using eq assms(1-3) by simp
  ultimately have "consumeRtuFrames (handleResponse (reactingWrite calmReact) now) now (setRxBuffer (rx ?s @ b) ?s) =
      consumeRtuFrames (handleResponse (reactingWrite calmReact) now) now (setRxBuffer (rx s' @ b) s')"
    by (intro engine.rtu_chunk) simp_all
  then show ?thesis using eq assms(1,2,4,5) by simp
qed

theorem engine_chunks_do_not_matter_witness:
  "let m = (setFramingMode Rtu (newTransactionManager (Some SerialTransport)))\<lparr>m_pending := [sampleRequest]\<rparr>;
       s = ((newPollEngine, ()), m)
   in \<forall>b. handleDataReceived (handleResponse (reactingWrite calmReact) 0) 0 ([1] @ b) s =
        handleDataReceived (handleResponse (reactingWrite calmReact) 0) 0 b
          ((newPollEngine, ()), m\<lparr>m_receiveBuffer := [1]\<rparr>)"
proof -
  let ?m = "(setFramingMode Rtu (newTransactionManager (Some SerialTransport)))\<lparr>m_pending := [sampleRequest]\<rparr>"
  have m: "m_pending ?m \<noteq> []" "m_framingMode ?m = Rtu" "m_receiveBuffer ?m = []"
    by (simp_all add: newTransactionManager_def setTransport_def setFramingMode_def)
  have "handleDataReceived (handleResponse (reactingWrite calmReact) 0) 0 [1] ((newPollEngine, ()), ?m)
      = Some ((newPollEngine, ()), ?m\<lparr>m_receiveBuffer := [1]\<rparr>)"
    using m by (simp add: handleDataReceived_def Let_def consumeRtuFrames.simps expectedRtuResponseLength_short)
  from engine_chunks_do_not_matter [OF _ _ this] m show ?thesis by (simp add: Let_def)
qed

end
