(* ===== verification/Rtu_Timing.thy ===== *)
theory Rtu_Timing
  imports Prelude
begin

text \<open>
  \<open>core/modbus/RtuTiming.cpp\<close>: how long a serial line has to stay silent between two RTU frames.
  C++ \<open>int\<close> division truncates towards zero; both dividends and divisors are positive here, where
  \<open>div\<close> agrees with it.
\<close>

definition RtuCharacterBits :: int where "RtuCharacterBits = 11"

definition FixedInterFrameSilenceMicroseconds :: int where
  "FixedInterFrameSilenceMicroseconds = 1750"

definition MaxBaudRateForCalculatedSilence :: int where
  "MaxBaudRateForCalculatedSilence = 19200"

definition MicrosecondsPerSecond :: int where "MicrosecondsPerSecond = 1000000"

definition characterTimeMicroseconds :: "int \<Rightarrow> int" where
  "characterTimeMicroseconds baudRate =
     (if baudRate \<le> 0 then 0 else (RtuCharacterBits * MicrosecondsPerSecond) div baudRate)"

definition interFrameSilenceMicroseconds :: "int \<Rightarrow> int" where
  "interFrameSilenceMicroseconds baudRate =
     (if baudRate \<le> 0 \<or> baudRate > MaxBaudRateForCalculatedSilence
      then FixedInterFrameSilenceMicroseconds
      else (35 * RtuCharacterBits * MicrosecondsPerSecond) div (10 * baudRate))"

lemmas timing_constants = RtuCharacterBits_def FixedInterFrameSilenceMicroseconds_def
  MaxBaudRateForCalculatedSilence_def MicrosecondsPerSecond_def

lemma div_between:
  assumes "0 < (d :: int)"
  shows "n div d * d \<le> n \<and> n < (n div d + 1) * d"
proof -
  have "n div d * d + n mod d = n" by simp
  with pos_mod_bound [OF assms, of n] pos_mod_sign [OF assms, of n] show ?thesis
    unfolding distrib_right by linarith
qed

lemma silence_calculated:
  "0 < b \<Longrightarrow> b \<le> 19200 \<Longrightarrow> interFrameSilenceMicroseconds b = 385000000 div (10 * b)"
  by (simp add: interFrameSilenceMicroseconds_def timing_constants)

text \<open>At a calculated rate the pause is three and a half character times rounded down to a whole
  microsecond; at every rate it is at least the fixed pause of 1750 microseconds, at most 38.5 seconds,
  and a faster line never waits longer than a slower one.\<close>

theorem silence_is_three_and_a_half_characters:
  "(b \<in> {1..19200} \<longrightarrow>
      10 * b * interFrameSilenceMicroseconds b \<le> 35 * RtuCharacterBits * MicrosecondsPerSecond \<and>
      35 * RtuCharacterBits * MicrosecondsPerSecond < 10 * b * (interFrameSilenceMicroseconds b + 1)) \<and>
   FixedInterFrameSilenceMicroseconds \<le> interFrameSilenceMicroseconds b \<and>
   interFrameSilenceMicroseconds b \<le> 38500000 \<and>
   (0 < b \<and> b \<le> b' \<longrightarrow> interFrameSilenceMicroseconds b' \<le> interFrameSilenceMicroseconds b)"
proof -
  have low: "2005 \<le> interFrameSilenceMicroseconds b" if "0 < b" "b \<le> 19200" for b
  proof -
    have "385000000 div 192000 \<le> 385000000 div (10 * b)" using that by (intro zdiv_mono2) auto
    with that show ?thesis by (simp add: silence_calculated)
  qed
  have high: "interFrameSilenceMicroseconds b \<le> 38500000"
  proof (cases "0 < b \<and> b \<le> 19200")
    case True
    then have "385000000 div (10 * b) \<le> 385000000 div 10" by (intro zdiv_mono2) auto
    with True show ?thesis by (simp add: silence_calculated)
  qed (auto simp: interFrameSilenceMicroseconds_def timing_constants)
  have anti: "interFrameSilenceMicroseconds b' \<le> interFrameSilenceMicroseconds b"
    if "0 < b" "b \<le> b'"
  proof (cases "b' \<le> 19200")
    case True
    with that have "385000000 div (10 * b') \<le> 385000000 div (10 * b)" by (intro zdiv_mono2) auto
    with that True show ?thesis by (simp add: silence_calculated)
  next
    case False
    with that low [of b] show ?thesis
      by (cases "b \<le> 19200") (auto simp: interFrameSilenceMicroseconds_def timing_constants)
  qed
  have "FixedInterFrameSilenceMicroseconds \<le> interFrameSilenceMicroseconds b"
    using low [of b] by (cases "0 < b \<and> b \<le> 19200")
      (auto simp: interFrameSilenceMicroseconds_def timing_constants)
  moreover have "b \<in> {1..19200} \<longrightarrow>
      10 * b * interFrameSilenceMicroseconds b \<le> 385000000 \<and>
      385000000 < 10 * b * (interFrameSilenceMicroseconds b + 1)"
    using div_between [of "10 * b" 385000000] by (auto simp: silence_calculated algebra_simps)
  ultimately show ?thesis
    using high anti by (simp add: timing_constants)
qed

theorem silence_is_three_and_a_half_characters_witness:
  "interFrameSilenceMicroseconds 9600 = 4010 \<and>
   interFrameSilenceMicroseconds 115200 \<le> interFrameSilenceMicroseconds 9600"
  using silence_is_three_and_a_half_characters [of 9600 115200]
  by (simp add: interFrameSilenceMicroseconds_def timing_constants)

text \<open>One character time, and the pause against it: never shorter than three of them.\<close>

lemma character_time_bounds:
  "0 < b \<Longrightarrow> characterTimeMicroseconds b * b \<le> RtuCharacterBits * MicrosecondsPerSecond"
  using div_between [of b 11000000] by (simp add: characterTimeMicroseconds_def timing_constants)

end
