(* ===== verification/Transports.thy ===== *)
theory Transports
  imports Rtu_Timing Transaction_Manager
begin

text \<open>
  \<open>core/transport\<close>: what the program does around Qt's sockets and serial ports.

  \<^item> A transport's signals are values of \<open>TransportSignal\<close>; an operation returns those it emits, in order.
  \<^item> What Qt itself does is an argument: the signals a socket emits while it is opened or closed, and
    the outcome of \<open>QSerialPort::open\<close>, which may depend on whether the port is already open.
  \<^item> Instants and \<open>QElapsedTimer\<close> are in nanoseconds, sleeping in microseconds as in the code.
\<close>

datatype TransportSignal = ConnectionStateChanged bool | ErrorOccurred string

section \<open>What a socket or port sets off\<close>

text \<open>The slots connected in the constructors. \<open>QSerialPort\<close> emits \<open>errorOccurred(NoError)\<close> when it clears
  its error; that is the flag of \<open>PortError\<close>.\<close>

datatype TransportOutput = DataReceived bytes | Reports TransportSignal

datatype SocketEvent = ReadyRead bytes | SocketConnected | SocketDisconnected | SocketError string

fun tcpSlot :: "SocketEvent \<Rightarrow> TransportOutput" where
  "tcpSlot (ReadyRead available) = DataReceived available"
| "tcpSlot SocketConnected = Reports (ConnectionStateChanged True)"
| "tcpSlot SocketDisconnected = Reports (ConnectionStateChanged False)"
| "tcpSlot (SocketError errorString) = Reports (ErrorOccurred errorString)"

datatype PortEvent = PortReadyRead bytes | PortError bool string

fun portSlot :: "PortEvent \<Rightarrow> TransportOutput option" where
  "portSlot (PortReadyRead available) = Some (DataReceived available)"
| "portSlot (PortError noError errorString) = (if noError then None else Some (Reports (ErrorOccurred errorString)))"

section \<open>TCP\<close>

record tcp =
  tcp_host :: string
  tcp_port :: u16

definition tcpSetHost :: "string \<Rightarrow> tcp \<Rightarrow> tcp" where "tcpSetHost host s = s\<lparr>tcp_host := host\<rparr>"
definition tcpSetPort :: "u16 \<Rightarrow> tcp \<Rightarrow> tcp" where "tcpSetPort port s = s\<lparr>tcp_port := port\<rparr>"

text \<open>\<open>abort()\<close> and \<open>connectToHost()\<close>: whatever they emit at once; the outcome arrives later.\<close>

definition tcpOpen :: "(string \<Rightarrow> u16 \<Rightarrow> TransportSignal list) \<Rightarrow> tcp \<Rightarrow> TransportSignal list \<times> bool" where
  "tcpOpen socket s = (socket (tcp_host s) (tcp_port s), True)"

section \<open>Serial ports\<close>

record SerialPortSettings =
  ps_portName :: string
  ps_baudRate :: int
  ps_dataBits :: int
  ps_parity :: int
  ps_stopBits :: int

record serial =
  se_settings :: SerialPortSettings
  se_isOpen :: bool
  se_sinceLastFrame :: "int option"

text \<open>The outcome of \<open>QSerialPort::open\<close>: the errors it emits, and the error text when it fails.\<close>

type_synonym portOutcome = "string list \<times> string option"

definition serialSetSettings :: "SerialPortSettings \<Rightarrow> serial \<Rightarrow> serial" where
  "serialSetSettings settings s = s\<lparr>se_settings := settings\<rparr>"

definition serialOpen ::
    "(bool \<Rightarrow> SerialPortSettings \<Rightarrow> portOutcome) \<Rightarrow> serial \<Rightarrow> serial \<times> TransportSignal list \<times> bool" where
  "serialOpen port s =
     (if ps_portName (se_settings s) = []
      then (s, [ErrorOccurred ''No serial port selected.''], False)
      else case port (se_isOpen s) (se_settings s) of
             (errs, Some e) \<Rightarrow>
               (s, map ErrorOccurred errs @
                   [ErrorOccurred (''Could not open '' @ ps_portName (se_settings s) @ '': '' @ e)], False)
           | (errs, None) \<Rightarrow>
               (s\<lparr>se_isOpen := True, se_sinceLastFrame := None\<rparr>,
                map ErrorOccurred errs @ [ConnectionStateChanged True], True))"

definition serialClose :: "serial \<Rightarrow> serial \<times> TransportSignal list" where
  "serialClose s =
     (if \<not> se_isOpen s then (s, []) else (s\<lparr>se_isOpen := False\<rparr>, [ConnectionStateChanged False]))"

text \<open>How long \<open>write\<close> sleeps before it hands a frame to the port.\<close>

definition waitForInterFrameSilence :: "int \<Rightarrow> serial \<Rightarrow> int" where
  "waitForInterFrameSilence now s =
     (case se_sinceLastFrame s of
        None \<Rightarrow> 0
      | Some t \<Rightarrow>
          let requiredUs = interFrameSilenceMicroseconds (ps_baudRate (se_settings s));
              elapsedUs = (now - t) div 1000
          in if requiredUs \<le> elapsedUs then 0 else requiredUs - elapsedUs)"

text \<open>\<open>write\<close>: the instant at which the frame is handed to the port, and the timer restarted then.\<close>

definition serialWrite :: "int \<Rightarrow> serial \<Rightarrow> serial \<times> int" where
  "serialWrite now s =
     (let at = now + 1000 * waitForInterFrameSilence now s in (s\<lparr>se_sinceLastFrame := Some at\<rparr>, at))"

fun serialWrites :: "int list \<Rightarrow> serial \<Rightarrow> int list" where
  "serialWrites [] s = []"
| "serialWrites (now # calls) s = (let (s, at) = serialWrite now s in at # serialWrites calls s)"

lemma serialWrite_gap:
  assumes "se_sinceLastFrame s = Some t" and "serialWrite now s = (s', at)"
  shows "1000 * interFrameSilenceMicroseconds (ps_baudRate (se_settings s)) \<le> at - t \<and> now \<le> at \<and>
    se_sinceLastFrame s' = Some at \<and> se_settings s' = se_settings s"
proof -
  have "1000 * ((now - t) div 1000) \<le> now - t" by simp
  then show ?thesis
    using assms by (auto simp: serialWrite_def waitForInterFrameSilence_def Let_def)
qed

lemma interFrameSilence_nonneg: "0 \<le> interFrameSilenceMicroseconds b"
  by (simp add: interFrameSilenceMicroseconds_def timing_constants div_int_pos_iff)

lemma serialWrites_after:
  assumes "se_sinceLastFrame s = Some t"
  shows "sorted_wrt (\<lambda>a b. 1000 * interFrameSilenceMicroseconds (ps_baudRate (se_settings s)) \<le> b - a)
      (t # serialWrites calls s) \<and> list_all2 (\<le>) calls (serialWrites calls s)"
  using assms
proof (induction calls arbitrary: s t)
  case (Cons now calls)
  obtain s' at where w: "serialWrite now s = (s', at)" by (cases "serialWrite now s")
  from serialWrite_gap [OF Cons.prems w]
  have gap: "1000 * interFrameSilenceMicroseconds (ps_baudRate (se_settings s)) \<le> at - t" "now \<le> at"
    "se_sinceLastFrame s' = Some at" "se_settings s' = se_settings s" by blast+
  from Cons.IH [OF gap(3)] gap(4)
  have IH: "sorted_wrt (\<lambda>a b. 1000 * interFrameSilenceMicroseconds (ps_baudRate (se_settings s)) \<le> b - a)
      (at # serialWrites calls s')" "list_all2 (\<le>) calls (serialWrites calls s')" by simp_all
  have "1000 * interFrameSilenceMicroseconds (ps_baudRate (se_settings s)) \<le> x - t"
    if "x \<in> set (serialWrites calls s')" for x
    using IH(1) that gap(1) interFrameSilence_nonneg [of "ps_baudRate (se_settings s)"] by force
  with IH gap(1,2) show ?case by (simp add: w)
qed simp

text \<open>However close together the writes to a serial port come, each frame is handed to the port at
  least the inter-frame silence of the baud rate after the frame before it was, and never before it was
  asked for. (The port transmits on its own, so this is the distance between the hand-overs, not the
  silence on the wire.)\<close>

theorem serial_writes_keep_apart:
  "sorted_wrt (\<lambda>a b. 1000 * interFrameSilenceMicroseconds (ps_baudRate (se_settings s)) \<le> b - a) (serialWrites calls s) \<and>
   list_all2 (\<le>) calls (serialWrites calls s)"
proof (cases calls)
  case (Cons now rest)
  obtain s' at where w: "serialWrite now s = (s', at)" by (cases "serialWrite now s")
  then have s': "se_sinceLastFrame s' = Some at" "se_settings s' = se_settings s" "now \<le> at"
    by (auto simp: serialWrite_def waitForInterFrameSilence_def Let_def split: option.splits)
  from serialWrites_after [OF s'(1), of rest] s'(2,3) show ?thesis by (simp add: Cons w)
qed simp

end
