(* ===== verification/Value_Formatter.thy ===== *)
theory Value_Formatter
  imports Register_Model Qt_Text
begin

text \<open>
  \<open>core/format/ValueFormatter.cpp\<close> and \<open>core/model/RegisterDefinition.h\<close>: raw registers to display
  text and back.

  \<^item> Doubles and the parsing of numbers are Qt's: \<open>'d\<close> is the type of doubles and the record
    \<open>'d numerics\<close> holds the operations the code calls. What some properties rely on of them is
    \<open>exactNumerics\<close>, all of it documented behaviour: texts of digits are read as the number they
    spell, and integers below two to the 53 are exact as doubles.
  \<^item> \<open>parseValue\<close> returns the registers and the value of \<open>*ok\<close>.
  \<^item> \<open>first()\<close> and \<open>at(i)\<close> on too short a list are \<open>None\<close>.
\<close>

datatype DisplayFormat =
  SignedDecimal | UnsignedDecimal | Hex | Binary | Float32 | Int32Signed | Int32Unsigned

datatype ByteOrder = ABCD | BADC | CDAB | DCBA

record 'd FormatSettings =
  fs_format :: DisplayFormat
  fs_byteOrder :: ByteOrder
  fs_scale :: 'd
  fs_offset :: 'd
  fs_unit :: string

record 'd numerics =
  ofInt :: "int \<Rightarrow> 'd"
  mul :: "'d \<Rightarrow> 'd \<Rightarrow> 'd"
  add :: "'d \<Rightarrow> 'd \<Rightarrow> 'd"
  sub :: "'d \<Rightarrow> 'd \<Rightarrow> 'd"
  dvd_op :: "'d \<Rightarrow> 'd \<Rightarrow> 'd"
  fuzzyOne :: "'d \<Rightarrow> bool"
  fuzzyNull :: "'d \<Rightarrow> bool"
  round64 :: "'d \<Rightarrow> int"
  numberText :: "'d \<Rightarrow> string"
  toDouble :: "string \<Rightarrow> 'd option"
  ofFloatBits :: "u32 \<Rightarrow> 'd"
  toFloatBits :: "'d \<Rightarrow> u32"
  toUInt :: "nat \<Rightarrow> string \<Rightarrow> u32 option"
  toInt :: "string \<Rightarrow> int option"

section \<open>Byte orders\<close>

definition join32 :: "u8 \<Rightarrow> u8 \<Rightarrow> u8 \<Rightarrow> u8 \<Rightarrow> u32" where
  "join32 a b c d =
     push_bit 24 (ucast a) OR push_bit 16 (ucast b) OR push_bit 8 (ucast c) OR ucast d"

definition packBytes :: "u16 \<Rightarrow> u16 \<Rightarrow> ByteOrder \<Rightarrow> u32" where
  "packBytes r0 r1 byteOrder =
     (let h0 = ucast (drop_bit 8 r0); l0 = ucast (r0 AND 0xFF);
          h1 = ucast (drop_bit 8 r1); l1 = ucast (r1 AND 0xFF)
      in case byteOrder of
           ABCD \<Rightarrow> join32 h0 l0 h1 l1
         | BADC \<Rightarrow> join32 l0 h0 l1 h1
         | CDAB \<Rightarrow> join32 h1 l1 h0 l0
         | DCBA \<Rightarrow> join32 l1 h1 l0 h0)"

definition unpackToRegisters :: "u32 \<Rightarrow> ByteOrder \<Rightarrow> u16 list" where
  "unpackToRegisters value32 byteOrder =
     (let a = ucast (drop_bit 24 value32 AND 0xFF) :: u8;
          b = ucast (drop_bit 16 value32 AND 0xFF) :: u8;
          c = ucast (drop_bit 8 value32 AND 0xFF) :: u8;
          d = ucast (value32 AND 0xFF) :: u8
      in case byteOrder of
           ABCD \<Rightarrow> [push_bit 8 (ucast a) OR ucast b, push_bit 8 (ucast c) OR ucast d]
         | BADC \<Rightarrow> [push_bit 8 (ucast b) OR ucast a, push_bit 8 (ucast d) OR ucast c]
         | CDAB \<Rightarrow> [push_bit 8 (ucast c) OR ucast d, push_bit 8 (ucast a) OR ucast b]
         | DCBA \<Rightarrow> [push_bit 8 (ucast d) OR ucast c, push_bit 8 (ucast b) OR ucast a])"

fun registerSpanFor :: "DisplayFormat \<Rightarrow> nat" where
  "registerSpanFor Float32 = 2"
| "registerSpanFor Int32Signed = 2"
| "registerSpanFor Int32Unsigned = 2"
| "registerSpanFor _ = 1"

section \<open>Formatting\<close>

definition isDefaultScaling :: "'d numerics \<Rightarrow> 'd FormatSettings \<Rightarrow> bool" where
  "isDefaultScaling N settings \<longleftrightarrow> fuzzyOne N (fs_scale settings) \<and> fuzzyNull N (fs_offset settings)"

definition withUnit :: "string \<Rightarrow> 'd FormatSettings \<Rightarrow> string" where
  "withUnit numericText settings =
     (if fs_unit settings = [] then numericText else numericText @ '' '' @ fs_unit settings)"

definition scaled :: "'d numerics \<Rightarrow> 'd FormatSettings \<Rightarrow> 'd \<Rightarrow> 'd" where
  "scaled N settings v = add N (mul N v (fs_scale settings)) (fs_offset settings)"

definition numericValue :: "'d numerics \<Rightarrow> 'd FormatSettings \<Rightarrow> u16 list \<Rightarrow> 'd option" where
  "numericValue N settings rawRegisters =
     (case fs_format settings of
        Hex \<Rightarrow> do { r \<leftarrow> list_at rawRegisters 0; Some (ofInt N (uint r)) }
      | Binary \<Rightarrow> do { r \<leftarrow> list_at rawRegisters 0; Some (ofInt N (uint r)) }
      | SignedDecimal \<Rightarrow> do { r \<leftarrow> list_at rawRegisters 0; Some (scaled N settings (ofInt N (sint r))) }
      | UnsignedDecimal \<Rightarrow> do { r \<leftarrow> list_at rawRegisters 0; Some (scaled N settings (ofInt N (uint r))) }
      | Float32 \<Rightarrow> do { r0 \<leftarrow> list_at rawRegisters 0; r1 \<leftarrow> list_at rawRegisters 1;
          Some (scaled N settings (ofFloatBits N (packBytes r0 r1 (fs_byteOrder settings)))) }
      | Int32Signed \<Rightarrow> do { r0 \<leftarrow> list_at rawRegisters 0; r1 \<leftarrow> list_at rawRegisters 1;
          Some (scaled N settings (ofInt N (sint (packBytes r0 r1 (fs_byteOrder settings))))) }
      | Int32Unsigned \<Rightarrow> do { r0 \<leftarrow> list_at rawRegisters 0; r1 \<leftarrow> list_at rawRegisters 1;
          Some (scaled N settings (ofInt N (uint (packBytes r0 r1 (fs_byteOrder settings))))) })"

definition formatValue :: "'d numerics \<Rightarrow> 'd FormatSettings \<Rightarrow> u16 list \<Rightarrow> string option" where
  "formatValue N settings rawRegisters =
     (let defaultScaling = isDefaultScaling N settings;
          numeric = map_option (numberText N) (numericValue N settings rawRegisters)
      in case fs_format settings of
        Hex \<Rightarrow> do { r \<leftarrow> list_at rawRegisters 0;
          Some (''0x'' @ rightJustified 4 CHR ''0'' (toUpper (nat_digits 16 (unat r)))) }
      | Binary \<Rightarrow> do { r \<leftarrow> list_at rawRegisters 0;
          Some (rightJustified 16 CHR ''0'' (nat_digits 2 (unat r))) }
      | SignedDecimal \<Rightarrow> do { r \<leftarrow> list_at rawRegisters 0;
          t \<leftarrow> (if defaultScaling then Some (number (sint r)) else numeric);
          Some (withUnit t settings) }
      | UnsignedDecimal \<Rightarrow> do { r \<leftarrow> list_at rawRegisters 0;
          t \<leftarrow> (if defaultScaling then Some (number (uint r)) else numeric);
          Some (withUnit t settings) }
      | Float32 \<Rightarrow> do { t \<leftarrow> numeric; Some (withUnit t settings) }
      | Int32Signed \<Rightarrow> do { r0 \<leftarrow> list_at rawRegisters 0; r1 \<leftarrow> list_at rawRegisters 1;
          t \<leftarrow> (if defaultScaling then Some (number (sint (packBytes r0 r1 (fs_byteOrder settings)))) else numeric);
          Some (withUnit t settings) }
      | Int32Unsigned \<Rightarrow> do { r0 \<leftarrow> list_at rawRegisters 0; r1 \<leftarrow> list_at rawRegisters 1;
          t \<leftarrow> (if defaultScaling then Some (number (uint (packBytes r0 r1 (fs_byteOrder settings)))) else numeric);
          Some (withUnit t settings) })"

section \<open>Parsing\<close>

definition endsWith :: "string \<Rightarrow> string \<Rightarrow> bool" where
  "endsWith s suffix \<longleftrightarrow> length suffix \<le> length s \<and> drop (length s - length suffix) s = suffix"

definition chop :: "nat \<Rightarrow> string \<Rightarrow> string" where
  "chop n s = take (length s - n) s"

definition startsWithNoCase :: "string \<Rightarrow> string \<Rightarrow> bool" where
  "startsWithNoCase s prefix \<longleftrightarrow> toLower (take (length prefix) s) = toLower prefix"

definition stripUnit :: "'d FormatSettings \<Rightarrow> string \<Rightarrow> string" where
  "stripUnit settings text =
     (let suffix = '' '' @ fs_unit settings
      in if fs_unit settings \<noteq> [] \<and> endsWith text suffix then chop (length suffix) text else text)"

definition parseValue :: "'d numerics \<Rightarrow> 'd FormatSettings \<Rightarrow> string \<Rightarrow> u16 list \<times> bool" where
  "parseValue N settings text =
     (let numericText = stripUnit settings text
      in if fs_format settings = Hex then
           let hex = (if startsWithNoCase numericText ''0x'' then drop 2 numericText else numericText)
           in (case toUInt N 16 hex of None \<Rightarrow> ([], False) | Some v \<Rightarrow> ([ucast v], True))
         else if fs_format settings = Binary then
           (case toUInt N 2 numericText of None \<Rightarrow> ([], False) | Some v \<Rightarrow> ([ucast v], True))
         else case toDouble N numericText of
           None \<Rightarrow> ([], False)
         | Some numeric \<Rightarrow>
             let raw = (if isDefaultScaling N settings then numeric
                        else dvd_op N (sub N numeric (fs_offset settings)) (fs_scale settings))
             in case fs_format settings of
                  SignedDecimal \<Rightarrow> ([word_of_int (round64 N raw)], True)
                | UnsignedDecimal \<Rightarrow> ([word_of_int (round64 N raw)], True)
                | Float32 \<Rightarrow> (unpackToRegisters (toFloatBits N raw) (fs_byteOrder settings), True)
                | Int32Signed \<Rightarrow> (unpackToRegisters (word_of_int (round64 N raw)) (fs_byteOrder settings), True)
                | Int32Unsigned \<Rightarrow> (unpackToRegisters (word_of_int (round64 N raw)) (fs_byteOrder settings), True)
                | _ \<Rightarrow> ([], False))"

section \<open>Tags\<close>

datatype TagSource = Imported | AdHoc

record 'd RegisterDefinition =
  rd_label :: string
  rd_description :: string
  rd_registerType :: RegisterType
  rd_address :: int
  rd_format :: "'d FormatSettings"
  rd_source :: TagSource

definition registerSpan :: "'d RegisterDefinition \<Rightarrow> nat" where
  "registerSpan tag =
     (if isBitRegisterType (rd_registerType tag) then 1 else registerSpanFor (fs_format (rd_format tag)))"

definition defaultFormat :: "'d numerics \<Rightarrow> 'd FormatSettings" where
  "defaultFormat N = \<lparr>fs_format = UnsignedDecimal, fs_byteOrder = ABCD, fs_scale = ofInt N 1,
     fs_offset = ofInt N 0, fs_unit = []\<rparr>"

section \<open>Byte orders: facts\<close>

lemma join32_byte_simps:
  "ucast (drop_bit 24 (join32 a b c d) AND 0xFF) = a"
  "ucast (drop_bit 16 (join32 a b c d) AND 0xFF) = b"
  "ucast (drop_bit 8 (join32 a b c d) AND 0xFF) = c"
  "ucast (join32 a b c d AND 0xFF) = d"
  by (rule bit_word_eqI; auto simp: join32_def and_255 bit_simps dest: bit_imp_le_length)+

lemma join32_bytes:
  "join32 (ucast (drop_bit 24 v AND 0xFF)) (ucast (drop_bit 16 v AND 0xFF))
     (ucast (drop_bit 8 v AND 0xFF)) (ucast (v AND 0xFF)) = v"
proof (rule bit_word_eqI)
  fix n assume n: "n < LENGTH(32)"
  consider "n < 8" | "8 \<le> n" "n < 16" | "16 \<le> n" "n < 24" | "24 \<le> n" by linarith
  then show "bit (join32 (ucast (drop_bit 24 v AND 0xFF)) (ucast (drop_bit 16 v AND 0xFF))
      (ucast (drop_bit 8 v AND 0xFF)) (ucast (v AND 0xFF))) n \<longleftrightarrow> bit v n"
    using n by cases (auto simp: join32_def and_255 bit_simps)
qed

lemma ucast_hi_byte: "(ucast (drop_bit 8 (r :: u16)) :: u8) = hi_byte r"
  by (rule bit_word_eqI) (auto simp: hi_byte_def and_255 bit_simps)

lemma ucast_lo_byte: "(ucast (r AND 0xFF :: u16) :: u8) = lo_byte r"
  by (simp add: lo_byte_def)

lemma packBytes_eq:
  "packBytes r0 r1 ABCD = join32 (hi_byte r0) (lo_byte r0) (hi_byte r1) (lo_byte r1)"
  "packBytes r0 r1 BADC = join32 (lo_byte r0) (hi_byte r0) (lo_byte r1) (hi_byte r1)"
  "packBytes r0 r1 CDAB = join32 (hi_byte r1) (lo_byte r1) (hi_byte r0) (lo_byte r0)"
  "packBytes r0 r1 DCBA = join32 (lo_byte r1) (hi_byte r1) (lo_byte r0) (hi_byte r0)"
  by (simp_all add: packBytes_def ucast_hi_byte ucast_lo_byte)

lemma unpackToRegisters_join:
  "unpackToRegisters (join32 a b c d) ABCD = [join16 a b, join16 c d]"
  "unpackToRegisters (join32 a b c d) BADC = [join16 b a, join16 d c]"
  "unpackToRegisters (join32 a b c d) CDAB = [join16 c d, join16 a b]"
  "unpackToRegisters (join32 a b c d) DCBA = [join16 d c, join16 b a]"
  by (simp_all add: unpackToRegisters_def Let_def join32_byte_simps join16_def)

lemma unpack_pack: "unpackToRegisters (packBytes r0 r1 o') o' = [r0, r1]"
  by (cases o') (simp_all add: packBytes_eq unpackToRegisters_join)

lemma pack_unpack: "unpackToRegisters v o' = [r0, r1] \<Longrightarrow> packBytes r0 r1 o' = v"
proof -
  assume u: "unpackToRegisters v o' = [r0, r1]"
  obtain a b c d where v: "v = join32 a b c d" using join32_bytes [of v] by metis
  from u show "packBytes r0 r1 o' = v"
    unfolding v by (cases o') (auto simp: unpackToRegisters_join packBytes_eq)
qed

text \<open>For every byte order the two registers and the 32-bit value determine each other: packing and
  unpacking are inverse, and the four orders are the word swap and the byte swap of big-endian.\<close>

theorem byte_orders_bijective:
  "unpackToRegisters (packBytes r0 r1 bo) bo = [r0, r1] \<and>
   (\<exists>s0 s1. unpackToRegisters v bo = [s0, s1] \<and> packBytes s0 s1 bo = v) \<and>
   packBytes r0 r1 CDAB = packBytes r1 r0 ABCD \<and> packBytes r0 r1 DCBA = packBytes r1 r0 BADC \<and>
   packBytes (join16 a b) (join16 c d) BADC = packBytes (join16 b a) (join16 d c) ABCD"
proof -
  have "\<exists>s0 s1. unpackToRegisters v bo = [s0, s1]"
    by (cases bo) (simp_all add: unpackToRegisters_def Let_def)
  then have "\<exists>s0 s1. unpackToRegisters v bo = [s0, s1] \<and> packBytes s0 s1 bo = v"
    using pack_unpack by blast
  then show ?thesis by (simp add: unpack_pack packBytes_eq)
qed

section \<open>Texts that are read back\<close>

definition exactNumerics :: "'d numerics \<Rightarrow> bool" where
  "exactNumerics N \<longleftrightarrow>
     (\<forall>n < 4294967296. \<forall>z.
        toUInt N 16 (replicate z CHR ''0'' @ toUpper (nat_digits 16 n)) = Some (word_of_nat n) \<and>
        toUInt N 2 (replicate z CHR ''0'' @ nat_digits 2 n) = Some (word_of_nat n)) \<and>
     (\<forall>i. \<bar>i\<bar> < 9007199254740992 \<longrightarrow>
        toDouble N (number i) = Some (ofInt N i) \<and> round64 N (ofInt N i) = i)"

lemma exact_hex:
  "exactNumerics N \<Longrightarrow> n < 4294967296 \<Longrightarrow>
   toUInt N 16 (replicate z CHR ''0'' @ toUpper (nat_digits 16 n)) = Some (word_of_nat n)"
  unfolding exactNumerics_def by blast

lemma exact_binary:
  "exactNumerics N \<Longrightarrow> n < 4294967296 \<Longrightarrow>
   toUInt N 2 (replicate z CHR ''0'' @ nat_digits 2 n) = Some (word_of_nat n)"
  unfolding exactNumerics_def by blast

lemma exact_decimal:
  "exactNumerics N \<Longrightarrow> \<bar>i\<bar> < 9007199254740992 \<Longrightarrow>
   toDouble N (number i) = Some (ofInt N i) \<and> round64 N (ofInt N i) = i"
  unfolding exactNumerics_def by blast

lemma endsWith_set: "endsWith s suffix \<Longrightarrow> set suffix \<subseteq> set s"
  unfolding endsWith_def by (metis set_drop_subset)

lemma stripUnit_no_blank: "CHR '' '' \<notin> set s \<Longrightarrow> stripUnit settings s = s"
  using endsWith_set [of s "'' '' @ fs_unit settings"] by (auto simp: stripUnit_def Let_def)

lemma stripUnit_withUnit: "CHR '' '' \<notin> set s \<Longrightarrow> stripUnit settings (withUnit s settings) = s"
  by (cases "fs_unit settings = []")
    (simp_all add: withUnit_def stripUnit_no_blank stripUnit_def endsWith_def chop_def)

lemma nat_digits_chars: "2 \<le> b \<Longrightarrow> set (nat_digits b n) \<subseteq> digit_char ` {..<b}"
proof (induction b n rule: nat_digits.induct)
  case (1 b n)
  then show ?case by (subst nat_digits.simps) auto
qed

lemma code_digit_char: "d < 36 \<Longrightarrow> of_char (digit_char d) = (if d < 10 then 48 + d else 87 + d)"
  by (simp add: digit_char_def)

lemma code_upper_char:
  "(of_char (upper_char c) :: nat) = (let n = of_char c in if 97 \<le> n \<and> n \<le> 122 then n - 32 else n)"
  using of_char_mod_256 [of c, where ?'a = nat]
  by (auto simp: upper_char_def Let_def)

lemma digit_not_blank:
  assumes "d < 36"
  shows "digit_char d \<noteq> CHR '' ''" and "upper_char (digit_char d) \<noteq> CHR '' ''"
proof -
  have "(of_char (digit_char d) :: nat) \<noteq> of_char CHR '' ''"
    using code_digit_char [OF assms] assms by simp
  then show "digit_char d \<noteq> CHR '' ''" by (rule contrapos_nn) (rule arg_cong)
  have "(of_char (upper_char (digit_char d)) :: nat) \<noteq> of_char CHR '' ''"
    unfolding code_upper_char code_digit_char [OF assms] Let_def using assms by simp
  then show "upper_char (digit_char d) \<noteq> CHR '' ''" by (rule contrapos_nn) (rule arg_cong)
qed

lemma digits_no_blank:
  assumes "2 \<le> b" "b \<le> 36"
  shows "CHR '' '' \<notin> set (nat_digits b n)" and "CHR '' '' \<notin> set (toUpper (nat_digits b n))"
proof -
  have "\<forall>c \<in> set (nat_digits b n). \<exists>d < 36. c = digit_char d"
    using nat_digits_chars [OF assms(1), of n] assms(2) by force
  then show "CHR '' '' \<notin> set (nat_digits b n)" and "CHR '' '' \<notin> set (toUpper (nat_digits b n))"
    using digit_not_blank by (auto simp: toUpper_def dest!: sym [of "CHR '' ''"])
qed

lemma number_no_blank: "CHR '' '' \<notin> set (number i)"
  using digits_no_blank(1) [of 10] by (simp add: number_def)

lemma ucast_u16_u32: "(ucast (ucast (r :: u16) :: u32) :: u16) = r"
  by (rule bit_word_eqI) (auto simp: bit_simps)

lemma starts_with_0x: "startsWithNoCase (CHR ''0'' # CHR ''x'' # s) ''0x''"
  by (simp add: startsWithNoCase_def toLower_def)

lemma hex_roundtrip:
  assumes N: "exactNumerics N" and f: "fs_format settings = Hex"
  shows "\<exists>t. formatValue N settings [r] = Some t \<and> parseValue N settings t = ([r], True)"
proof -
  define h where "h = toUpper (nat_digits 16 (unat r))"
  define z where "z = replicate (4 - length h) CHR ''0'' @ h"
  have "CHR '' '' \<notin> set (''0x'' @ z)"
    using digits_no_blank(2) [of 16 "unat r"] by (simp add: z_def h_def)
  from stripUnit_no_blank [OF this] have strip: "stripUnit settings (''0x'' @ z) = ''0x'' @ z" .
  have val: "toUInt N 16 z = Some (word_of_nat (unat r))"
    unfolding z_def h_def by (rule exact_hex [OF N]) (use u16_lt [of r] in simp)
  have "formatValue N settings [r] = Some (''0x'' @ z)"
    by (simp add: f formatValue_def rightJustified_def z_def h_def)
  moreover have "parseValue N settings (''0x'' @ z) = ([r], True)"
    unfolding parseValue_def strip Let_def using val
    by (simp add: f starts_with_0x ucast_u16_u32)
  ultimately show ?thesis by blast
qed

lemma binary_roundtrip:
  assumes N: "exactNumerics N" and f: "fs_format settings = Binary"
  shows "\<exists>t. formatValue N settings [r] = Some t \<and> parseValue N settings t = ([r], True)"
proof -
  define h where "h = nat_digits 2 (unat r)"
  define z where "z = replicate (16 - length h) CHR ''0'' @ h"
  have "CHR '' '' \<notin> set z"
    using digits_no_blank(1) [of 2 "unat r"] by (simp add: z_def h_def)
  from stripUnit_no_blank [OF this] have strip: "stripUnit settings z = z" .
  have val: "toUInt N 2 z = Some (word_of_nat (unat r))"
    unfolding z_def h_def by (rule exact_binary [OF N]) (use u16_lt [of r] in simp)
  have "formatValue N settings [r] = Some z"
    by (simp add: f formatValue_def rightJustified_def z_def h_def)
  moreover have "parseValue N settings z = ([r], True)"
    unfolding parseValue_def strip Let_def using val by (simp add: f ucast_u16_u32)
  ultimately show ?thesis by blast
qed


text \<open>
  Numbers that are exact: the operations over the integers, with the parsers Qt documents (digits of
  the base in either case, an optional sign for decimals).
\<close>

definition char_digit :: "char \<Rightarrow> nat" where
  "char_digit c =
     (let n = of_char c :: nat
      in if 48 \<le> n \<and> n \<le> 57 then n - 48
         else if 97 \<le> n \<and> n \<le> 122 then n - 87
         else if 65 \<le> n \<and> n \<le> 90 then n - 55 else 36)"

definition digits_value :: "nat \<Rightarrow> string \<Rightarrow> nat" where
  "digits_value b s = foldl (\<lambda>v c. v * b + char_digit c) 0 s"

definition parse_nat :: "nat \<Rightarrow> string \<Rightarrow> nat option" where
  "parse_nat b s = (if s \<noteq> [] \<and> (\<forall>c \<in> set s. char_digit c < b) then Some (digits_value b s) else None)"

definition parse_int :: "string \<Rightarrow> int option" where
  "parse_int s = (if take 1 s = ''-'' then map_option (\<lambda>n. - int n) (parse_nat 10 (drop 1 s))
                  else map_option int (parse_nat 10 s))"

definition int_numerics :: "int numerics" where
  "int_numerics = \<lparr>ofInt = (\<lambda>i. i), mul = (*), add = (+), sub = (-), dvd_op = (div),
     fuzzyOne = (\<lambda>d. d = 1), fuzzyNull = (\<lambda>d. d = 0), round64 = (\<lambda>d. d), numberText = number,
     toDouble = parse_int, ofFloatBits = (\<lambda>_. 0), toFloatBits = (\<lambda>_. 0),
     toUInt = (\<lambda>b s. case parse_nat b s of None \<Rightarrow> None
       | Some n \<Rightarrow> if n < 4294967296 then Some (word_of_nat n) else None),
     toInt = parse_int\<rparr>"

lemma char_digit_digit: "d < 36 \<Longrightarrow> char_digit (digit_char d) = d"
  by (simp add: char_digit_def code_digit_char)

lemma char_digit_upper: "d < 36 \<Longrightarrow> char_digit (upper_char (digit_char d)) = d"
  by (simp add: char_digit_def code_upper_char code_digit_char Let_def)

lemma digits_value_snoc: "digits_value b (s @ [c]) = digits_value b s * b + char_digit c"
  by (simp add: digits_value_def)

lemma digits_value_zeros: "digits_value b (replicate z CHR ''0'' @ s) = digits_value b s"
proof -
  have "char_digit CHR ''0'' = 0" by (simp add: char_digit_def)
  then have "foldl (\<lambda>v c. v * b + char_digit c) 0 (replicate z CHR ''0'') = 0" by (induction z) simp_all
  then show ?thesis by (simp add: digits_value_def)
qed

lemma digits_value_nat_digits:
  "2 \<le> b \<Longrightarrow> b \<le> 36 \<Longrightarrow> digits_value b (nat_digits b n) = n \<and> digits_value b (toUpper (nat_digits b n)) = n"
proof (induction b n rule: nat_digits.induct)
  case (1 b n)
  show ?case
  proof (cases "n < b")
    case True
    then show ?thesis using 1
      by (subst (1 2) nat_digits.simps)
        (simp add: digits_value_def toUpper_def char_digit_digit char_digit_upper)
  next
    case False
    then have "n mod b < 36" using 1 mod_less_divisor [of b n] by linarith
    with False 1 show ?thesis
      by (subst (1 2) nat_digits.simps)
        (simp add: digits_value_snoc toUpper_def char_digit_digit char_digit_upper)
  qed
qed

lemma digits_are_digits:
  assumes "2 \<le> b" "b \<le> 36" "c \<in> set (nat_digits b n) \<union> set (toUpper (nat_digits b n))"
  shows "char_digit c < b"
proof -
  have "\<forall>c \<in> set (nat_digits b n). \<exists>d < b. c = digit_char d"
    using nat_digits_chars [OF assms(1), of n] by force
  with assms show ?thesis
    by (auto simp: toUpper_def char_digit_digit char_digit_upper)
qed

lemma parse_nat_digits:
  assumes "2 \<le> b" "b \<le> 36"
  shows "parse_nat b (replicate z CHR ''0'' @ nat_digits b n) = Some n"
    and "parse_nat b (replicate z CHR ''0'' @ toUpper (nat_digits b n)) = Some n"
proof -
  have "char_digit CHR ''0'' < b" using assms by (simp add: char_digit_def)
  moreover have "toUpper (nat_digits b n) \<noteq> []" by (simp add: toUpper_def)
  ultimately show "parse_nat b (replicate z CHR ''0'' @ nat_digits b n) = Some n"
    and "parse_nat b (replicate z CHR ''0'' @ toUpper (nat_digits b n)) = Some n"
    using digits_are_digits [OF assms] digits_value_nat_digits [OF assms]
    by (auto simp: parse_nat_def digits_value_zeros)
qed

lemma parse_int_number: "parse_int (number i) = Some i"
proof -
  have hd: "take 1 (nat_digits 10 n) \<noteq> ''-''" for n
  proof
    assume "take 1 (nat_digits 10 n) = ''-''"
    then have "CHR ''-'' \<in> set (nat_digits 10 n)"
      by (metis in_set_takeD list.set_intros(1))
    from digits_are_digits [of 10 "CHR ''-''" n] this show False by (simp add: char_digit_def)
  qed
  show ?thesis
    using hd parse_nat_digits(1) [of 10 0] by (simp add: parse_int_def number_def)
qed

lemma int_numerics_exact: "exactNumerics int_numerics"
  using parse_nat_digits [of 16] parse_nat_digits [of 2] parse_int_number
  by (simp add: exactNumerics_def int_numerics_def)


lemma ucast_word_of_nat: "(ucast (word_of_nat n :: u32) :: u16) = word_of_nat n"
  by (rule bit_word_eqI) (auto simp: bit_simps)

text \<open>\<open>parseValue\<close> has no range check: a hexadecimal or binary number of up to 32 bits, and a decimal
  number of any size the doubles hold exactly, is accepted with \<open>*ok\<close> set for a 16-bit register and
  silently reduced modulo two to the 16.\<close>

theorem out_of_range_input_truncated:
  assumes "exactNumerics N" and "n < 4294967296" and "\<bar>i\<bar> < 9007199254740992"
  shows "(fs_format settings = Hex \<longrightarrow>
           parseValue N settings (''0x'' @ toUpper (nat_digits 16 n)) = ([word_of_nat n], True)) \<and>
         (fs_format settings = Binary \<longrightarrow>
           parseValue N settings (nat_digits 2 n) = ([word_of_nat n], True)) \<and>
         (fs_format settings \<in> {SignedDecimal, UnsignedDecimal} \<and> isDefaultScaling N settings \<longrightarrow>
           parseValue N settings (number i) = ([word_of_int i], True))"
proof -
  have hex: "stripUnit settings (''0x'' @ toUpper (nat_digits 16 n)) = ''0x'' @ toUpper (nat_digits 16 n)"
    by (rule stripUnit_no_blank) (use digits_no_blank(2) [of 16 n] in simp)
  have bin: "stripUnit settings (nat_digits 2 n) = nat_digits 2 n"
    by (rule stripUnit_no_blank) (use digits_no_blank(1) [of 2 n] in simp)
  have dec: "stripUnit settings (number i) = number i"
    by (rule stripUnit_no_blank [OF number_no_blank])
  have "fs_format settings = Hex \<Longrightarrow>
      parseValue N settings (''0x'' @ toUpper (nat_digits 16 n)) = ([word_of_nat n], True)"
    unfolding parseValue_def hex Let_def using exact_hex [OF assms(1,2), of 0]
    by (simp add: starts_with_0x ucast_word_of_nat)
  moreover have "fs_format settings = Binary \<Longrightarrow>
      parseValue N settings (nat_digits 2 n) = ([word_of_nat n], True)"
    unfolding parseValue_def bin Let_def using exact_binary [OF assms(1,2), of 0]
    by (simp add: ucast_word_of_nat)
  moreover have "fs_format settings \<in> {SignedDecimal, UnsignedDecimal} \<and> isDefaultScaling N settings \<Longrightarrow>
      parseValue N settings (number i) = ([word_of_int i], True)"
    unfolding parseValue_def dec Let_def using exact_decimal [OF assms(1,3)] by auto
  ultimately show ?thesis by blast
qed

theorem out_of_range_input_truncated_witness:
  "parseValue int_numerics \<lparr>fs_format = Hex, fs_byteOrder = ABCD, fs_scale = 1, fs_offset = 0,
     fs_unit = []\<rparr> (''0x'' @ toUpper (nat_digits 16 0x12345)) = ([0x2345], True)"
  using out_of_range_input_truncated [OF int_numerics_exact, of "0x12345" 0
    "\<lparr>fs_format = Hex, fs_byteOrder = ABCD, fs_scale = 1, fs_offset = 0, fs_unit = []\<rparr>"] by simp

end
