(* ===== verification/Tag_Import.thy ===== *)
theory Tag_Import
  imports Value_Formatter
begin

text \<open>
  \<open>core/importer\<close>: register maps from CSV and JSON files (the controller that opens them is in \<open>Favorites\<close>).

  \<^item> A tag's raw fields (\<open>QMap<QString, QString>\<close>) are a map from lower-case names to texts.
  \<^item> A row's outcome is a sum: the error message or the tag.
  \<^item> Qt supplies the lines of a CSV file (\<open>QTextStream::readLineInto\<close>) and the structure of a JSON
    document (\<open>QJsonDocument::fromJson\<close>): they are arguments, a list of lines and a \<open>JsonText\<close>.
  \<^item> Numbers are read by the \<open>numerics\<close> parameter, as in \<open>Value_Formatter\<close>.
\<close>

section \<open>One row\<close>

type_synonym tag_row = "string \<rightharpoonup> string"

definition fieldText :: "tag_row \<Rightarrow> string \<Rightarrow> string" where
  "fieldText row name = trimmed (case row name of None \<Rightarrow> [] | Some v \<Rightarrow> v)"

definition parseRegisterTypeName :: "string \<Rightarrow> RegisterType option" where
  "parseRegisterTypeName s =
     (if equalsNoCase s ''Coil'' then Some Coil
      else if equalsNoCase s ''DiscreteInput'' then Some DiscreteInput
      else if equalsNoCase s ''HoldingRegister'' then Some HoldingRegister
      else if equalsNoCase s ''InputRegister'' then Some InputRegister
      else None)"

definition parseDisplayFormatName :: "string \<Rightarrow> DisplayFormat option" where
  "parseDisplayFormatName s =
     (if equalsNoCase s ''SignedDecimal'' then Some SignedDecimal
      else if equalsNoCase s ''UnsignedDecimal'' then Some UnsignedDecimal
      else if equalsNoCase s ''Hex'' then Some Hex
      else if equalsNoCase s ''Binary'' then Some Binary
      else if equalsNoCase s ''Float32'' then Some Float32
      else if equalsNoCase s ''Int32Signed'' then Some Int32Signed
      else if equalsNoCase s ''Int32Unsigned'' then Some Int32Unsigned
      else None)"

definition parseByteOrderName :: "string \<Rightarrow> ByteOrder option" where
  "parseByteOrderName s =
     (if equalsNoCase s ''ABCD'' then Some ABCD
      else if equalsNoCase s ''BADC'' then Some BADC
      else if equalsNoCase s ''CDAB'' then Some CDAB
      else if equalsNoCase s ''DCBA'' then Some DCBA
      else None)"

definition quoted :: "string \<Rightarrow> string" where
  "quoted s = CHR 0x27 # s @ [CHR 0x27]"

text \<open>An optional field: blank keeps the default, a text that is not understood is an error.\<close>

definition optionalField :: "string \<Rightarrow> (string \<Rightarrow> 'v option) \<Rightarrow> 'v \<Rightarrow> string \<Rightarrow> string + 'v" where
  "optionalField complaint parse fallback s =
     (if s = [] then Inr fallback
      else case parse s of None \<Rightarrow> Inl (complaint @ '' '' @ quoted s) | Some v \<Rightarrow> Inr v)"

definition parseFormatFields :: "'d numerics \<Rightarrow> tag_row \<Rightarrow> string + 'd FormatSettings" where
  "parseFormatFields N row =
     andThen (optionalField ''unrecognized format'' parseDisplayFormatName
                (fs_format (defaultFormat N)) (fieldText row ''format'')) (\<lambda>f.
     andThen (optionalField ''unrecognized byteOrder'' parseByteOrderName
                (fs_byteOrder (defaultFormat N)) (fieldText row ''byteorder'')) (\<lambda>b.
     andThen (optionalField ''invalid scale'' (toDouble N)
                (fs_scale (defaultFormat N)) (fieldText row ''scale'')) (\<lambda>scale.
     andThen (optionalField ''invalid offset'' (toDouble N)
                (fs_offset (defaultFormat N)) (fieldText row ''offset'')) (\<lambda>offset.
     Inr \<lparr>fs_format = f, fs_byteOrder = b, fs_scale = scale, fs_offset = offset,
          fs_unit = fieldText row ''unit''\<rparr>))))"

definition parseTagRow :: "'d numerics \<Rightarrow> tag_row \<Rightarrow> string + 'd RegisterDefinition" where
  "parseTagRow N row =
     (let label = fieldText row ''label'';
          registerTypeText = fieldText row ''registertype'';
          addressText = fieldText row ''address''
      in if label = [] then Inl (''missing required field '' @ quoted ''label'')
         else case parseRegisterTypeName registerTypeText of
           None \<Rightarrow> Inl (''unrecognized registerType '' @ quoted registerTypeText)
         | Some registerType \<Rightarrow>
             (case toInt N addressText of
                None \<Rightarrow> Inl (''invalid address '' @ quoted addressText)
              | Some address \<Rightarrow>
                  if address < 0 then Inl (''invalid address '' @ quoted addressText)
                  else andThen (parseFormatFields N row) (\<lambda>format.
                    Inr \<lparr>rd_label = label, rd_description = fieldText row ''description'',
                         rd_registerType = registerType, rd_address = address, rd_format = format,
                         rd_source = Imported\<rparr>)))"

section \<open>CSV files\<close>

record 'd TagParseResult =
  tr_tags :: "'d RegisterDefinition list"
  tr_errors :: "string list"

text \<open>\<open>columnIndex\<close>: the trimmed lower-case column names; of two equal names the last column counts.\<close>

fun indexColumns :: "nat \<Rightarrow> string list \<Rightarrow> (string \<rightharpoonup> nat) \<Rightarrow> (string \<rightharpoonup> nat)" where
  "indexColumns i [] columnIndex = columnIndex"
| "indexColumns i (c # cs) columnIndex = indexColumns (i + 1) cs (columnIndex(toLower (trimmed c) \<mapsto> i))"

definition requiredColumns :: "string list" where
  "requiredColumns = [''label'', ''registertype'', ''address'']"

definition missingColumns :: "(string \<rightharpoonup> nat) \<Rightarrow> string list" where
  "missingColumns columnIndex = filter (\<lambda>c. columnIndex c = None) requiredColumns"

definition rowFields :: "(string \<rightharpoonup> nat) \<Rightarrow> string list \<Rightarrow> tag_row" where
  "rowFields columnIndex vals =
     (\<lambda>k. map_option (\<lambda>i. if i < length vals then vals ! i else []) (columnIndex k))"

definition addOutcome ::
    "string \<Rightarrow> string + 'd RegisterDefinition \<Rightarrow> 'd TagParseResult \<Rightarrow> 'd TagParseResult" where
  "addOutcome prefix outcome result =
     (case outcome of
        Inl e \<Rightarrow> result\<lparr>tr_errors := tr_errors result @ [prefix @ '': '' @ e]\<rparr>
      | Inr tag \<Rightarrow> result\<lparr>tr_tags := tr_tags result @ [tag]\<rparr>)"

fun parseCsvRows ::
    "'d numerics \<Rightarrow> (string \<rightharpoonup> nat) \<Rightarrow> int \<Rightarrow> string list \<Rightarrow> 'd TagParseResult \<Rightarrow> 'd TagParseResult" where
  "parseCsvRows N columnIndex lineNumber [] result = result"
| "parseCsvRows N columnIndex lineNumber (line # lines) result =
     (let lineNumber = lineNumber + 1
      in if trimmed line = [] then parseCsvRows N columnIndex lineNumber lines result
         else parseCsvRows N columnIndex lineNumber lines
                (addOutcome (''Row '' @ number lineNumber)
                   (parseTagRow N (rowFields columnIndex (splitOn CHR '','' line))) result))"

definition parseCsv :: "'d numerics \<Rightarrow> string list \<Rightarrow> 'd TagParseResult" where
  "parseCsv N lines =
     (case lines of
        [] \<Rightarrow> \<lparr>tr_tags = [], tr_errors = [''Empty file: no header row found'']\<rparr>
      | headerLine # rows \<Rightarrow>
          let columnIndex = indexColumns 0 (splitOn CHR '','' headerLine) Map.empty;
              missing = missingColumns columnIndex
          in if missing \<noteq> []
             then \<lparr>tr_tags = [],
                   tr_errors = [''Missing required column(s): '' @ joinWith '', '' missing]\<rparr>
             else parseCsvRows N columnIndex 1 rows \<lparr>tr_tags = [], tr_errors = []\<rparr>)"

section \<open>JSON files\<close>

text \<open>
  What \<open>QJsonDocument::fromJson\<close> reports: an error text, a document that is no array, or the items of
  the array. An object is the list of its members in iteration order, each value already as
  \<open>toVariant().toString()\<close> gives it.
\<close>

datatype JsonItem = JsonObject "(string \<times> string) list" | JsonOther

datatype JsonText = JsonError string | JsonNotArray | JsonArray "JsonItem list"

definition objectFields :: "(string \<times> string) list \<Rightarrow> tag_row" where
  "objectFields members = foldl (\<lambda>row (k, v). row(toLower k \<mapsto> v)) Map.empty members"

fun parseJsonItems :: "'d numerics \<Rightarrow> int \<Rightarrow> JsonItem list \<Rightarrow> 'd TagParseResult \<Rightarrow> 'd TagParseResult" where
  "parseJsonItems N i [] result = result"
| "parseJsonItems N i (item # items) result =
     parseJsonItems N (i + 1) items
       (addOutcome (''Item '' @ number (i + 1))
          (case item of
             JsonOther \<Rightarrow> Inl ''not an object''
           | JsonObject members \<Rightarrow> parseTagRow N (objectFields members)) result)"

definition parseJson :: "'d numerics \<Rightarrow> JsonText \<Rightarrow> 'd TagParseResult" where
  "parseJson N doc =
     (case doc of
        JsonError e \<Rightarrow> \<lparr>tr_tags = [], tr_errors = [''Invalid JSON: '' @ e]\<rparr>
      | JsonNotArray \<Rightarrow>
          \<lparr>tr_tags = [], tr_errors = [''Expected a JSON array of tag objects at the root'']\<rparr>
      | JsonArray items \<Rightarrow> parseJsonItems N 0 items \<lparr>tr_tags = [], tr_errors = []\<rparr>)"

section \<open>What an import reports\<close>

text \<open>The rows that count, with their line numbers in the file.\<close>

fun numberedRows :: "int \<Rightarrow> string list \<Rightarrow> (int \<times> string) list" where
  "numberedRows n [] = []"
| "numberedRows n (line # lines) =
     (if trimmed line = [] then numberedRows (n + 1) lines else (n, line) # numberedRows (n + 1) lines)"

definition goodOnes :: "('p \<times> (string + 'v)) list \<Rightarrow> 'v list" where
  "goodOnes outs = concat (map (\<lambda>(p, r). case r of Inl e \<Rightarrow> [] | Inr v \<Rightarrow> [v]) outs)"

definition complaints :: "(string \<times> (string + 'v)) list \<Rightarrow> string list" where
  "complaints outs = concat (map (\<lambda>(p, r). case r of Inl e \<Rightarrow> [p @ '': '' @ e] | Inr v \<Rightarrow> []) outs)"

lemma goodOnes_simps [simp]:
  "goodOnes [] = []" "goodOnes ((p, Inl e) # outs) = goodOnes outs"
  "goodOnes ((p, Inr v) # outs) = v # goodOnes outs"
  by (simp_all add: goodOnes_def)

lemma complaints_simps [simp]:
  "complaints [] = []" "complaints ((p, Inl e) # outs) = (p @ '': '' @ e) # complaints outs"
  "complaints ((p, Inr v) # outs) = complaints outs"
  by (simp_all add: complaints_def)

lemma complaints_length: "length (goodOnes outs) + length (complaints outs) = length outs"
proof (induction outs)
  case (Cons out outs)
  then show ?case by (cases out; cases "snd out") auto
qed simp

lemma complaints_Nil: "\<forall>(p, r) \<in> set outs. \<exists>v. r = Inr v \<Longrightarrow> complaints outs = []"
  by (induction outs) auto

lemma parseCsvRows_eq:
  "parseCsvRows N idx n rows result =
     (let outs = map (\<lambda>(k, line). (''Row '' @ number k, parseTagRow N (rowFields idx (splitOn CHR '','' line))))
                   (numberedRows (n + 1) rows)
      in result\<lparr>tr_tags := tr_tags result @ goodOnes outs, tr_errors := tr_errors result @ complaints outs\<rparr>)"
proof (induction rows arbitrary: n result)
  case (Cons line rows)
  then show ?case
    by (cases "parseTagRow N (rowFields idx (splitOn CHR '','' line))") (simp_all add: Let_def addOutcome_def)
qed simp

lemma parseJsonItems_eq:
  "parseJsonItems N i items result =
     (let outs = map (\<lambda>(k, item). (''Item '' @ number (int k + 1),
                    case item of JsonOther \<Rightarrow> Inl ''not an object''
                    | JsonObject members \<Rightarrow> parseTagRow N (objectFields members))) (enumerate (nat i) items)
      in result\<lparr>tr_tags := tr_tags result @ goodOnes outs, tr_errors := tr_errors result @ complaints outs\<rparr>)"
  if "0 \<le> i"
  using that
proof (induction items arbitrary: i result)
  case (Cons item items)
  have suc: "nat (i + 1) = Suc (nat i)" using Cons.prems by simp
  show ?case
  proof (cases "case item of JsonOther \<Rightarrow> Inl ''not an object'' | JsonObject m \<Rightarrow> parseTagRow N (objectFields m)")
    case (Inl e)
    then show ?thesis using Cons.IH [of "i + 1"] Cons.prems by (simp add: Let_def addOutcome_def suc)
  next
    case (Inr v)
    then show ?thesis using Cons.IH [of "i + 1"] Cons.prems by (simp add: Let_def addOutcome_def suc)
  qed
qed simp

definition headerColumns :: "string \<Rightarrow> (string \<rightharpoonup> nat)" where
  "headerColumns header = indexColumns 0 (splitOn CHR '','' header) Map.empty"

text \<open>Every row that counts, under its name, with what it gives.\<close>

definition rowOutcomes ::
    "'d numerics \<Rightarrow> (string \<rightharpoonup> nat) \<Rightarrow> string list \<Rightarrow> (string \<times> (string + 'd RegisterDefinition)) list" where
  "rowOutcomes N idx rows =
     map (\<lambda>(k, line). (''Row '' @ number k, parseTagRow N (rowFields idx (splitOn CHR '','' line))))
       (numberedRows 2 rows)"

lemma parseCsv_good:
  "missingColumns (headerColumns header) = [] \<Longrightarrow>
   parseCsv N (header # rows) =
     \<lparr>tr_tags = goodOnes (rowOutcomes N (headerColumns header) rows),
      tr_errors = complaints (rowOutcomes N (headerColumns header) rows)\<rparr>"
  by (simp add: parseCsv_def parseCsvRows_eq rowOutcomes_def headerColumns_def Let_def)

lemma length_rowOutcomes:
  "length (rowOutcomes N idx rows) = length (filter (\<lambda>line. trimmed line \<noteq> []) rows)"
proof -
  have "length (numberedRows n rows) = length (filter (\<lambda>line. trimmed line \<noteq> []) rows)" for n
    by (induction rows arbitrary: n) simp_all
  then show ?thesis by (simp add: rowOutcomes_def)
qed

text \<open>C31: An import never gives up half way: with the required columns present, every non-blank row of a
  CSV file yields exactly its tag or one error that names its line in the file, in file order, whatever
  the other rows hold.\<close>

theorem csv_import_per_row:
  assumes "missingColumns (headerColumns header) = []"
  shows "tr_tags (parseCsv N (header # rows)) = goodOnes (rowOutcomes N (headerColumns header) rows) \<and>
    tr_errors (parseCsv N (header # rows)) = complaints (rowOutcomes N (headerColumns header) rows) \<and>
    length (tr_tags (parseCsv N (header # rows))) + length (tr_errors (parseCsv N (header # rows))) =
      length (filter (\<lambda>line. trimmed line \<noteq> []) rows)"
  by (simp add: parseCsv_good [OF assms] complaints_length length_rowOutcomes)

section \<open>Both formats read the same tags\<close>

lemma rowFields_indexColumns:
  assumes "length vs = length names"
  shows "rowFields (indexColumns (length us) names m) (us @ vs) =
    foldl (\<lambda>f (k, v). f(toLower (trimmed k) \<mapsto> v)) (rowFields m (us @ vs)) (zip names vs)"
  using assms
proof (induction names arbitrary: us vs m)
  case (Cons c names)
  then obtain v ws where vs: "vs = v # ws" by (cases vs) auto
  let ?F = "\<lambda>f (k, v). f(toLower (trimmed k) \<mapsto> v)" and ?m = "m(toLower (trimmed c) \<mapsto> length us)"
  have "rowFields (indexColumns (length us) (c # names) m) (us @ vs)
      = rowFields (indexColumns (length (us @ [v])) names ?m) ((us @ [v]) @ ws)"
    by (simp add: vs)
  also have "\<dots> = foldl ?F (rowFields ?m ((us @ [v]) @ ws)) (zip names ws)"
    by (rule Cons.IH) (use Cons.prems vs in simp)
  also have "rowFields ?m ((us @ [v]) @ ws) = (rowFields m (us @ vs))(toLower (trimmed c) \<mapsto> v)"
    by (auto simp: rowFields_def vs)
  finally show ?case by (simp add: vs)
qed simp

lemma rowFields_empty: "rowFields Map.empty vals = Map.empty"
  by (simp add: rowFields_def)

lemma objectFields_trimmed:
  assumes "\<forall>n \<in> set names. trimmed n = n" and "length vs = length names"
  shows "rowFields (indexColumns 0 names Map.empty) vs = objectFields (zip names vs)"
proof -
  have same: "foldl (\<lambda>f (k, v). f(toLower (trimmed k) \<mapsto> v)) g ps = foldl (\<lambda>f (k, v). f(toLower k \<mapsto> v)) g ps"
    if "\<forall>n \<in> fst ` set ps. trimmed n = n" for g :: tag_row and ps
    using that by (induction ps arbitrary: g) auto
  have "\<forall>n \<in> fst ` set (zip names vs). trimmed n = n"
    using assms(1) by (auto dest: set_zip_leftD)
  from same [OF this, of Map.empty] rowFields_indexColumns [OF assms(2), of "[]" Map.empty]
  show ?thesis unfolding objectFields_def by (simp only: rowFields_empty append_Nil list.size)
qed

lemma trimmed_eq_Nil: "trimmed s = [] \<longleftrightarrow> (\<forall>c \<in> set s. isSpace c)"
proof -
  have "trimmed s = []" if e: "dropWhile isSpace s = []" unfolding trimmed_def e by simp
  moreover have "\<exists>c \<in> set (dropWhile isSpace s). \<not> isSpace c" if "dropWhile isSpace s \<noteq> []"
    using that hd_dropWhile [of isSpace s] by (metis dropWhile_eq_Nil_conv hd_in_set)
  ultimately show ?thesis
    by (metis dropWhile_eq_Nil_conv rev_is_Nil_conv set_rev trimmed_def)
qed

lemma numberedRows_lines: "map snd (numberedRows n rows) = filter (\<lambda>line. trimmed line \<noteq> []) rows"
  by (induction rows arbitrary: n) simp_all

lemma goodOnes_snd: "map snd outs = map snd outs' \<Longrightarrow> goodOnes outs = goodOnes outs'"
proof (induction outs arbitrary: outs')
  case (Cons out outs)
  then obtain out' rest where "outs' = out' # rest" by (cases outs') auto
  with Cons show ?case by (cases out; cases out'; cases "snd out") auto
qed simp

abbreviation csvLine :: "string list \<Rightarrow> string" where
  "csvLine vals \<equiv> joinWith '','' vals"

lemma set_joinWith: "v \<in> set vals \<Longrightarrow> set v \<subseteq> set (joinWith sep vals)"
  by (induction sep vals rule: joinWith.induct) auto

lemma csvLine_blank: "v \<in> set vals \<Longrightarrow> trimmed v \<noteq> [] \<Longrightarrow> trimmed (csvLine vals) \<noteq> []"
  using set_joinWith by (fastforce simp: trimmed_eq_Nil)

lemma headerColumns_csvLine:
  "names \<noteq> [] \<Longrightarrow> \<forall>n \<in> set names. CHR '','' \<notin> set n \<Longrightarrow>
   headerColumns (csvLine names) = indexColumns 0 names Map.empty"
  by (simp add: headerColumns_def splitOn_joinWith)

lemma rowOutcomes_csvLines:
  assumes "\<forall>vals \<in> set rows. (\<forall>v \<in> set vals. CHR '','' \<notin> set v) \<and> (\<exists>v \<in> set vals. trimmed v \<noteq> [])"
  shows "map snd (rowOutcomes N idx (map csvLine rows)) = map (\<lambda>vals. parseTagRow N (rowFields idx vals)) rows"
proof -
  have all: "filter (\<lambda>line. trimmed line \<noteq> []) (map csvLine rows) = map csvLine rows"
    using assms csvLine_blank by (auto simp: filter_id_conv)
  have split: "splitOn CHR '','' (csvLine vals) = vals" if "vals \<in> set rows" for vals
    by (rule splitOn_joinWith) (use assms that in force)+
  have "map snd (rowOutcomes N idx (map csvLine rows))
      = map (\<lambda>line. parseTagRow N (rowFields idx (splitOn CHR '','' line))) (map snd (numberedRows 2 (map csvLine rows)))"
    by (simp add: rowOutcomes_def split_beta)
  also have "\<dots> = map (\<lambda>vals. parseTagRow N (rowFields idx vals)) rows"
    unfolding numberedRows_lines all using split by simp
  finally show ?thesis .
qed

definition jsonOutcomes ::
    "'d numerics \<Rightarrow> JsonItem list \<Rightarrow> (string \<times> (string + 'd RegisterDefinition)) list" where
  "jsonOutcomes N items =
     map (\<lambda>(k, item). (''Item '' @ number (int k + 1),
            case item of JsonOther \<Rightarrow> Inl ''not an object''
            | JsonObject members \<Rightarrow> parseTagRow N (objectFields members))) (enumerate 0 items)"

lemma parseJson_array:
  "parseJson N (JsonArray items) =
     \<lparr>tr_tags = goodOnes (jsonOutcomes N items), tr_errors = complaints (jsonOutcomes N items)\<rparr>"
  by (simp add: parseJson_def parseJsonItems_eq jsonOutcomes_def Let_def)

lemma jsonOutcomes_snd:
  "map snd (jsonOutcomes N (map JsonObject objs)) = map (\<lambda>m. parseTagRow N (objectFields m)) objs"
proof -
  show ?thesis by (rule nth_equalityI) (simp_all add: jsonOutcomes_def nth_enumerate_eq)
qed


section \<open>Register maps that import completely\<close>

fun registerTypeName :: "RegisterType \<Rightarrow> string" where
  "registerTypeName Coil = ''Coil''"
| "registerTypeName DiscreteInput = ''DiscreteInput''"
| "registerTypeName HoldingRegister = ''HoldingRegister''"
| "registerTypeName InputRegister = ''InputRegister''"

fun displayFormatName :: "DisplayFormat \<Rightarrow> string" where
  "displayFormatName SignedDecimal = ''SignedDecimal''"
| "displayFormatName UnsignedDecimal = ''UnsignedDecimal''"
| "displayFormatName Hex = ''Hex''"
| "displayFormatName Binary = ''Binary''"
| "displayFormatName Float32 = ''Float32''"
| "displayFormatName Int32Signed = ''Int32Signed''"
| "displayFormatName Int32Unsigned = ''Int32Unsigned''"

fun byteOrderName :: "ByteOrder \<Rightarrow> string" where
  "byteOrderName ABCD = ''ABCD''"
| "byteOrderName BADC = ''BADC''"
| "byteOrderName CDAB = ''CDAB''"
| "byteOrderName DCBA = ''DCBA''"

definition tagColumns :: "string list" where
  "tagColumns = [''label'', ''description'', ''registertype'', ''address'', ''format'', ''byteorder'',
     ''scale'', ''offset'', ''unit'']"

text \<open>One line of a register map: a tag, with the texts of its scale and offset.\<close>

definition tagTexts :: "'d RegisterDefinition \<Rightarrow> string \<Rightarrow> string \<Rightarrow> string list" where
  "tagTexts tag scaleText offsetText =
     [rd_label tag, rd_description tag, registerTypeName (rd_registerType tag), number (rd_address tag),
      displayFormatName (fs_format (rd_format tag)), byteOrderName (fs_byteOrder (rd_format tag)),
      scaleText, offsetText, fs_unit (rd_format tag)]"

definition writable :: "'d numerics \<Rightarrow> 'd RegisterDefinition \<times> string \<times> string \<Rightarrow> bool" where
  "writable N = (\<lambda>(tag, scaleText, offsetText).
     (\<forall>v \<in> set (tagTexts tag scaleText offsetText). trimmed v = v \<and> CHR '','' \<notin> set v) \<and>
     rd_label tag \<noteq> [] \<and> 0 \<le> rd_address tag \<and> toInt N (number (rd_address tag)) = Some (rd_address tag) \<and>
     scaleText \<noteq> [] \<and> toDouble N scaleText = Some (fs_scale (rd_format tag)) \<and>
     offsetText \<noteq> [] \<and> toDouble N offsetText = Some (fs_offset (rd_format tag)) \<and>
     rd_source tag = Imported)"

lemma lower_names:
  "map toLower
     [''Coil'', ''DiscreteInput'', ''HoldingRegister'', ''InputRegister'', ''SignedDecimal'',
      ''UnsignedDecimal'', ''Hex'', ''Binary'', ''Float32'', ''Int32Signed'',
      ''Int32Unsigned'', ''ABCD'', ''BADC'', ''CDAB'', ''DCBA''] =
     [''coil'', ''discreteinput'', ''holdingregister'', ''inputregister'', ''signeddecimal'',
      ''unsigneddecimal'', ''hex'', ''binary'', ''float32'', ''int32signed'',
      ''int32unsigned'', ''abcd'', ''badc'', ''cdab'', ''dcba'']"
  by code_simp

lemmas lower_name_simps = lower_names [simplified list.map list.inject simp_thms]

lemma type_name_parses [simp]: "parseRegisterTypeName (registerTypeName t) = Some t"
  by (cases t) (simp_all add: parseRegisterTypeName_def equalsNoCase_def lower_name_simps)

lemma format_name_parses [simp]:
  "parseDisplayFormatName (displayFormatName f) = Some f" "displayFormatName f \<noteq> []"
  by (cases f; simp add: parseDisplayFormatName_def equalsNoCase_def lower_name_simps)+

lemma order_name_parses [simp]:
  "parseByteOrderName (byteOrderName b) = Some b" "byteOrderName b \<noteq> []"
  by (cases b; simp add: parseByteOrderName_def equalsNoCase_def lower_name_simps)+

lemma tagColumns_lower: "map (toLower \<circ> trimmed) tagColumns = tagColumns"
  by code_simp

lemma tagColumns_trimmed: "\<forall>n \<in> set tagColumns. trimmed n = n"
  by code_simp

lemma tagColumns_distinct: "distinct tagColumns"
  by code_simp

lemma objectFields_map_of:
  assumes "distinct (map fst ps)" and "map (toLower \<circ> fst) ps = map fst ps"
  shows "objectFields ps = map_of ps"
proof -
  have "foldl (\<lambda>f (k, v). f(toLower k \<mapsto> v)) g ps = g ++ map_of ps" for g :: tag_row
    using assms
  proof (induction ps arbitrary: g)
    case (Cons p ps)
    obtain k v where p: "p = (k, v)" by (cases p)
    with Cons.prems have "map_of ps k = None" by (simp add: map_of_eq_None_iff)
    then have swap: "g(k \<mapsto> v) ++ map_of ps = g ++ map_of (p # ps)"
      by (auto simp: p fun_eq_iff map_add_def split: option.splits)
    have "toLower k = k" using Cons.prems p by simp
    then have "foldl (\<lambda>f (k, v). f(toLower k \<mapsto> v)) g (p # ps)
        = foldl (\<lambda>f (k, v). f(toLower k \<mapsto> v)) (g(k \<mapsto> v)) ps" by (simp add: p)
    also have "\<dots> = g(k \<mapsto> v) ++ map_of ps" by (rule Cons.IH) (use Cons.prems in simp_all)
    finally show ?case unfolding swap .
  qed simp
  then show ?thesis by (simp add: objectFields_def)
qed

lemma tag_fields:
  "rowFields (indexColumns 0 tagColumns Map.empty) (tagTexts tag st ot) = map_of (zip tagColumns (tagTexts tag st ot))"
proof -
  have len: "length (tagTexts tag st ot) = length tagColumns" by (simp add: tagTexts_def tagColumns_def)
  have "map (toLower \<circ> trimmed) tagColumns = map toLower tagColumns"
    using tagColumns_trimmed by simp
  then have low: "map toLower tagColumns = tagColumns" using tagColumns_lower by simp
  have fst: "map fst (zip tagColumns (tagTexts tag st ot)) = tagColumns" using len by simp
  have "objectFields (zip tagColumns (tagTexts tag st ot)) = map_of (zip tagColumns (tagTexts tag st ot))"
  proof (rule objectFields_map_of)
    show "map (toLower \<circ> fst) (zip tagColumns (tagTexts tag st ot)) = map fst (zip tagColumns (tagTexts tag st ot))"
      using low fst by (metis map_map)
  qed (simp add: fst tagColumns_distinct)
  with objectFields_trimmed [OF tagColumns_trimmed len] show ?thesis by simp
qed

lemma parse_written_tag:
  assumes "writable N (tag, st, ot)"
  shows "parseTagRow N (rowFields (indexColumns 0 tagColumns Map.empty) (tagTexts tag st ot)) = Inr tag"
proof -
  let ?row = "map_of (zip tagColumns (tagTexts tag st ot))"
  have t: "\<forall>v \<in> set (tagTexts tag st ot). trimmed v = v" using assms by (simp add: writable_def)
  have f: "fieldText ?row ''label'' = rd_label tag" "fieldText ?row ''description'' = rd_description tag"
    "fieldText ?row ''registertype'' = registerTypeName (rd_registerType tag)"
    "fieldText ?row ''address'' = number (rd_address tag)"
    "fieldText ?row ''format'' = displayFormatName (fs_format (rd_format tag))"
    "fieldText ?row ''byteorder'' = byteOrderName (fs_byteOrder (rd_format tag))"
    "fieldText ?row ''scale'' = st" "fieldText ?row ''offset'' = ot" "fieldText ?row ''unit'' = fs_unit (rd_format tag)"
    using t by (simp_all add: fieldText_def tagColumns_def tagTexts_def)
  show ?thesis
    unfolding tag_fields parseTagRow_def parseFormatFields_def f optionalField_def
    using assms by (simp add: writable_def)
qed

lemma complaints_snd_Nil: "map snd outs = map Inr vs \<Longrightarrow> complaints outs = [] \<and> goodOnes outs = vs"
proof (induction outs arbitrary: vs)
  case (Cons out outs)
  then obtain v ws where "vs = v # ws" by (cases vs) auto
  with Cons show ?case by (cases out) simp
qed simp

text \<open>C32: A register map written out with the documented columns imports completely: every tag comes back
  exactly as it was, in order and without an error, for any labels, descriptions and units without
  commas or outer blanks and any texts of the numbers that read as the tag's numbers.\<close>

theorem csv_register_map_roundtrip:
  assumes "\<forall>entry \<in> set entries. writable N entry"
  shows "parseCsv N (csvLine tagColumns # map (\<lambda>(tag, st, ot). csvLine (tagTexts tag st ot)) entries) =
    \<lparr>tr_tags = map fst entries, tr_errors = []\<rparr>"
proof -
  let ?idx = "indexColumns 0 tagColumns Map.empty"
  let ?rows = "map (\<lambda>(tag, st, ot). tagTexts tag st ot) entries"
  let ?outs = "rowOutcomes N ?idx (map csvLine ?rows)"
  have hdr: "headerColumns (csvLine tagColumns) = ?idx"
    by (rule headerColumns_csvLine) (simp_all add: tagColumns_def)
  have req: "missingColumns ?idx = []" by code_simp
  have lines: "map (\<lambda>(tag, st, ot). csvLine (tagTexts tag st ot)) entries = map csvLine ?rows"
    by (simp add: split_beta)
  have csv: "parseCsv N (csvLine tagColumns # map csvLine ?rows) =
      \<lparr>tr_tags = goodOnes ?outs, tr_errors = complaints ?outs\<rparr>"
    using parseCsv_good [of "csvLine tagColumns" N "map csvLine ?rows"] req by (simp only: hdr)
  have "\<forall>vals \<in> set ?rows. (\<forall>v \<in> set vals. CHR '','' \<notin> set v) \<and> (\<exists>v \<in> set vals. trimmed v \<noteq> [])"
    using assms by (force simp: writable_def tagTexts_def)
  from rowOutcomes_csvLines [OF this, of N ?idx]
  have "map snd ?outs = map (\<lambda>vals. parseTagRow N (rowFields ?idx vals)) ?rows" .
  also have "\<dots> = map Inr (map fst entries)"
    using assms by (auto simp: parse_written_tag)
  finally have outs: "map snd ?outs = map Inr (map fst entries)" .
  show ?thesis unfolding lines csv by (simp only: complaints_snd_Nil [OF outs])
qed

definition sampleTag :: "int RegisterDefinition" where
  "sampleTag = \<lparr>rd_label = ''T1'', rd_description = ''inlet'', rd_registerType = InputRegister,
     rd_address = 70000, rd_format = \<lparr>fs_format = Int32Signed, fs_byteOrder = CDAB, fs_scale = 2,
     fs_offset = -1, fs_unit = ''bar''\<rparr>, rd_source = Imported\<rparr>"

lemma number_70000: "number 70000 = ''70000''"
  by (simp add: number_def nat_digits.simps digit_char_def) code_simp

lemma sampleTag_writable: "writable int_numerics (sampleTag, ''2'', ''-1'')"
proof -
  have texts: "tagTexts sampleTag ''2'' ''-1'' =
      [''T1'', ''inlet'', ''InputRegister'', ''70000'', ''Int32Signed'', ''CDAB'', ''2'', ''-1'', ''bar'']"
    by (simp add: tagTexts_def sampleTag_def number_70000)
  have "\<forall>v \<in> set [''T1'', ''inlet'', ''InputRegister'', ''70000'', ''Int32Signed'', ''CDAB'', ''2'', ''-1'', ''bar''].
      trimmed v = v \<and> CHR '','' \<notin> set v" by code_simp
  moreover have "toDouble int_numerics ''2'' = Some 2" "toDouble int_numerics ''-1'' = Some (-1)" by code_simp+
  moreover have "toInt int_numerics (number a) = Some a" for a
    by (simp add: int_numerics_def parse_int_number)
  ultimately show ?thesis unfolding writable_def split texts by (simp add: sampleTag_def)
qed

theorem csv_register_map_roundtrip_witness:
  "parseCsv int_numerics [csvLine tagColumns, csvLine (tagTexts sampleTag ''2'' ''-1'')] =
     \<lparr>tr_tags = [sampleTag], tr_errors = []\<rparr>"
  using csv_register_map_roundtrip [of "[(sampleTag, ''2'', ''-1'')]" int_numerics] sampleTag_writable
  by simp

theorem csv_import_per_row_witness:
  "length (tr_tags (parseCsv int_numerics [''label,registerType,address'', '' '', '',Coil,1'']))
   + length (tr_errors (parseCsv int_numerics [''label,registerType,address'', '' '', '',Coil,1''])) = 1"
proof -
  have miss: "missingColumns (headerColumns ''label,registerType,address'') = []" by code_simp
  have len: "length (filter (\<lambda>line. trimmed line \<noteq> []) ['' '', '',Coil,1'']) = 1" by code_simp
  show ?thesis by (rule trans [OF conjunct2 [OF conjunct2 [OF csv_import_per_row [OF miss]]] len])
qed


end
