(* ===== verification/Favorites.thy ===== *)
theory Favorites
  imports Tag_Import Read_Coalescer
begin

text \<open>
  \<open>app-lib/models/TagDatabaseModel\<close>, \<open>app-lib/TagDatabaseController\<close> and
  \<open>app-lib/models/FavoritesModel\<close>: the imported tags, and the list of registers the user follows.

  \<^item> The models' members are the records \<open>tagDb\<close> and \<open>favorites\<close>; their last field is the log of what
    they emit.
  \<^item> A file is what opening it gives: \<open>None\<close>, or the result of the chosen parser on its contents.
  \<^item> \<open>None\<close> as a result is a read outside a list.
\<close>

section \<open>Imported tags\<close>

datatype TagDbSignal = TagsInserted nat nat | TagsReset

record 'd tagDb =
  td_tags :: "'d RegisterDefinition list"
  td_signals :: "TagDbSignal list"

definition emptyDefinition :: "'d numerics \<Rightarrow> 'd RegisterDefinition" where
  "emptyDefinition N = \<lparr>rd_label = [], rd_description = [], rd_registerType = HoldingRegister,
     rd_address = 0, rd_format = defaultFormat N, rd_source = Imported\<rparr>"

definition addTags :: "'d RegisterDefinition list \<Rightarrow> 'd tagDb \<Rightarrow> 'd tagDb" where
  "addTags tags db =
     (if tags = [] then db
      else db\<lparr>td_tags := td_tags db @ tags,
              td_signals := td_signals db @
                [TagsInserted (length (td_tags db)) (length (td_tags db) + length tags - 1)]\<rparr>)"

definition tagAt :: "'d numerics \<Rightarrow> 'd tagDb \<Rightarrow> int \<Rightarrow> 'd RegisterDefinition" where
  "tagAt N db r = (case list_at (td_tags db) r of None \<Rightarrow> emptyDefinition N | Some tag \<Rightarrow> tag)"

definition clearTags :: "'d tagDb \<Rightarrow> 'd tagDb" where
  "clearTags db =
     (if td_tags db = [] then db else db\<lparr>td_tags := [], td_signals := td_signals db @ [TagsReset]\<rparr>)"

text \<open>\<open>importUsing\<close>: the model afterwards, and what \<open>importFinished\<close> reports.\<close>

definition importUsing ::
    "string \<Rightarrow> 'd TagParseResult option \<Rightarrow> 'd tagDb option \<Rightarrow> 'd tagDb option \<times> nat \<times> string list" where
  "importUsing filePath parsed model =
     (case parsed of
        None \<Rightarrow> (model, 0, [''Could not open file: '' @ filePath])
      | Some result \<Rightarrow>
          (map_option (addTags (tr_tags result)) model, length (tr_tags result), tr_errors result))"

definition importCsv ::
    "'d numerics \<Rightarrow> string \<Rightarrow> string list option \<Rightarrow> 'd tagDb option \<Rightarrow> 'd tagDb option \<times> nat \<times> string list" where
  "importCsv N filePath lines model = importUsing filePath (map_option (parseCsv N) lines) model"

definition importJson ::
    "'d numerics \<Rightarrow> string \<Rightarrow> JsonText option \<Rightarrow> 'd tagDb option \<Rightarrow> 'd tagDb option \<times> nat \<times> string list" where
  "importJson N filePath doc model = importUsing filePath (map_option (parseJson N) doc) model"

section \<open>Favorites: state\<close>

datatype FavoriteRole =
    FavLabel | FavDescription | FavAddress | FavValue | FavUnit | FavStale | FavIsBit | FavBoolValue
  | FavWritable | FavHistory

datatype FavoriteSignal =
    FavInserted nat nat | FavRemoved nat nat | FavReset | FavDataChanged nat nat "FavoriteRole list"
  | FavWriteRequested int int | FavCoilWriteRequested int bool | FavConventionChanged

record 'd Entry =
  fe_definition :: "'d RegisterDefinition"
  fe_rawValues :: "u16 list"
  fe_history :: "'d list"
  fe_bitValue :: bool
  fe_stale :: bool

record 'd favorites =
  fv_entries :: "'d Entry list"
  fv_addressConvention :: AddressConvention
  fv_signals :: "FavoriteSignal list"

definition kHistoryCapacity :: nat where "kHistoryCapacity = 20"

definition newFavorites :: "'d favorites" where
  "newFavorites = \<lparr>fv_entries = [], fv_addressConvention = Pdu, fv_signals = []\<rparr>"

definition emitFav :: "FavoriteSignal \<Rightarrow> 'd favorites \<Rightarrow> 'd favorites" where
  "emitFav e f = f\<lparr>fv_signals := fv_signals f @ [e]\<rparr>"

abbreviation entryIsBit :: "'d Entry \<Rightarrow> bool" where
  "entryIsBit e \<equiv> isBitRegisterType (rd_registerType (fe_definition e))"

section \<open>Favorites: operations\<close>

definition freshEntry :: "'d RegisterDefinition \<Rightarrow> 'd Entry" where
  "freshEntry def =
     \<lparr>fe_definition = def,
      fe_rawValues = (if isBitRegisterType (rd_registerType def) then [] else replicate (registerSpan def) 0),
      fe_history = [], fe_bitValue = False, fe_stale = False\<rparr>"

definition appendEntry :: "'d Entry \<Rightarrow> 'd favorites \<Rightarrow> 'd favorites" where
  "appendEntry e f =
     emitFav (FavInserted (length (fv_entries f)) (length (fv_entries f)))
       (f\<lparr>fv_entries := fv_entries f @ [e]\<rparr>)"

definition addFromTag :: "'d numerics \<Rightarrow> 'd tagDb option \<Rightarrow> int \<Rightarrow> 'd favorites \<Rightarrow> 'd favorites" where
  "addFromTag N tagModel r f =
     (case tagModel of None \<Rightarrow> f | Some db \<Rightarrow> appendEntry (freshEntry (tagAt N db r)) f)"

definition addAdHoc :: "'d numerics \<Rightarrow> RegisterType \<Rightarrow> int \<Rightarrow> 'd favorites \<Rightarrow> 'd favorites" where
  "addAdHoc N ty address f =
     appendEntry (freshEntry ((emptyDefinition N)\<lparr>rd_label := number address, rd_registerType := ty,
       rd_address := address, rd_source := AdHoc\<rparr>)) f"

definition removeAt :: "int \<Rightarrow> 'd favorites \<Rightarrow> 'd favorites" where
  "removeAt r f =
     (if r < 0 \<or> int (length (fv_entries f)) \<le> r then f
      else emitFav (FavRemoved (nat r) (nat r))
             (f\<lparr>fv_entries := take (nat r) (fv_entries f) @ drop (Suc (nat r)) (fv_entries f)\<rparr>))"

definition clearFavorites :: "'d favorites \<Rightarrow> 'd favorites" where
  "clearFavorites f = (if fv_entries f = [] then f else emitFav FavReset (f\<lparr>fv_entries := []\<rparr>))"

definition favSetValueAt :: "'d numerics \<Rightarrow> int \<Rightarrow> string \<Rightarrow> 'd favorites \<Rightarrow> 'd favorites" where
  "favSetValueAt N r input f =
     (case list_at (fv_entries f) r of
        None \<Rightarrow> f
      | Some e \<Rightarrow>
          if entryIsBit e then f
          else let (raw, ok) = parseValue N (rd_format (fe_definition e)) input
               in if \<not> ok then f
                  else foldl (\<lambda>f k. emitFav (FavWriteRequested (rd_address (fe_definition e) + int k)
                                               (uint (raw ! k))) f) f [0..<length raw])"

definition favSetBitAt :: "int \<Rightarrow> bool \<Rightarrow> 'd favorites \<Rightarrow> 'd favorites" where
  "favSetBitAt r v f =
     (case list_at (fv_entries f) r of
        None \<Rightarrow> f
      | Some e \<Rightarrow>
          if rd_registerType (fe_definition e) \<noteq> Coil then f
          else emitFav (FavCoilWriteRequested (rd_address (fe_definition e)) v) f)"

definition favFormatSettingsAt :: "'d favorites \<Rightarrow> int \<Rightarrow> 'd FormatSettings option" where
  "favFormatSettingsAt f r = map_option (\<lambda>e. rd_format (fe_definition e)) (list_at (fv_entries f) r)"

definition favSetFormatAt :: "int \<Rightarrow> 'd FormatSettings \<Rightarrow> 'd favorites \<Rightarrow> 'd favorites" where
  "favSetFormatAt r settings f =
     (case list_at (fv_entries f) r of
        None \<Rightarrow> f
      | Some e \<Rightarrow>
          let def = (fe_definition e)\<lparr>rd_format := settings\<rparr>;
              e = e\<lparr>fe_definition := def, fe_rawValues := replicate (registerSpan def) 0, fe_history := []\<rparr>
          in emitFav (FavDataChanged (nat r) (nat r) [])
               (f\<lparr>fv_entries := (fv_entries f)[nat r := e]\<rparr>))"

definition favSetAddressConvention :: "AddressConvention \<Rightarrow> 'd favorites \<Rightarrow> 'd favorites" where
  "favSetAddressConvention convention f =
     (if fv_addressConvention f = convention then f
      else let f = emitFav FavConventionChanged (f\<lparr>fv_addressConvention := convention\<rparr>)
           in if fv_entries f = [] then f
              else emitFav (FavDataChanged 0 (length (fv_entries f) - 1) [FavAddress]) f)"

definition buildPollTargets :: "u8 \<Rightarrow> 'd favorites \<Rightarrow> PollTarget list" where
  "buildPollTargets unit f =
     map (\<lambda>e. \<lparr>pt_unitId = unit, pt_registerType = rd_registerType (fe_definition e),
               pt_startAddress = word_of_int (rd_address (fe_definition e)),
               pt_quantity = word_of_nat (registerSpan (fe_definition e))\<rparr>) (fv_entries f)"

definition pushHistory :: "'d \<Rightarrow> 'd list \<Rightarrow> 'd list" where
  "pushHistory v history =
     (let history = history @ [v] in if kHistoryCapacity < length history then tl history else history)"

definition applyRegisterUpdate ::
    "'d numerics \<Rightarrow> int \<Rightarrow> u16 list \<Rightarrow> 'd favorites \<Rightarrow> 'd favorites option" where
  "applyRegisterUpdate N target vals f =
     (case list_at (fv_entries f) target of
        None \<Rightarrow> Some f
      | Some e \<Rightarrow>
          if length vals \<noteq> registerSpan (fe_definition e) then Some f
          else
            let e = e\<lparr>fe_rawValues := vals, fe_stale := False\<rparr>
            in map_option (\<lambda>e. emitFav (FavDataChanged (nat target) (nat target) [FavValue, FavStale, FavHistory])
                                (f\<lparr>fv_entries := (fv_entries f)[nat target := e]\<rparr>))
                 (if entryIsBit e then Some e
                  else map_option (\<lambda>v. e\<lparr>fe_history := pushHistory v (fe_history e)\<rparr>)
                         (numericValue N (rd_format (fe_definition e)) (fe_rawValues e))))"

definition applyBitUpdate :: "int \<Rightarrow> bool list \<Rightarrow> 'd favorites \<Rightarrow> 'd favorites" where
  "applyBitUpdate target vals f =
     (case list_at (fv_entries f) target of
        None \<Rightarrow> f
      | Some e \<Rightarrow>
          if vals = [] then f
          else emitFav (FavDataChanged (nat target) (nat target) [FavValue, FavBoolValue, FavStale])
                 (f\<lparr>fv_entries := (fv_entries f)[nat target := e\<lparr>fe_bitValue := hd vals, fe_stale := False\<rparr>]\<rparr>))"

definition favMarkStale :: "int \<Rightarrow> 'd favorites \<Rightarrow> 'd favorites" where
  "favMarkStale r f =
     (case list_at (fv_entries f) r of
        None \<Rightarrow> f
      | Some e \<Rightarrow>
          if fe_stale e then f
          else emitFav (FavDataChanged (nat r) (nat r) [FavStale])
                 (f\<lparr>fv_entries := (fv_entries f)[nat r := e\<lparr>fe_stale := True\<rparr>]\<rparr>))"

datatype 'd FavoriteCell = FavNothing | FavText string | FavBool bool | FavNumbers "'d list"

definition favData :: "'d numerics \<Rightarrow> 'd favorites \<Rightarrow> nat \<Rightarrow> FavoriteRole \<Rightarrow> 'd FavoriteCell option" where
  "favData N f r role =
     (if length (fv_entries f) \<le> r then Some FavNothing
      else let e = fv_entries f ! r; def = fe_definition e
           in case role of
                FavLabel \<Rightarrow> Some (FavText (rd_label def))
              | FavDescription \<Rightarrow> Some (FavText (rd_description def))
              | FavAddress \<Rightarrow> Some (FavText (number
                  (displayAddress (rd_registerType def) (rd_address def) (fv_addressConvention f))))
              | FavValue \<Rightarrow>
                  (if entryIsBit e then Some (FavText (if fe_bitValue e then ''ON'' else ''OFF''))
                   else map_option FavText (formatValue N (rd_format def) (fe_rawValues e)))
              | FavUnit \<Rightarrow> Some (FavText (fs_unit (rd_format def)))
              | FavStale \<Rightarrow> Some (FavBool (fe_stale e))
              | FavIsBit \<Rightarrow> Some (FavBool (entryIsBit e))
              | FavBoolValue \<Rightarrow> Some (FavBool (fe_bitValue e))
              | FavWritable \<Rightarrow> Some (FavBool (isWritableRegisterType (rd_registerType def)))
              | FavHistory \<Rightarrow> Some (FavNumbers (fe_history e)))"

section \<open>No operation can fail\<close>

datatype 'd favOp =
    AddFromTag "'d tagDb option" int | AddAdHoc RegisterType int | RemoveAt int | ClearAll
  | FavSetValueAt int string | FavSetBitAt int bool | FavSetFormatAt int "'d FormatSettings"
  | FavSetAddressConvention AddressConvention
  | ApplyRegisterUpdate int "u16 list" | ApplyBitUpdate int "bool list" | FavMarkStale int

fun applyFavOp :: "'d numerics \<Rightarrow> 'd favOp \<Rightarrow> 'd favorites \<Rightarrow> 'd favorites option" where
  "applyFavOp N (AddFromTag db r) f = Some (addFromTag N db r f)"
| "applyFavOp N (AddAdHoc ty a) f = Some (addAdHoc N ty a f)"
| "applyFavOp N (RemoveAt r) f = Some (removeAt r f)"
| "applyFavOp N ClearAll f = Some (clearFavorites f)"
| "applyFavOp N (FavSetValueAt r s) f = Some (favSetValueAt N r s f)"
| "applyFavOp N (FavSetBitAt r b) f = Some (favSetBitAt r b f)"
| "applyFavOp N (FavSetFormatAt r s) f = Some (favSetFormatAt r s f)"
| "applyFavOp N (FavSetAddressConvention c) f = Some (favSetAddressConvention c f)"
| "applyFavOp N (ApplyRegisterUpdate i vals) f = applyRegisterUpdate N i vals f"
| "applyFavOp N (ApplyBitUpdate i vals) f = Some (applyBitUpdate i vals f)"
| "applyFavOp N (FavMarkStale r) f = Some (favMarkStale r f)"

fun runFavorites :: "'d numerics \<Rightarrow> 'd favOp list \<Rightarrow> 'd favorites \<Rightarrow> 'd favorites option" where
  "runFavorites N [] f = Some f"
| "runFavorites N (op # ops) f = Option.bind (applyFavOp N op f) (runFavorites N ops)"

definition wfEntry :: "'d Entry \<Rightarrow> bool" where
  "wfEntry e \<longleftrightarrow>
     (if entryIsBit e then fe_history e = [] else length (fe_rawValues e) = registerSpan (fe_definition e)) \<and>
     length (fe_history e) \<le> kHistoryCapacity"

definition wfFavorites :: "'d favorites \<Rightarrow> bool" where
  "wfFavorites f \<longleftrightarrow> (\<forall>e \<in> set (fv_entries f). wfEntry e)"

lemma emitFav_entries [simp]: "fv_entries (emitFav e f) = fv_entries f"
  by (simp add: emitFav_def)

lemma wf_emitFav [simp]: "wfFavorites (emitFav e f) \<longleftrightarrow> wfFavorites f"
  by (simp add: wfFavorites_def)

lemma wf_emit_all [simp]: "wfFavorites (foldl (\<lambda>f k. emitFav (g k) f) f ks) \<longleftrightarrow> wfFavorites f"
  by (induction ks arbitrary: f) simp_all

lemma wf_other [simp]:
  "wfFavorites (f\<lparr>fv_entries := []\<rparr>)" "wfFavorites (f\<lparr>fv_addressConvention := c\<rparr>) \<longleftrightarrow> wfFavorites f"
  by (simp_all add: wfFavorites_def)

lemma wf_update:
  "wfFavorites f \<Longrightarrow> wfEntry e \<Longrightarrow> wfFavorites (f\<lparr>fv_entries := (fv_entries f)[i := e]\<rparr>)"
  by (auto simp: wfFavorites_def dest: set_update_subset_insert [THEN subsetD])

lemma wf_at: "wfFavorites f \<Longrightarrow> list_at (fv_entries f) r = Some e \<Longrightarrow> wfEntry e"
  by (auto simp: wfFavorites_def list_at_eq_Some)

lemma pushHistory_length: "length h \<le> kHistoryCapacity \<Longrightarrow> length (pushHistory v h) \<le> kHistoryCapacity"
  by (simp add: pushHistory_def Let_def)

lemma numericValue_defined:
  "length rs = registerSpanFor (fs_format settings) \<Longrightarrow> numericValue N settings rs \<noteq> None"
  by (cases "fs_format settings") (simp_all add: numericValue_def)

lemma formatted_defined:
  "length rs = registerSpanFor (fs_format settings) \<Longrightarrow> formatValue N settings rs \<noteq> None"
  by (cases "fs_format settings") (simp_all add: formatValue_def numericValue_def Let_def)

lemma registerSpan_word: "\<not> isBitRegisterType (rd_registerType d) \<Longrightarrow>
    registerSpan d = registerSpanFor (fs_format (rd_format d))"
  by (simp add: registerSpan_def)

lemma wf_append: "wfFavorites f \<Longrightarrow> wfFavorites (appendEntry (freshEntry d) f)"
  by (auto simp: appendEntry_def wfFavorites_def freshEntry_def wfEntry_def)

lemma registerUpdate_wf:
  assumes wf: "wfFavorites f"
  shows "\<exists>f'. applyRegisterUpdate N i vals f = Some f' \<and> wfFavorites f'"
proof (cases "list_at (fv_entries f) i")
  case (Some e)
  have e: "wfEntry e" by (rule wf_at [OF wf Some])
  show ?thesis
  proof (cases "length vals = registerSpan (fe_definition e)")
    case True
    let ?e = "e\<lparr>fe_rawValues := vals, fe_stale := False\<rparr>"
    show ?thesis
    proof (cases "entryIsBit e")
      case True
      with e have "wfEntry ?e" by (simp add: wfEntry_def)
      with wf_update [OF wf] Some \<open>length vals = _\<close> True show ?thesis by (simp add: applyRegisterUpdate_def)
    next
      case False
      then obtain v where v: "numericValue N (rd_format (fe_definition e)) vals = Some v"
        using numericValue_defined \<open>length vals = _\<close> registerSpan_word by (metis not_Some_eq)
      have "wfEntry (?e\<lparr>fe_history := pushHistory v (fe_history e)\<rparr>)"
        using e False \<open>length vals = _\<close> pushHistory_length by (auto simp: wfEntry_def)
      with wf_update [OF wf] Some \<open>length vals = _\<close> False v show ?thesis by (simp add: applyRegisterUpdate_def)
    qed
  qed (use Some wf in \<open>simp add: applyRegisterUpdate_def\<close>)
qed (use wf in \<open>simp add: applyRegisterUpdate_def\<close>)

lemma formatEntry_wf:
  "wfEntry (e\<lparr>fe_definition := d, fe_rawValues := replicate (registerSpan d) 0, fe_history := []\<rparr>)"
  by (simp add: wfEntry_def)

lemma applyFavOp_wf:
  assumes wf: "wfFavorites f"
  shows "\<exists>f'. applyFavOp N op f = Some f' \<and> wfFavorites f'"
proof (cases op)
  case (RemoveAt r)
  have "set (take (nat r) (fv_entries f) @ drop (Suc (nat r)) (fv_entries f)) \<subseteq> set (fv_entries f)"
    using set_take_subset set_drop_subset by fastforce
  with wf show ?thesis by (auto simp: RemoveAt removeAt_def wfFavorites_def)
next
  case (FavSetFormatAt r s)
  show ?thesis
    using wf_update [OF wf formatEntry_wf] wf
    by (auto simp: FavSetFormatAt favSetFormatAt_def Let_def split: option.split)
next
  case (ApplyRegisterUpdate i vals)
  with registerUpdate_wf [OF wf] show ?thesis by simp
next
  case (ApplyBitUpdate i vals)
  have "wfEntry e \<Longrightarrow> wfEntry (e\<lparr>fe_bitValue := b, fe_stale := False\<rparr>)" for e :: "'a Entry" and b
    by (simp add: wfEntry_def)
  with wf wf_update [OF wf] wf_at [OF wf] show ?thesis
    by (auto simp: ApplyBitUpdate applyBitUpdate_def split: option.split)
next
  case (FavMarkStale r)
  have "wfEntry e \<Longrightarrow> wfEntry (e\<lparr>fe_stale := True\<rparr>)" for e :: "'a Entry"
    by (simp add: wfEntry_def)
  with wf wf_update [OF wf] wf_at [OF wf] show ?thesis
    by (auto simp: FavMarkStale favMarkStale_def split: option.split)
next
  case (FavSetValueAt r s)
  with wf show ?thesis by (auto simp: favSetValueAt_def split: option.split prod.split)
qed (use wf wf_append [OF wf] in \<open>auto simp: addFromTag_def addAdHoc_def clearFavorites_def
  favSetBitAt_def favSetAddressConvention_def Let_def split: option.split\<close>)

lemma favData_defined:
  assumes "wfFavorites f"
  shows "favData N f r role \<noteq> None"
proof (cases "r < length (fv_entries f)")
  case True
  let ?e = "fv_entries f ! r"
  have "wfEntry ?e" using True assms by (simp add: wfFavorites_def)
  then have "\<not> entryIsBit ?e \<Longrightarrow> formatValue N (rd_format (fe_definition ?e)) (fe_rawValues ?e) \<noteq> None"
    by (intro formatted_defined) (simp add: wfEntry_def registerSpan_word)
  then show ?thesis by (cases role) (auto simp: favData_def Let_def)
qed (simp add: favData_def)

text \<open>C40: Whatever sequence of edits, polled values and failures reaches the favorites list, no operation
  reads outside a list: every word entry keeps exactly the registers its format needs, so every cell can
  be shown, and no history grows past its capacity.\<close>

theorem favorites_never_fail:
  "\<exists>f. runFavorites N ops newFavorites = Some f \<and> wfFavorites f \<and> (\<forall>r role. favData N f r role \<noteq> None)"
proof -
  have "\<exists>f'. runFavorites N ops f = Some f' \<and> wfFavorites f'" if "wfFavorites f" for f
    using that
  proof (induction ops arbitrary: f)
    case (Cons op ops)
    from applyFavOp_wf [OF Cons.prems, of N op] obtain g where "applyFavOp N op f = Some g" "wfFavorites g" by blast
    with Cons.IH show ?case by simp
  qed simp
  from this [of newFavorites] favData_defined show ?thesis
    by (metis newFavorites_def wfFavorites_def empty_iff favorites.select_convs(1) list.set(1))
qed

text \<open>The poll targets stand for the entries one to one and in order, each with exactly the registers
  its format needs; the address is the entry's address reduced modulo two to the 16, which is the
  entry's own address only below 65536.\<close>

theorem favorite_targets_match_entries:
  "map (\<lambda>t. (pt_unitId t, pt_registerType t, uint (pt_startAddress t), unat (pt_quantity t))) (buildPollTargets u f) =
   map (\<lambda>e. (u, rd_registerType (fe_definition e), rd_address (fe_definition e) mod 65536,
             registerSpan (fe_definition e))) (fv_entries f)"
proof -
  have "registerSpan d < 65536" for d :: "'a RegisterDefinition"
    by (cases "fs_format (rd_format d)") (simp_all add: registerSpan_def)
  then have "unat (word_of_nat (registerSpan d) :: u16) = registerSpan d" for d :: "'a RegisterDefinition"
    by (intro of_nat_u16_unat)
  then show ?thesis by (simp add: buildPollTargets_def uint_word_of_int)
qed

end
