(* ===== verification/Connection.thy ===== *)
theory Connection
  imports Polling_Runs Transports Favorites
begin

text \<open>
  \<open>app-lib/ConnectionController\<close>: the one connection's lifecycle, its one-shot reads and writes, and the
  poll loop in both of its modes, on top of the engine and the transaction manager.

  \<^item> The controller's members, both transports and the favorites list are the record \<open>conn\<close>, which is the
    rest of the program \<open>'e\<close> of the engine's state: the whole is \<open>'d conn app\<close>.
  \<^item> \<open>m_activeFavoritesModel\<close> is a flag beside the one favorites list the screen owns.
  \<^item> Signals to the screen are appended to \<open>cc_signals\<close>; the screen's reactions are further calls.
  \<^item> \<open>surroundings\<close> is what Qt does inside a call: the signals its sockets emit while they are opened or
    closed, the outcome of \<open>QSerialPort::open\<close>, and the error a write may raise at once.
  \<^item> The engine's signals are relayed to the favorites and the screen after the engine's slot instead of
    from inside it; nothing in between reads what the relay changes.
\<close>

section \<open>State\<close>

datatype ConnectionState = Disconnected | Connecting | Connected | ConnectionLost | Failed

datatype ConnectionType = ConnTcp | ConnRtu

datatype PendingOperation =
    NoOperation | OpReadHoldingRegisters | OpReadInputRegisters | OpReadCoils | OpReadDiscreteInputs
  | OpWriteSingleRegister | OpWriteSingleCoil

datatype ConnSignal =
    StateChanged | SigConnectionLost | SigConnectionRestored | ErrorMessageChanged | CanConnectChanged
  | SettingChanged string | PollingChanged
  | HoldingRegistersRead int "int list" | BitsRead int "bool list"
  | SingleRegisterWritten int int | SingleCoilWritten int bool
  | OperationFailed string | RegisterReadFailed string | CommunicationLogged int string

record 'd conn =
  cc_state :: ConnectionState
  cc_errorMessage :: string
  cc_connectionType :: ConnectionType
  cc_host :: string
  cc_port :: int
  cc_unitId :: int
  cc_timeoutMs :: int
  cc_retryCount :: int
  cc_pollIntervalMs :: int
  cc_reconnectIntervalMs :: int
  cc_reconnectTimer :: "int option"
  cc_resumePolling :: bool
  cc_pollRegisterType :: RegisterType
  cc_pollStartAddress :: int
  cc_pollQuantity :: int
  cc_favoritesActive :: bool
  cc_favorites :: "'d favorites"
  cc_portName :: string
  cc_baudRate :: int
  cc_dataBits :: int
  cc_parity :: int
  cc_stopBits :: int
  cc_pendingOperation :: PendingOperation
  cc_pendingStartAddress :: int
  cc_pendingQuantity :: int
  cc_pendingCorrelationId :: u64
  cc_tcp :: tcp
  cc_serial :: serial
  cc_signals :: "ConnSignal list"

text \<open>Even parity is 2 in \<open>QSerialPort\<close>.\<close>

definition newConnection :: "'d conn" where
  "newConnection =
     \<lparr>cc_state = Disconnected, cc_errorMessage = [], cc_connectionType = ConnRtu,
      cc_host = ''127.0.0.1'', cc_port = 502, cc_unitId = 1, cc_timeoutMs = 1000, cc_retryCount = 2,
      cc_pollIntervalMs = 1000, cc_reconnectIntervalMs = 5000, cc_reconnectTimer = None,
      cc_resumePolling = False, cc_pollRegisterType = HoldingRegister, cc_pollStartAddress = 0,
      cc_pollQuantity = 0, cc_favoritesActive = False, cc_favorites = newFavorites,
      cc_portName = [], cc_baudRate = 115200, cc_dataBits = 8, cc_parity = 2, cc_stopBits = 1,
      cc_pendingOperation = NoOperation, cc_pendingStartAddress = 0, cc_pendingQuantity = 0,
      cc_pendingCorrelationId = 0, cc_tcp = \<lparr>tcp_host = [], tcp_port = 502\<rparr>,
      cc_serial = \<lparr>se_settings = \<lparr>ps_portName = [], ps_baudRate = 115200, ps_dataBits = 8,
        ps_parity = 2, ps_stopBits = 1\<rparr>, se_isOpen = False, se_sinceLastFrame = None\<rparr>,
      cc_signals = []\<rparr>"

record surroundings =
  su_tcpOpen :: "string \<Rightarrow> u16 \<Rightarrow> TransportSignal list"
  su_tcpClose :: "TransportSignal list"
  su_serialOpen :: "bool \<Rightarrow> SerialPortSettings \<Rightarrow> portOutcome"
  su_writeError :: "ITransport \<Rightarrow> bytes \<Rightarrow> string option"

abbreviation conn_of :: "'d conn app \<Rightarrow> 'd conn" where
  "conn_of s \<equiv> snd (fst s)"

definition onConn :: "('d conn \<Rightarrow> 'd conn) \<Rightarrow> 'd conn app \<Rightarrow> 'd conn app" where
  "onConn g = (\<lambda>((p, c), m). ((p, g c), m))"

definition emitConn :: "ConnSignal \<Rightarrow> 'd conn \<Rightarrow> 'd conn" where
  "emitConn e c = c\<lparr>cc_signals := cc_signals c @ [e]\<rparr>"

section \<open>Settings\<close>

definition canConnect :: "'d conn \<Rightarrow> bool" where
  "canConnect c = (if cc_connectionType c = ConnTcp then cc_host c \<noteq> [] else cc_portName c \<noteq> [])"

definition setHost :: "string \<Rightarrow> 'd conn \<Rightarrow> 'd conn" where
  "setHost v c =
     (if cc_host c = v then c
      else emitConn CanConnectChanged (emitConn (SettingChanged ''host'') (c\<lparr>cc_host := v\<rparr>)))"

definition setPort :: "int \<Rightarrow> 'd conn \<Rightarrow> 'd conn" where
  "setPort v c = (if cc_port c = v then c else emitConn (SettingChanged ''port'') (c\<lparr>cc_port := v\<rparr>))"

definition setUnitId :: "int \<Rightarrow> 'd conn \<Rightarrow> 'd conn" where
  "setUnitId v c = (if cc_unitId c = v then c else emitConn (SettingChanged ''unitId'') (c\<lparr>cc_unitId := v\<rparr>))"

definition setConnTimeoutMs :: "int \<Rightarrow> 'd conn \<Rightarrow> 'd conn" where
  "setConnTimeoutMs v c =
     (if cc_timeoutMs c = v then c else emitConn (SettingChanged ''timeoutMs'') (c\<lparr>cc_timeoutMs := v\<rparr>))"

definition setConnRetryCount :: "int \<Rightarrow> 'd conn \<Rightarrow> 'd conn" where
  "setConnRetryCount v c =
     (if cc_retryCount c = v then c else emitConn (SettingChanged ''retryCount'') (c\<lparr>cc_retryCount := v\<rparr>))"

definition setReconnectIntervalMs :: "int \<Rightarrow> 'd conn \<Rightarrow> 'd conn" where
  "setReconnectIntervalMs v c =
     (if cc_reconnectIntervalMs c = v then c
      else emitConn (SettingChanged ''reconnectIntervalMs'') (c\<lparr>cc_reconnectIntervalMs := v\<rparr>))"

definition setConnectionType :: "ConnectionType \<Rightarrow> 'd conn \<Rightarrow> 'd conn" where
  "setConnectionType v c =
     (if cc_connectionType c = v then c
      else emitConn CanConnectChanged
             (emitConn (SettingChanged ''connectionType'') (c\<lparr>cc_connectionType := v\<rparr>)))"

definition setPortName :: "string \<Rightarrow> 'd conn \<Rightarrow> 'd conn" where
  "setPortName v c =
     (if cc_portName c = v then c
      else emitConn CanConnectChanged (emitConn (SettingChanged ''portName'') (c\<lparr>cc_portName := v\<rparr>)))"

definition setBaudRate :: "int \<Rightarrow> 'd conn \<Rightarrow> 'd conn" where
  "setBaudRate v c = (if cc_baudRate c = v then c else emitConn (SettingChanged ''baudRate'') (c\<lparr>cc_baudRate := v\<rparr>))"

definition setDataBits :: "int \<Rightarrow> 'd conn \<Rightarrow> 'd conn" where
  "setDataBits v c = (if cc_dataBits c = v then c else emitConn (SettingChanged ''dataBits'') (c\<lparr>cc_dataBits := v\<rparr>))"

definition setParity :: "int \<Rightarrow> 'd conn \<Rightarrow> 'd conn" where
  "setParity v c = (if cc_parity c = v then c else emitConn (SettingChanged ''parity'') (c\<lparr>cc_parity := v\<rparr>))"

definition setStopBits :: "int \<Rightarrow> 'd conn \<Rightarrow> 'd conn" where
  "setStopBits v c = (if cc_stopBits c = v then c else emitConn (SettingChanged ''stopBits'') (c\<lparr>cc_stopBits := v\<rparr>))"

definition setPollIntervalMs :: "int \<Rightarrow> int \<Rightarrow> 'd conn app \<Rightarrow> 'd conn app" where
  "setPollIntervalMs now v s =
     (if cc_pollIntervalMs (conn_of s) = v then s
      else onConn (emitConn (SettingChanged ''pollIntervalMs''))
             (onPoll (setIntervalMs now v) (onConn (\<lambda>c. c\<lparr>cc_pollIntervalMs := v\<rparr>) s)))"

section \<open>Losing the connection\<close>

definition setState :: "ConnectionState \<Rightarrow> 'd conn \<Rightarrow> 'd conn" where
  "setState v c = (if cc_state c = v then c else emitConn StateChanged (c\<lparr>cc_state := v\<rparr>))"

definition stopPolling :: "'d conn app \<Rightarrow> 'd conn app" where
  "stopPolling s =
     (if \<not> m_running (poll_of s) then s else onConn (emitConn PollingChanged) (stopPoll s))"

text \<open>\<open>handleTransportConnectionStateChanged(false)\<close>\<close>

definition transportDropped :: "int \<Rightarrow> 'd conn app \<Rightarrow> 'd conn app" where
  "transportDropped now s =
     (if cc_state (conn_of s) = Connected \<or> cc_state (conn_of s) = ConnectionLost then
        let wasConnected = (cc_state (conn_of s) = Connected);
            s = (if m_running (poll_of s)
                 then stopPolling (onConn (\<lambda>c. c\<lparr>cc_resumePolling := True\<rparr>) s) else s);
            s = onConn (setState ConnectionLost) s;
            s = (if wasConnected then onConn (emitConn SigConnectionLost) s else s)
        in onConn (\<lambda>c. c\<lparr>cc_reconnectTimer := Some (now + cc_reconnectIntervalMs c)\<rparr>) s
      else s)"

definition handleTransportError :: "int \<Rightarrow> string \<Rightarrow> 'd conn app \<Rightarrow> 'd conn app" where
  "handleTransportError now msg s0 =
     (let s = onConn (\<lambda>c. emitConn ErrorMessageChanged
                ((emitConn (CommunicationLogged 2 (''Error: '' @ msg)) c)\<lparr>cc_errorMessage := msg\<rparr>)) s0
      in if cc_state (conn_of s) = Connected then transportDropped now s
         else if cc_state (conn_of s) = ConnectionLost then
           onConn (\<lambda>c. c\<lparr>cc_reconnectTimer := Some (now + cc_reconnectIntervalMs c)\<rparr>) s
         else onConn (setState Failed) s)"

text \<open>Writing to a transport: an error raised at once reaches the controller inside the call.\<close>

definition appWrite :: "surroundings \<Rightarrow> int \<Rightarrow> (poll \<times> 'd conn) write_slot" where
  "appWrite E now t frame s =
     Some (case su_writeError E t frame of None \<Rightarrow> s | Some e \<Rightarrow> handleTransportError now e s)"

section \<open>Polling\<close>

definition beginPolling ::
    "surroundings \<Rightarrow> int \<Rightarrow> PollTarget list \<Rightarrow> bool \<Rightarrow> 'd conn app \<Rightarrow> 'd conn app option" where
  "beginPolling E now targets favorites s =
     do { s \<leftarrow> setTargets (appWrite E now) now targets (onConn (\<lambda>c. c\<lparr>cc_favoritesActive := favorites\<rparr>) s);
          s \<leftarrow> startPoll (appWrite E now) now
                 (onPoll (setIntervalMs now (cc_pollIntervalMs (conn_of s))) s);
          Some (onConn (emitConn PollingChanged) s) }"

definition normalTarget :: "'d conn \<Rightarrow> PollTarget" where
  "normalTarget c =
     \<lparr>pt_unitId = word_of_int (cc_unitId c), pt_registerType = cc_pollRegisterType c,
      pt_startAddress = word_of_int (cc_pollStartAddress c), pt_quantity = word_of_int (cc_pollQuantity c)\<rparr>"

definition startPolling ::
    "surroundings \<Rightarrow> int \<Rightarrow> RegisterType \<Rightarrow> int \<Rightarrow> int \<Rightarrow> 'd conn app \<Rightarrow> 'd conn app option" where
  "startPolling E now ty startAddress quantity s =
     (let s = onConn (\<lambda>c. c\<lparr>cc_pollRegisterType := ty, cc_pollStartAddress := startAddress,
                cc_pollQuantity := quantity\<rparr>) s
      in beginPolling E now [normalTarget (conn_of s)] False s)"

text \<open>\<open>given\<close>: the screen passed a favorites list, not a null pointer.\<close>

definition startPollingFavorites ::
    "surroundings \<Rightarrow> int \<Rightarrow> bool \<Rightarrow> 'd conn app \<Rightarrow> 'd conn app option" where
  "startPollingFavorites E now given s =
     (if \<not> given then Some s
      else beginPolling E now
             (buildPollTargets (word_of_int (cc_unitId (conn_of s))) (cc_favorites (conn_of s))) True s)"

section \<open>Coming back, connecting and disconnecting\<close>

text \<open>\<open>handleTransportConnectionStateChanged(true)\<close>\<close>

definition transportConnected :: "surroundings \<Rightarrow> int \<Rightarrow> 'd conn app \<Rightarrow> 'd conn app option" where
  "transportConnected E now s =
     (let wasReconnect = (cc_state (conn_of s) = ConnectionLost);
          s = onConn (\<lambda>c. setState Connected (c\<lparr>cc_reconnectTimer := None\<rparr>)) s;
          s = (if wasReconnect then onConn (emitConn SigConnectionRestored) s else s)
      in if cc_resumePolling (conn_of s) then
           let s = onConn (\<lambda>c. c\<lparr>cc_resumePolling := False\<rparr>) s; c = conn_of s
           in if cc_favoritesActive c then startPollingFavorites E now True s
              else startPolling E now (cc_pollRegisterType c) (cc_pollStartAddress c) (cc_pollQuantity c) s
         else Some s)"

fun transportSignal :: "surroundings \<Rightarrow> int \<Rightarrow> TransportSignal \<Rightarrow> 'd conn app \<Rightarrow> 'd conn app option" where
  "transportSignal E now (ConnectionStateChanged True) s = transportConnected E now s"
| "transportSignal E now (ConnectionStateChanged False) s = Some (transportDropped now s)"
| "transportSignal E now (ErrorOccurred msg) s = Some (handleTransportError now msg s)"

fun transportSignals :: "surroundings \<Rightarrow> int \<Rightarrow> TransportSignal list \<Rightarrow> 'd conn app \<Rightarrow> 'd conn app option" where
  "transportSignals E now [] s = Some s"
| "transportSignals E now (e # es) s = Option.bind (transportSignal E now e s) (transportSignals E now es)"

definition activeTransport :: "'d conn \<Rightarrow> ITransport" where
  "activeTransport c = (if cc_connectionType c = ConnTcp then TcpTransport else SerialTransport)"

definition serialSettingsOf :: "'d conn \<Rightarrow> SerialPortSettings" where
  "serialSettingsOf c = \<lparr>ps_portName = cc_portName c, ps_baudRate = cc_baudRate c,
     ps_dataBits = cc_dataBits c, ps_parity = cc_parity c, ps_stopBits = cc_stopBits c\<rparr>"

definition openActiveTransport :: "surroundings \<Rightarrow> int \<Rightarrow> 'd conn app \<Rightarrow> 'd conn app option" where
  "openActiveTransport E now s =
     (let c = conn_of s;
          s = onManager (\<lambda>m. setTransport (Some (activeTransport c))
                (setRetryCount (cc_retryCount c) (setTimeoutMs (cc_timeoutMs c) m))) s
      in if cc_connectionType c = ConnTcp then
           let t = tcpSetPort (word_of_int (cc_port c)) (tcpSetHost (cc_host c) (cc_tcp c));
               s = onConn (\<lambda>c. c\<lparr>cc_tcp := t\<rparr>) (onManager (setFramingMode Tcp) s)
           in transportSignals E now (fst (tcpOpen (su_tcpOpen E) t)) s
         else
           let (p, sigs, opened) = serialOpen (su_serialOpen E)
                 (serialSetSettings (serialSettingsOf c) (cc_serial c));
               s = onConn (\<lambda>c. c\<lparr>cc_serial := p\<rparr>) (onManager (setFramingMode Rtu) s)
           in transportSignals E now sigs s)"

definition connectToDevice :: "surroundings \<Rightarrow> int \<Rightarrow> 'd conn app \<Rightarrow> 'd conn app option" where
  "connectToDevice E now s =
     openActiveTransport E now (onConn (\<lambda>c. setState Connecting (c\<lparr>cc_resumePolling := False\<rparr>)) s)"

definition closeActiveTransport :: "surroundings \<Rightarrow> int \<Rightarrow> 'd conn app \<Rightarrow> 'd conn app option" where
  "closeActiveTransport E now s =
     (if cc_connectionType (conn_of s) = ConnTcp then transportSignals E now (su_tcpClose E) s
      else let (p, sigs) = serialClose (cc_serial (conn_of s))
           in transportSignals E now sigs (onConn (\<lambda>c. c\<lparr>cc_serial := p\<rparr>) s))"

definition disconnectFromDevice :: "surroundings \<Rightarrow> int \<Rightarrow> 'd conn app \<Rightarrow> 'd conn app option" where
  "disconnectFromDevice E now s =
     (let s = onConn (\<lambda>c. c\<lparr>cc_reconnectTimer := None, cc_resumePolling := False\<rparr>) s;
          s = onConn (\<lambda>c. c\<lparr>cc_favoritesActive := False\<rparr>) (stopPolling s)
      in map_option (onConn (setState Disconnected)) (closeActiveTransport E now s))"

definition beginReconnectAttempt :: "surroundings \<Rightarrow> int \<Rightarrow> 'd conn app \<Rightarrow> 'd conn app option" where
  "beginReconnectAttempt E now s =
     (if cc_state (conn_of s) \<noteq> ConnectionLost then Some s else openActiveTransport E now s)"

text \<open>The single-shot reconnect timer is inactive by the time its slot runs.\<close>

definition reconnectTimerFires :: "surroundings \<Rightarrow> int \<Rightarrow> 'd conn app \<Rightarrow> 'd conn app option" where
  "reconnectTimerFires E now s = beginReconnectAttempt E now (onConn (\<lambda>c. c\<lparr>cc_reconnectTimer := None\<rparr>) s)"

section \<open>One-shot reads and writes\<close>

fun readOperationFor :: "RegisterType \<Rightarrow> PendingOperation" where
  "readOperationFor Coil = OpReadCoils"
| "readOperationFor DiscreteInput = OpReadDiscreteInputs"
| "readOperationFor HoldingRegister = OpReadHoldingRegisters"
| "readOperationFor InputRegister = OpReadInputRegisters"

definition sendOneShot :: "surroundings \<Rightarrow> int \<Rightarrow> bytes \<Rightarrow> 'd conn app \<Rightarrow> 'd conn app option" where
  "sendOneShot E now pdu s0 =
     (let s = onConn (\<lambda>c. c\<lparr>cc_pendingCorrelationId := cc_pendingCorrelationId c + 1\<rparr>) s0
      in sendRequest (appWrite E now) now (word_of_int (cc_unitId (conn_of s))) pdu
           (cc_pendingCorrelationId (conn_of s)) s)"

definition readRegisters ::
    "surroundings \<Rightarrow> int \<Rightarrow> RegisterType \<Rightarrow> int \<Rightarrow> int \<Rightarrow> 'd conn app \<Rightarrow> 'd conn app option" where
  "readRegisters E now ty startAddress quantity s =
     sendOneShot E now
       (encodeReadRequest (readFunctionCodeFor ty) (word_of_int startAddress) (word_of_int quantity))
       (onConn (\<lambda>c. c\<lparr>cc_pendingOperation := readOperationFor ty, cc_pendingStartAddress := startAddress,
          cc_pendingQuantity := quantity\<rparr>) s)"

definition writeSingleRegister :: "surroundings \<Rightarrow> int \<Rightarrow> int \<Rightarrow> int \<Rightarrow> 'd conn app \<Rightarrow> 'd conn app option" where
  "writeSingleRegister E now address v s =
     sendOneShot E now (encodeWriteSingleRegisterRequest (word_of_int address) (word_of_int v))
       (onConn (\<lambda>c. c\<lparr>cc_pendingOperation := OpWriteSingleRegister, cc_pendingStartAddress := address\<rparr>) s)"

definition writeSingleCoil :: "surroundings \<Rightarrow> int \<Rightarrow> int \<Rightarrow> bool \<Rightarrow> 'd conn app \<Rightarrow> 'd conn app option" where
  "writeSingleCoil E now address v s =
     sendOneShot E now (encodeWriteSingleCoilRequest (word_of_int address) v)
       (onConn (\<lambda>c. c\<lparr>cc_pendingOperation := OpWriteSingleCoil, cc_pendingStartAddress := address\<rparr>) s)"

definition report :: "('v \<Rightarrow> ConnSignal) \<Rightarrow> 'v PduDecodeResult \<Rightarrow> 'd conn \<Rightarrow> 'd conn" where
  "report signal result c =
     (case result of
        Ok v \<Rightarrow> emitConn (signal v) c
      | MalformedFrame _ \<Rightarrow> emitConn (OperationFailed (errorMessage result)) c
      | ExceptionResponse _ \<Rightarrow> emitConn (OperationFailed (errorMessage result)) c)"

definition reportPending :: "bytes \<Rightarrow> 'd conn \<Rightarrow> 'd conn option" where
  "reportPending pdu c =
     (let registers = (\<lambda>r. HoldingRegistersRead (cc_pendingStartAddress c) (map uint (registerValues r)));
          bits = (\<lambda>r. BitsRead (cc_pendingStartAddress c) (bitValues r));
          quantity = word_of_int (cc_pendingQuantity c)
      in case cc_pendingOperation c of
           OpReadHoldingRegisters \<Rightarrow>
             map_option (\<lambda>r. report registers r c) (decodeReadHoldingRegistersResponse pdu)
         | OpReadInputRegisters \<Rightarrow>
             map_option (\<lambda>r. report registers r c) (decodeReadInputRegistersResponse pdu)
         | OpReadCoils \<Rightarrow> map_option (\<lambda>r. report bits r c) (decodeReadCoilsResponse pdu quantity)
         | OpReadDiscreteInputs \<Rightarrow>
             map_option (\<lambda>r. report bits r c) (decodeReadDiscreteInputsResponse pdu quantity)
         | OpWriteSingleRegister \<Rightarrow>
             map_option (\<lambda>r. report (\<lambda>v. SingleRegisterWritten (uint (ws_address v)) (uint (ws_value v))) r c)
               (decodeWriteSingleRegisterResponse pdu)
         | OpWriteSingleCoil \<Rightarrow>
             map_option (\<lambda>r. report (\<lambda>v. SingleCoilWritten (uint (ws_address v)) (ws_value v \<noteq> 0)) r c)
               (decodeWriteSingleCoilResponse pdu)
         | NoOperation \<Rightarrow> Some c)"

definition handleResponseReceived :: "u64 \<Rightarrow> bytes \<Rightarrow> 'd conn \<Rightarrow> 'd conn option" where
  "handleResponseReceived cid pdu c =
     (if cid \<noteq> cc_pendingCorrelationId c then Some c
      else map_option (\<lambda>c. c\<lparr>cc_pendingOperation := NoOperation\<rparr>) (reportPending pdu c))"

definition handleRequestFailed :: "u64 \<Rightarrow> string \<Rightarrow> 'd conn \<Rightarrow> 'd conn" where
  "handleRequestFailed cid reason c =
     (if cid \<noteq> cc_pendingCorrelationId c then c
      else emitConn (OperationFailed reason) (c\<lparr>cc_pendingOperation := NoOperation\<rparr>))"

section \<open>Relaying the engine's signals\<close>

fun relaySignal :: "'d numerics \<Rightarrow> PollSignal \<Rightarrow> 'd conn \<Rightarrow> 'd conn option" where
  "relaySignal N (TargetRegistersUpdated i start vals) c =
     (if cc_favoritesActive c
      then map_option (\<lambda>f. c\<lparr>cc_favorites := f\<rparr>) (applyRegisterUpdate N (int i) vals (cc_favorites c))
      else Some (emitConn (HoldingRegistersRead (uint start) (map uint vals)) c))"
| "relaySignal N (TargetBitsUpdated i start vals) c =
     Some (if cc_favoritesActive c then c\<lparr>cc_favorites := applyBitUpdate (int i) vals (cc_favorites c)\<rparr>
           else emitConn (BitsRead (uint start) vals) c)"
| "relaySignal N (PollFailed reason) c = Some (emitConn (OperationFailed reason) c)"
| "relaySignal N (TargetFailed i reason) c =
     Some (if cc_favoritesActive c then c\<lparr>cc_favorites := favMarkStale (int i) (cc_favorites c)\<rparr>
           else emitConn (RegisterReadFailed reason) c)"
| "relaySignal N PollCycleCompleted c = Some c"

fun relaySignals :: "'d numerics \<Rightarrow> PollSignal list \<Rightarrow> 'd conn \<Rightarrow> 'd conn option" where
  "relaySignals N [] c = Some c"
| "relaySignals N (e # es) c = Option.bind (relaySignal N e c) (relaySignals N es)"

text \<open>The signals the engine added to its first \<open>n\<close>.\<close>

definition relayFrom :: "'d numerics \<Rightarrow> nat \<Rightarrow> 'd conn app \<Rightarrow> 'd conn app option" where
  "relayFrom N n s =
     map_option (\<lambda>c. onConn (\<lambda>_. c) s) (relaySignals N (drop n (signals (poll_of s))) (conn_of s))"

text \<open>The slots of \<open>responseReceived\<close> and \<open>requestFailed\<close>, in the order they were connected.\<close>

definition appResponse :: "'d numerics \<Rightarrow> surroundings \<Rightarrow> int \<Rightarrow> (poll \<times> 'd conn) response_slot" where
  "appResponse N E now cid pdu s =
     do { s1 \<leftarrow> handleResponse (appWrite E now) now cid pdu s;
          s2 \<leftarrow> relayFrom N (length (signals (poll_of s))) s1;
          c \<leftarrow> handleResponseReceived cid pdu (conn_of s2);
          Some (onConn (\<lambda>_. c) s2) }"

definition appFailure :: "'d numerics \<Rightarrow> surroundings \<Rightarrow> int \<Rightarrow> (poll \<times> 'd conn) failure_slot" where
  "appFailure N E now cid reason s =
     do { s1 \<leftarrow> handleFailure (appWrite E now) now cid reason s;
          s2 \<leftarrow> relayFrom N (length (signals (poll_of s))) s1;
          Some (onConn (\<lambda>c. handleRequestFailed cid reason
                  (emitConn (CommunicationLogged 2 (''Timeout: '' @ reason)) c)) s2) }"

definition appFlush :: "'d numerics \<Rightarrow> 'd conn app \<Rightarrow> 'd conn app option" where
  "appFlush N s =
     do { p \<leftarrow> flushTimerFires (poll_of s);
          relayFrom N (length (signals (poll_of s))) (onPoll (\<lambda>_. p) s) }"

end
