(* ===== verification/Connection_Runs.thy ===== *)
theory Connection_Runs
  imports Connection
begin

text \<open>
  Runs of the whole application core: the controller, the poll engine and the transaction manager
  together. The controller's reaction to a failing write is one of those \<open>Polling_Runs\<close> allows, its
  slots fulfil the manager's contract, so the invariants of the engine carry over to every run.
\<close>

section \<open>The controller's reaction to a failing write\<close>

definition connReact ::
    "surroundings \<Rightarrow> int \<Rightarrow> ITransport \<Rightarrow> bytes \<Rightarrow> bool \<Rightarrow> 'd conn \<Rightarrow> 'd conn \<times> bool" where
  "connReact E now t frame running c =
     (case su_writeError E t frame of
        None \<Rightarrow> (c, False)
      | Some e \<Rightarrow>
          (conn_of (handleTransportError now e ((newPollEngine\<lparr>m_running := running\<rparr>, c), newTransactionManager None)),
           cc_state c = Connected))"

lemmas conn_update_defs = onConn_def onPoll_def onManager_def emitConn_def

lemma appWrite_reacts: "appWrite E now = reactingWrite (connReact E now)"
proof (intro ext)
  fix t frame and s :: "'d conn app"
  obtain p c m where s: "s = ((p, c), m)" by (metis prod.exhaust)
  show "appWrite E now t frame s = reactingWrite (connReact E now) t frame s"
  proof (cases "su_writeError E t frame")
    case (Some e)
    then show ?thesis
      by (cases "m_running p"; cases "cc_state c")
        (simp_all add: s appWrite_def reactingWrite_def connReact_def handleTransportError_def transportDropped_def
          stopPolling_def stopPoll_eq setState_def conn_update_defs Let_def)
  qed (simp add: s appWrite_def reactingWrite_def connReact_def)
qed

lemma agrees_onConn [simp]: "agrees pollRel X now (onConn g s) \<longleftrightarrow> agrees pollRel X now s"
  by (cases s; cases "fst s") (simp add: onConn_def agrees_pair pollRel_pair)

section \<open>The controller's slots fulfil the manager's contract\<close>

lemma agrees_onManager_settings:
  "agrees pollRel X now s \<Longrightarrow> agrees pollRel X now (onManager (setTransport t) s)"
  "agrees pollRel X now s \<Longrightarrow> agrees pollRel X now (onManager (setFramingMode mode) s)"
  "agrees pollRel X now s \<Longrightarrow> agrees pollRel X now (onManager (setTimeoutMs ms) s)"
  "agrees pollRel X now s \<Longrightarrow> agrees pollRel X now (onManager (setRetryCount k) s)"
  by (cases s; simp add: onManager_def agrees_setting)+

lemma app_relayFrom_agrees: "relayFrom N n s = Some s' \<Longrightarrow> agrees pollRel X now s \<Longrightarrow> agrees pollRel X now s'"
  by (auto simp: relayFrom_def)

lemma appWrite_keeps: "keeps pollRel now (appWrite E now t frame)"
  unfolding appWrite_reacts by (rule reactingWrite_keeps)

lemma appResponse_absorbs: "absorbs pollRel now cid (appResponse N E now cid pdu)"
  unfolding absorbs_def
proof (intro allI impI)
  fix X m s' and c :: "poll \<times> 'a conn"
  assume s: "sound X now m" "pollRel (idsOf (m_pending m)) (add_mset cid X) c"
    and step: "appResponse N E now cid pdu (c, m) = Some s'"
  from step obtain s1 s2 c2 where s1: "handleResponse (appWrite E now) now cid pdu (c, m) = Some s1"
    and s2: "relayFrom N (length (signals (fst c))) s1 = Some s2" and s': "s' = onConn (\<lambda>_. c2) s2"
    by (auto simp: appResponse_def bind_eq_Some_conv)
  from absorbsD [OF handleResponse_absorbs s s1 [unfolded appWrite_reacts]]
  show "agrees pollRel X now s'" using app_relayFrom_agrees [OF s2] by (simp add: s')
qed

lemma appFailure_absorbs: "absorbs pollRel now cid (appFailure N E now cid reason)"
  unfolding absorbs_def
proof (intro allI impI)
  fix X m s' and c :: "poll \<times> 'a conn"
  assume s: "sound X now m" "pollRel (idsOf (m_pending m)) (add_mset cid X) c"
    and step: "appFailure N E now cid reason (c, m) = Some s'"
  from step obtain s1 s2 g where s1: "handleFailure (appWrite E now) now cid reason (c, m) = Some s1"
    and s2: "relayFrom N (length (signals (fst c))) s1 = Some s2" and s': "s' = onConn g s2"
    by (auto simp: appFailure_def bind_eq_Some_conv)
  from absorbsD [OF handleFailure_absorbs s s1 [unfolded appWrite_reacts]]
  show "agrees pollRel X now s'" using app_relayFrom_agrees [OF s2] by (simp add: s')
qed

interpretation controller: client_slots pollRel "appWrite E now" "appResponse N E now" "appFailure N E now" now
  for N :: "'d numerics" and E and now
  by unfold_locales (auto intro: pollRel_taken appWrite_keeps appResponse_absorbs appFailure_absorbs)

section \<open>Retargeting counts the generation up by one, nothing else does\<close>

abbreviation generation_of :: "'e app \<Rightarrow> u32" where
  "generation_of s \<equiv> m_generation (poll_of s)"

lemma send_generation:
  assumes "sendRequest (reactingWrite react) now uid pdu cid s = Some s'"
  shows "generation_of s' = generation_of s"
  using assms
  by (cases s; cases "fst s")
    (auto simp: sendRequest_def writeFrame_def reactingWrite_def Let_def stopPoll_eq
      split: option.splits if_splits prod.splits)

lemma onPoll_generation [simp]:
  "(\<And>p. m_generation (g p) = m_generation p) \<Longrightarrow> generation_of (onPoll g s) = generation_of s"
  by (cases s; cases "fst s") (simp add: onPoll_def)

text \<open>What a request and the two counters leave alone, pumping leaves alone.\<close>

lemma pumpLoop_preserves:
  assumes "pumpLoop w now window s = Some s'" and "Q s"
    and send: "\<And>uid pdu cid s s'. sendRequest w now uid pdu cid s = Some s' \<Longrightarrow> Q s \<Longrightarrow> Q s'"
    and count: "\<And>s. Q s \<Longrightarrow> Q (onPoll (\<lambda>p. p\<lparr>m_requestsOutstanding := m_requestsOutstanding p + 1\<rparr>) s)"
    and move: "\<And>s. Q s \<Longrightarrow> Q (onPoll (\<lambda>p. p\<lparr>m_nextPlanIndex := m_nextPlanIndex p + 1\<rparr>) s)"
  shows "Q s'"
proof -
  have "v = w \<longrightarrow> n = now \<longrightarrow> Q s \<longrightarrow> Q s'" if "pumpLoop v n window s = Some s'" for v n s s'
  proof (rule pumpLoop.raw_induct
      [where P = "\<lambda>v n window s t. v = w \<longrightarrow> n = now \<longrightarrow> Q s \<longrightarrow> Q t", OF _ that])
    fix loop v n window s t
    assume IH: "\<And>v n window s t. loop v n window s = Some t \<Longrightarrow> v = w \<longrightarrow> n = now \<longrightarrow> Q s \<longrightarrow> Q t"
      and step: "(let p = poll_of s
        in if m_running p \<and> m_nextPlanIndex p < int (length (m_plans p)) \<and> m_requestsOutstanding p < window
           then Option.bind (list_at (m_plans p) (m_nextPlanIndex p)) (\<lambda>plan.
                Option.bind (sendRequest v n (rp_unitId plan) (planRequest plan)
                     (makeCorrelationId p (m_nextPlanIndex p))
                     (onPoll (\<lambda>p. p\<lparr>m_requestsOutstanding := m_requestsOutstanding p + 1\<rparr>) s)) (\<lambda>s.
                loop v n window (onPoll (\<lambda>p. p\<lparr>m_nextPlanIndex := m_nextPlanIndex p + 1\<rparr>) s)))
           else Some s) = Some t"
    show "v = w \<longrightarrow> n = now \<longrightarrow> Q s \<longrightarrow> Q t"
      using step by (auto simp: Let_def bind_eq_Some_conv dest!: IH send intro!: count move split: if_splits)
  qed
  with assms(1,2) show ?thesis by blast
qed

lemma pumpLoop_generation:
  assumes "pumpLoop (reactingWrite react) now window s = Some s'"
  shows "generation_of s' = generation_of s"
  by (rule pumpLoop_preserves [where Q = "\<lambda>t. generation_of t = generation_of s", OF assms])
    (auto dest: send_generation)

lemma beginCycle_generation:
  "beginCycle (reactingWrite react) now s = Some s' \<Longrightarrow> generation_of s' = generation_of s"
  by (auto simp: beginCycle_def pumpRequests_def Let_def dest!: pumpLoop_generation split: if_splits)

lemma setTargets_generation:
  "setTargets (reactingWrite react) now ts s = Some s' \<Longrightarrow> generation_of s' = generation_of s + 1"
  by (cases s; cases "fst s")
    (auto simp: setTargets_def rebuildPlans_def Let_def bind_eq_Some_conv dest!: beginCycle_generation split: if_splits)

lemma startPoll_generation:
  "startPoll (reactingWrite react) now s = Some s' \<Longrightarrow> generation_of s' = generation_of s"
  by (auto simp: startPoll_def dest!: beginCycle_generation split: if_splits)

lemma onConn_poll [simp]: "poll_of (onConn g s) = poll_of s" "snd (onConn g s) = snd s"
  by (cases s; cases "fst s"; simp add: onConn_def)+

lemma onManager_poll [simp]: "poll_of (onManager g s) = poll_of s"
  by (cases s) (simp add: onManager_def)

section \<open>The controller's operations keep engine and manager in step\<close>

lemma onConn_onConn [simp]: "onConn g (onConn h s) = onConn (g \<circ> h) s"
  by (cases s; cases "fst s"; simp add: onConn_def)

lemma onConn_id: "onConn (\<lambda>c. c) s = s"
  by (cases s; cases "fst s"; simp add: onConn_def)

lemma conn_of_onConn [simp]: "conn_of (onConn g s) = g (conn_of s)"
  by (cases s; cases "fst s"; simp add: onConn_def)

lemma conn_of_onPoll [simp]: "conn_of (onPoll g s) = conn_of s" "snd (onPoll g s) = snd s"
  by (cases s; cases "fst s"; simp add: onPoll_def)+

lemma conn_of_onManager [simp]: "conn_of (onManager g s) = conn_of s"
  by (cases s; simp add: onManager_def)

lemma poll_of_onPoll [simp]: "poll_of (onPoll g s) = g (poll_of s)"
  by (cases s; cases "fst s"; simp add: onPoll_def)

lemma stopPoll_parts [simp]:
  "conn_of (stopPoll s) = conn_of s" "m_running (poll_of (stopPoll s)) = False"
  "generation_of (stopPoll s) = generation_of s" "m_targets (poll_of (stopPoll s)) = m_targets (poll_of s)"
  by (cases s; cases "fst s"; simp add: stopPoll_eq)+

lemma stopPolling_agrees: "agrees pollRel X now s \<Longrightarrow> agrees pollRel X now (stopPolling s)"
  by (simp add: stopPolling_def stopPoll_agrees)

lemma transportDropped_agrees: "agrees pollRel X now s \<Longrightarrow> agrees pollRel X now (transportDropped t s)"
  by (simp add: transportDropped_def Let_def stopPolling_agrees)

lemma handleTransportError_agrees:
  "agrees pollRel X now s \<Longrightarrow> agrees pollRel X now (handleTransportError t msg s)"
  by (simp add: handleTransportError_def Let_def transportDropped_agrees)

lemma setIntervalMs_agrees:
  "agrees pollRel {#} now s \<Longrightarrow> agrees pollRel {#} now (onPoll (setIntervalMs now ms) s)"
  by (cases s; cases "fst s") (simp add: onPoll_def setIntervalMs_keeps)

lemma loss_generation [simp]:
  "generation_of (stopPolling s) = generation_of s"
  "generation_of (transportDropped t s) = generation_of s"
  "generation_of (handleTransportError t msg s) = generation_of s"
  by (simp_all add: stopPolling_def transportDropped_def handleTransportError_def Let_def)

text \<open>Retargeting does not wrap the generation counter, \<open>n\<close> times over.\<close>

definition room :: "nat \<Rightarrow> 'e app \<Rightarrow> bool" where
  "room n s \<longleftrightarrow> uint (generation_of s) + int n < 4294967296"

lemma room_next: "room (Suc n) s \<Longrightarrow> generation_of s + 1 \<noteq> 0"
  "room (Suc n) s \<Longrightarrow> generation_of s' = generation_of s + 1 \<Longrightarrow> room n s'"
proof -
  assume r: "room (Suc n) s"
  then have u: "uint (generation_of s + 1) = uint (generation_of s) + 1"
    by (simp add: room_def uint_word_ariths mod_pos_pos_trivial)
  show "generation_of s + 1 \<noteq> 0"
  proof
    assume "generation_of s + 1 = 0"
    then have "uint (generation_of s + 1) = 0" by simp
    with u uint_ge_0 [of "generation_of s"] show False by linarith
  qed
  assume "generation_of s' = generation_of s + 1"
  with u r show "room n s'" by (simp add: room_def)
qed

lemma room_weaken: "room (Suc n) s \<Longrightarrow> room n s" "generation_of s' = generation_of s \<Longrightarrow> room n s' = room n s"
  by (simp_all add: room_def)

lemma beginPolling_keeps:
  assumes "agrees pollRel {#} now s" and "room (Suc n) s" and "beginPolling E now ts fav s = Some s'"
  shows "agrees pollRel {#} now s' \<and> generation_of s' = generation_of s + 1"
proof -
  define s0 where "s0 = onConn (\<lambda>c. c\<lparr>cc_favoritesActive := fav\<rparr>) s"
  obtain s1 s2 where s1: "setTargets (appWrite E now) now ts s0 = Some s1"
    and s2: "startPoll (appWrite E now) now (onPoll (setIntervalMs now (cc_pollIntervalMs (conn_of s1))) s1) = Some s2"
    and s': "s' = onConn (emitConn PollingChanged) s2"
    using assms(3) by (auto simp: beginPolling_def s0_def bind_eq_Some_conv)
  let ?s1 = "onPoll (setIntervalMs now (cc_pollIntervalMs (conn_of s1))) s1"
  have "agrees pollRel {#} now s0" "generation_of s0 + 1 \<noteq> 0"
    using assms(1) room_next [OF assms(2)] by (simp_all add: s0_def)
  with s1 have "agrees pollRel {#} now s1" unfolding appWrite_reacts
    by (cases s0; cases "fst s0") (auto intro: setTargets_keeps)
  then have "agrees pollRel {#} now ?s1" by (rule setIntervalMs_agrees)
  with s2 have "agrees pollRel {#} now s2" unfolding appWrite_reacts
    by (cases ?s1; cases "fst ?s1") (auto intro: startPoll_keeps)
  moreover have "generation_of s2 = generation_of s + 1"
    using setTargets_generation [OF s1 [unfolded appWrite_reacts]] startPoll_generation [OF s2 [unfolded appWrite_reacts]]
    by (simp add: s0_def setIntervalMs_def Let_def)
  ultimately show ?thesis by (simp add: s')
qed

lemma startPolling_keeps:
  assumes "agrees pollRel {#} now s" and "room (Suc n) s"
    and "startPolling E now ty a q s = Some s' \<or> startPollingFavorites E now given s = Some s'"
  shows "agrees pollRel {#} now s' \<and> room n s'"
proof (cases "s' = s")
  case True
  with assms(1,2) room_weaken(1) show ?thesis by blast
next
  case False
  then obtain g ts fav where b: "beginPolling E now ts fav (onConn g s) = Some s'"
    using assms(3) by (auto simp: startPolling_def startPollingFavorites_def Let_def split: if_splits)
      (metis onConn_id)
  have "agrees pollRel {#} now (onConn g s)" "room (Suc n) (onConn g s)" using assms(1,2) by (simp_all add: room_def)
  from beginPolling_keeps [OF this b] room_next(2) [OF assms(2), of s'] show ?thesis by simp
qed

lemma transportConnected_keeps:
  assumes "agrees pollRel {#} now s" and "room (Suc n) s" and "transportConnected E now s = Some s'"
  shows "agrees pollRel {#} now s' \<and> room n s'"
proof -
  obtain g where "s' = onConn g s \<or>
      (\<exists>ty a q. startPolling E now ty a q (onConn g s) = Some s') \<or> startPollingFavorites E now True (onConn g s) = Some s'"
    using assms(3) by (auto simp: transportConnected_def Let_def split: if_splits)
  moreover have "agrees pollRel {#} now (onConn g s)" "room (Suc n) (onConn g s)"
    using assms(1,2) by (simp_all add: room_def)
  ultimately show ?thesis using startPolling_keeps room_weaken(1) by blast
qed

lemma transportSignals_keeps:
  assumes "agrees pollRel {#} now s" and "room (length es) s" and "transportSignals E now es s = Some s'"
  shows "agrees pollRel {#} now s' \<and> room 0 s'"
  using assms
proof (induction es arbitrary: s)
  case (Cons e es)
  obtain s1 where s1: "transportSignal E now e s = Some s1" and rest: "transportSignals E now es s1 = Some s'"
    using Cons.prems(3) by (auto simp: bind_eq_Some_conv)
  have "agrees pollRel {#} now s1 \<and> room (length es) s1"
  proof (cases e)
    case (ConnectionStateChanged up)
    then show ?thesis
      using s1 Cons.prems(1,2) transportConnected_keeps [of now s "length es" E s1]
      by (cases up) (auto simp: transportDropped_agrees room_def)
  next
    case (ErrorOccurred msg)
    then show ?thesis using s1 Cons.prems(1,2) by (auto simp: handleTransportError_agrees room_def)
  qed
  with Cons.IH rest show ?case by blast
qed simp

text \<open>What opening and closing the active transport report inside the call.\<close>

definition openSignals :: "surroundings \<Rightarrow> 'd conn \<Rightarrow> TransportSignal list" where
  "openSignals E c =
     (if cc_connectionType c = ConnTcp
      then fst (tcpOpen (su_tcpOpen E) (tcpSetPort (word_of_int (cc_port c)) (tcpSetHost (cc_host c) (cc_tcp c))))
      else fst (snd (serialOpen (su_serialOpen E) (serialSetSettings (serialSettingsOf c) (cc_serial c)))))"

definition closeSignals :: "surroundings \<Rightarrow> 'd conn \<Rightarrow> TransportSignal list" where
  "closeSignals E c =
     (if cc_connectionType c = ConnTcp then su_tcpClose E else snd (serialClose (cc_serial c)))"

definition prepared :: "surroundings \<Rightarrow> 'd conn app \<Rightarrow> 'd conn app" where
  "prepared E s =
     (let c = conn_of s;
          s = onManager (setTransport (Some (activeTransport c)) \<circ> setRetryCount (cc_retryCount c)
                \<circ> setTimeoutMs (cc_timeoutMs c)) s
      in if cc_connectionType c = ConnTcp
         then onConn (\<lambda>c. c\<lparr>cc_tcp := tcpSetPort (word_of_int (cc_port c)) (tcpSetHost (cc_host c) (cc_tcp c))\<rparr>)
                (onManager (setFramingMode Tcp) s)
         else onConn (\<lambda>c. c\<lparr>cc_serial := fst (serialOpen (su_serialOpen E)
                  (serialSetSettings (serialSettingsOf c) (cc_serial c)))\<rparr>)
                (onManager (setFramingMode Rtu) s))"

lemma openActiveTransport_eq:
  "openActiveTransport E now s = transportSignals E now (openSignals E (conn_of s)) (prepared E s)"
  by (cases s; cases "fst s")
    (simp add: openActiveTransport_def openSignals_def prepared_def Let_def onConn_def onManager_def split: prod.splits)

lemma app_prepared_agrees: "agrees pollRel X now s \<Longrightarrow> agrees pollRel X now (prepared E s)"
  by (cases s) (simp add: prepared_def Let_def comp_def onManager_def agrees_setting)

lemma prepared_poll [simp]: "poll_of (prepared E s) = poll_of s"
  by (simp add: prepared_def Let_def)

lemma openActiveTransport_keeps:
  assumes "agrees pollRel {#} now s" and "room (length (openSignals E (conn_of s))) s"
    and "openActiveTransport E now s = Some s'"
  shows "agrees pollRel {#} now s' \<and> room 0 s'"
  using transportSignals_keeps [OF app_prepared_agrees [OF assms(1)] _ assms(3) [unfolded openActiveTransport_eq]]
    assms(2) room_weaken(2) [of "prepared E s" s] by simp

lemma closeActiveTransport_keeps:
  assumes "agrees pollRel {#} now s" and "room (length (closeSignals E (conn_of s))) s"
    and "closeActiveTransport E now s = Some s'"
  shows "agrees pollRel {#} now s' \<and> room 0 s'"
proof -
  obtain g where "transportSignals E now (closeSignals E (conn_of s)) (onConn g s) = Some s'"
    using assms(3)
    by (auto simp: closeActiveTransport_def closeSignals_def Let_def split: if_splits prod.splits) (metis onConn_id)
  moreover have "agrees pollRel {#} now (onConn g s)" "room (length (closeSignals E (conn_of s))) (onConn g s)"
    using assms(1,2) by (simp_all add: room_def)
  ultimately show ?thesis using transportSignals_keeps by blast
qed

lemma sendOneShot_keeps:
  assumes "agrees pollRel {#} now s" and "uint (cc_pendingCorrelationId (conn_of s) + 1) < 4294967296"
    and "sendOneShot E now pdu s = Some s'"
  shows "agrees pollRel {#} now s'"
  using assms one_shot_enters [of "{#}" now "onConn (\<lambda>c. c\<lparr>cc_pendingCorrelationId := cc_pendingCorrelationId c + 1\<rparr>) s"]
  by (auto simp: sendOneShot_def Let_def appWrite_reacts)

lemma one_shot_calls:
  assumes "readRegisters E now ty a q s = Some s' \<or> writeSingleRegister E now a v s = Some s' \<or>
      writeSingleCoil E now a b s = Some s'"
  shows "\<exists>g pdu. sendOneShot E now pdu (onConn g s) = Some s' \<and>
    cc_pendingCorrelationId (g (conn_of s)) = cc_pendingCorrelationId (conn_of s)"
  using assms unfolding readRegisters_def writeSingleRegister_def writeSingleCoil_def
  by (-, elim disjE) (intro exI conjI, assumption, simp)+

lemma appFlush_keeps:
  assumes "agrees pollRel {#} now s" and "appFlush N s = Some s'"
  shows "agrees pollRel {#} now s'"
proof -
  obtain p where "flushTimerFires (poll_of s) = Some p"
    and r: "relayFrom N (length (signals (poll_of s))) (onPoll (\<lambda>_. p) s) = Some s'"
    using assms(2) by (auto simp: appFlush_def bind_eq_Some_conv)
  then have "agrees pollRel {#} now (onPoll (\<lambda>_. p) s)"
    using assms(1) by (cases s; cases "fst s") (auto simp: onPoll_def intro: flushTimer_keeps)
  with app_relayFrom_agrees [OF r] show ?thesis .
qed

section \<open>Runs of the application\<close>

text \<open>
  What the screen sets, and what it does to the favorites; a new screen has a new list. The last one is
  the last line of \<open>handleResponseReceived\<close>, where the screen has sent a request from inside its report.
\<close>

inductive setting_step :: "'d numerics \<Rightarrow> 'd conn \<Rightarrow> 'd conn \<Rightarrow> bool" for N where
  "setting_step N c (setHost host c)"
| "setting_step N c (setPort port c)"
| "setting_step N c (setUnitId uid c)"
| "setting_step N c (setConnTimeoutMs ms c)"
| "setting_step N c (setConnRetryCount k c)"
| "setting_step N c (setReconnectIntervalMs ms c)"
| "setting_step N c (setConnectionType ty c)"
| "setting_step N c (setPortName name c)"
| "setting_step N c (setBaudRate baud c)"
| "setting_step N c (setDataBits bits c)"
| "setting_step N c (setParity parity c)"
| "setting_step N c (setStopBits stops c)"
| "applyFavOp N op (cc_favorites c) = Some f \<Longrightarrow> setting_step N c (c\<lparr>cc_favorites := f\<rparr>)"
| "setting_step N c (c\<lparr>cc_favorites := newFavorites\<rparr>)"
| "setting_step N c (c\<lparr>cc_pendingOperation := NoOperation\<rparr>)"

text \<open>
  What happens by itself: the transports report and deliver, and the four timers fire. Each event comes
  in surroundings of its own. The 32 bits of the generation counter are assumed not to wrap.
\<close>

inductive event_step :: "'d numerics \<Rightarrow> int \<times> 'd conn app \<Rightarrow> int \<times> 'd conn app \<Rightarrow> bool" for N where
  clock: "now \<le> now' \<Longrightarrow> event_step N (now, s) (now', s)"
| signal: "room 1 s \<Longrightarrow> transportSignal E now e s = Some s' \<Longrightarrow> event_step N (now, s) (now, s')"
| data: "dataArrives (appResponse N E now) now t bytes s = Some s' \<Longrightarrow> event_step N (now, s) (now, s')"
| timeout_timer: "m_timeoutTimer (snd s) = Some F \<Longrightarrow> F \<le> now \<Longrightarrow>
    timerFires (appWrite E now) (appFailure N E now) now s = Some s' \<Longrightarrow> event_step N (now, s) (now, s')"
| interval_timer: "m_intervalTimer (poll_of s) = Some F \<Longrightarrow> F \<le> now \<Longrightarrow>
    intervalTimerFires (appWrite E now) now s = Some s' \<Longrightarrow> event_step N (now, s) (now, s')"
| flush_timer: "m_flushTimer (poll_of s) = Some F \<Longrightarrow> F \<le> now \<Longrightarrow> appFlush N s = Some s' \<Longrightarrow>
    event_step N (now, s) (now, s')"
| reconnect_timer: "cc_reconnectTimer (conn_of s) = Some F \<Longrightarrow> F \<le> now \<Longrightarrow>
    room (length (openSignals E (conn_of s))) s \<Longrightarrow> reconnectTimerFires E now s = Some s' \<Longrightarrow>
    event_step N (now, s) (now, s')"

text \<open>Whatever a socket or port reports or delivers is such an event, or nothing at all.\<close>

fun outputArrives ::
    "'d numerics \<Rightarrow> surroundings \<Rightarrow> int \<Rightarrow> ITransport \<Rightarrow> TransportOutput \<Rightarrow> 'd conn app \<Rightarrow> 'd conn app option" where
  "outputArrives N E now t (DataReceived bytes) s = dataArrives (appResponse N E now) now t bytes s"
| "outputArrives N E now t (Reports e) s = transportSignal E now e s"

definition socketEvent ::
    "'d numerics \<Rightarrow> surroundings \<Rightarrow> int \<Rightarrow> SocketEvent \<Rightarrow> 'd conn app \<Rightarrow> 'd conn app option" where
  "socketEvent N E now e = outputArrives N E now TcpTransport (tcpSlot e)"

definition portEvent ::
    "'d numerics \<Rightarrow> surroundings \<Rightarrow> int \<Rightarrow> PortEvent \<Rightarrow> 'd conn app \<Rightarrow> 'd conn app option" where
  "portEvent N E now e s =
     (case portSlot e of None \<Rightarrow> Some s | Some out \<Rightarrow> outputArrives N E now SerialTransport out s)"

lemma output_steps: "room 1 s \<Longrightarrow> outputArrives N E now t out s = Some s' \<Longrightarrow> event_step N (now, s) (now, s')"
  by (cases out) (auto intro: event_step.signal event_step.data)

lemma transport_events_step:
  "room 1 s \<Longrightarrow> socketEvent N E now se s = Some s' \<Longrightarrow> event_step N (now, s) (now, s')"
  "room 1 s \<Longrightarrow> portEvent N E now pe s = Some s' \<Longrightarrow> event_step N (now, s) (now, s')"
  by (auto simp: socketEvent_def portEvent_def intro: output_steps event_step.clock split: option.splits)

text \<open>
  And with the calls of the screen. The ids of one-shot requests are assumed to stay within the 32 bits
  that keep them apart from the engine's.
\<close>

inductive app_step :: "'d numerics \<Rightarrow> int \<times> 'd conn app \<Rightarrow> int \<times> 'd conn app \<Rightarrow> bool" for N where
  event: "event_step N x y \<Longrightarrow> app_step N x y"
| setting: "setting_step N (conn_of s) c \<Longrightarrow> app_step N (now, s) (now, onConn (\<lambda>_. c) s)"
| poll_interval: "app_step N (now, s) (now, setPollIntervalMs now ms s)"
| connect: "room (length (openSignals E (conn_of s))) s \<Longrightarrow> connectToDevice E now s = Some s' \<Longrightarrow>
    app_step N (now, s) (now, s')"
| disconnect: "room (length (closeSignals E (conn_of s))) s \<Longrightarrow> disconnectFromDevice E now s = Some s' \<Longrightarrow>
    app_step N (now, s) (now, s')"
| start: "room 1 s \<Longrightarrow> startPolling E now ty a q s = Some s' \<Longrightarrow> app_step N (now, s) (now, s')"
| favorites: "room 1 s \<Longrightarrow> startPollingFavorites E now given s = Some s' \<Longrightarrow> app_step N (now, s) (now, s')"
| stop: "app_step N (now, s) (now, stopPolling s)"
| one_shot: "uint (cc_pendingCorrelationId (conn_of s) + 1) < 4294967296 \<Longrightarrow>
    readRegisters E now ty a q s = Some s' \<or> writeSingleRegister E now a v s = Some s' \<or>
    writeSingleCoil E now a b s = Some s' \<Longrightarrow> app_step N (now, s) (now, s')"

definition startApp :: "'d conn app" where
  "startApp = ((newPollEngine, newConnection), newTransactionManager (Some TcpTransport))"

definition app_reachable :: "'d numerics \<Rightarrow> int \<times> 'd conn app \<Rightarrow> bool" where
  "app_reachable N x \<longleftrightarrow> (\<exists>start. (app_step N)\<^sup>*\<^sup>* (start, startApp) x)"

lemma event_step_agrees:
  assumes "event_step N (now, s) (now', s')" and ag: "agrees pollRel {#} now s"
  shows "agrees pollRel {#} now' s'"
  using assms(1)
proof cases
  case clock
  then show ?thesis using ag agrees_later by blast
next
  case (signal E e)
  then show ?thesis using transportSignals_keeps [of now s "[e]" E s'] ag by simp
next
  case (data E t bytes)
  then show ?thesis using keepsD [OF controller.dataArrives_keeps ag] by blast
next
  case (timeout_timer F E)
  then show ?thesis using keepsD [OF controller.timerFires_keeps ag] by blast
next
  case (interval_timer F E)
  then show ?thesis using ag unfolding appWrite_reacts
    by (cases s; cases "fst s") (auto intro: intervalTimer_keeps)
next
  case (flush_timer F)
  then show ?thesis using appFlush_keeps ag by blast
next
  case (reconnect_timer F E)
  let ?s = "onConn (\<lambda>c. c\<lparr>cc_reconnectTimer := None\<rparr>) s"
  have "openSignals E (conn_of ?s) = openSignals E (conn_of s)"
    by (simp add: openSignals_def serialSettingsOf_def)
  with reconnect_timer openActiveTransport_keeps [of now ?s E s'] ag show ?thesis
    by (auto simp: reconnectTimerFires_def beginReconnectAttempt_def room_def split: if_splits)
qed

lemma app_step_agrees:
  assumes "app_step N (now, s) (now', s')" and ag: "agrees pollRel {#} now s"
  shows "agrees pollRel {#} now' s'"
  using assms(1)
proof cases
  case event
  then show ?thesis using event_step_agrees ag by blast
next
  case (poll_interval ms)
  then show ?thesis
    using ag by (simp add: setPollIntervalMs_def setIntervalMs_agrees)
next
  case (connect E)
  let ?s = "onConn (\<lambda>c. setState Connecting (c\<lparr>cc_resumePolling := False\<rparr>)) s"
  have "openSignals E (conn_of ?s) = openSignals E (conn_of s)"
    by (simp add: openSignals_def setState_def emitConn_def serialSettingsOf_def)
  with connect openActiveTransport_keeps [of now ?s E s'] ag show ?thesis
    by (simp add: connectToDevice_def room_def)
next
  case (disconnect E)
  let ?s = "onConn (\<lambda>c. c\<lparr>cc_favoritesActive := False\<rparr>)
      (stopPolling (onConn (\<lambda>c. c\<lparr>cc_reconnectTimer := None, cc_resumePolling := False\<rparr>) s))"
  have "closeSignals E (conn_of ?s) = closeSignals E (conn_of s)"
    by (simp add: closeSignals_def stopPolling_def emitConn_def)
  with disconnect closeActiveTransport_keeps [of now ?s E] ag show ?thesis
    by (auto simp: disconnectFromDevice_def Let_def room_def stopPolling_agrees)
next
  case (start E ty a q)
  then show ?thesis using startPolling_keeps [of now s 0 E ty a q s'] ag by simp
next
  case (favorites E given)
  then show ?thesis using startPolling_keeps [of now s 0 E _ _ _ s' given] ag by simp
next
  case (one_shot E ty a q v b)
  from one_shot(3) obtain g pdu where "sendOneShot E now pdu (onConn g s) = Some s'"
    "cc_pendingCorrelationId (g (conn_of s)) = cc_pendingCorrelationId (conn_of s)" using one_shot_calls by blast
  with sendOneShot_keeps [of now "onConn g s" E pdu s'] one_shot(1,2) ag show ?thesis by simp
qed (use ag in \<open>simp_all add: stopPolling_agrees\<close>)

lemma startApp_agrees: "agrees pollRel {#} now startApp"
  unfolding startApp_def by (rule new_agrees)

lemma app_reachable_agrees:
  assumes "app_reachable N (now, s)"
  shows "agrees pollRel {#} now s"
proof -
  obtain start where run: "(app_step N)\<^sup>*\<^sup>* (start, startApp) (now, s)" using assms by (auto simp: app_reachable_def)
  have "agrees pollRel {#} (fst y) (snd y)" if "(app_step N)\<^sup>*\<^sup>* (start, startApp) y" for y
    using that
  proof (induction rule: rtranclp_induct)
    case base
    show ?case by (simp add: startApp_agrees)
  next
    case (step y z)
    then show ?case using app_step_agrees [of N "fst y" "snd y" "fst z" "snd z"] by simp
  qed
  from this [OF run] show ?thesis by simp
qed

text \<open>C2: in every reachable state of the whole application, while it polls something, polling cannot
  stall: the next cycle is due, or a request of this poll is pending with the timeout timer armed, and
  the engine's window counts exactly its own pending requests; whatever the device answers, whatever
  the transports report, however often the connection is lost and whatever the user reads, writes,
  sets, connects or disconnects in between.\<close>

theorem app_polling_never_stalls:
  assumes "app_reachable N (now, s)" and "m_running (poll_of s)" and "m_plans (poll_of s) \<noteq> []"
  shows "m_requestsOutstanding (poll_of s) =
      int (length (filter (\<lambda>r. isCurrentGeneration (poll_of s) (correlationId r)) (m_pending (snd s)))) \<and>
    (if m_requestsOutstanding (poll_of s) = 0 then m_intervalTimer (poll_of s) \<noteq> None
     else m_timeoutTimer (snd s) \<noteq> None)"
proof -
  obtain p e m where s: "s = ((p, e), m)" by (metis prod.exhaust)
  have ag: "sound {#} now m" "pollRel (idsOf (m_pending m)) {#} (p, e)"
    using app_reachable_agrees [OF assms(1)] by (simp_all add: s agrees_pair)
  have "m_generation p \<noteq> 0" using ag(2) assms(3) by (auto simp: s pollRel_pair wfPoll_def)
  then have "mine p = isCurrentGeneration p" by (simp add: fun_eq_iff mine_def)
  then have count: "m_requestsOutstanding p =
      int (length (filter (\<lambda>r. isCurrentGeneration p (correlationId r)) (m_pending m)))"
    using ag(2) assms(2,3) by (simp add: s pollRel_pair inFlight_list)
  have "m_timeoutTimer m \<noteq> None" if "m_requestsOutstanding p \<noteq> 0"
    using ag(1) that count by (auto simp: sound_def timerOk_def)
  moreover have "m_intervalTimer p \<noteq> None" if "m_requestsOutstanding p = 0"
    using ag(2) that assms(2,3) by (simp add: s pollRel_pair)
  ultimately show ?thesis using count unfolding s fst_conv snd_conv by presburger
qed

end
