(* ===== verification/Connection_Session.thy ===== *)
theory Connection_Session
  imports Connection_Runs
begin

text \<open>
  A session from connecting to disconnecting.

  \<^item> \<open>session_contract\<close>: what the engine and the controller's slots keep, whatever a transport write
    raises; it makes the property a relation of the manager's contract (\<open>client_slots\<close>), so it holds
    through both receiving loops and the timeouts. \<open>unattended_session\<close>: and through every event.
  \<^item> Polling that resumes after a loss fulfils it. (\<open>Connection_Lifecycle\<close> has two more.)
\<close>

declare split_paired_Ex [simp del]

section \<open>What should be polled\<close>

definition polledTargets :: "'d conn \<Rightarrow> PollTarget list" where
  "polledTargets c =
     (if cc_favoritesActive c then buildPollTargets (word_of_int (cc_unitId c)) (cc_favorites c)
      else [normalTarget c])"

text \<open>The same for a unit id that was set when polling was started.\<close>

definition targetsFor :: "u8 \<Rightarrow> 'd conn \<Rightarrow> PollTarget list" where
  "targetsFor u c =
     (if cc_favoritesActive c then buildPollTargets u (cc_favorites c)
      else [(normalTarget c)\<lparr>pt_unitId := u\<rparr>])"

lemma polledTargets_for: "polledTargets c = targetsFor (word_of_int (cc_unitId c)) c"
  by (simp add: polledTargets_def targetsFor_def normalTarget_def)

definition pollMembers :: "'d conn \<Rightarrow> bool \<times> RegisterType \<times> (u8 \<Rightarrow> PollTarget list)" where
  "pollMembers c = (cc_favoritesActive c, cc_pollRegisterType c, \<lambda>u. targetsFor u c)"

lemma pollMembers_fields [simp]:
  "pollMembers (c\<lparr>cc_state := st\<rparr>) = pollMembers c"
  "pollMembers (c\<lparr>cc_resumePolling := r\<rparr>) = pollMembers c"
  "pollMembers (c\<lparr>cc_reconnectTimer := t\<rparr>) = pollMembers c"
  "pollMembers (c\<lparr>cc_errorMessage := msg\<rparr>) = pollMembers c"
  "pollMembers (c\<lparr>cc_pendingOperation := po\<rparr>) = pollMembers c"
  "pollMembers (c\<lparr>cc_tcp := tr\<rparr>) = pollMembers c"
  "pollMembers (c\<lparr>cc_serial := se\<rparr>) = pollMembers c"
  "pollMembers (c\<lparr>cc_signals := ss\<rparr>) = pollMembers c"
  "pollMembers (emitConn e c) = pollMembers c"
  "pollMembers (setState v c) = pollMembers c"
  by (simp_all add: pollMembers_def targetsFor_def normalTarget_def emitConn_def setState_def cong: if_cong)

lemma emitConn_fields [simp]:
  "cc_state (emitConn e c) = cc_state c" "cc_resumePolling (emitConn e c) = cc_resumePolling c"
  "polledTargets (emitConn e c) = polledTargets c" "cc_favorites (emitConn e c) = cc_favorites c"
  "cc_favoritesActive (emitConn e c) = cc_favoritesActive c"
  "cc_reconnectTimer (emitConn e c) = cc_reconnectTimer c"
  "cc_reconnectIntervalMs (emitConn e c) = cc_reconnectIntervalMs c"
  by (simp_all add: emitConn_def polledTargets_def normalTarget_def)

lemma polledTargets_fields [simp]:
  "polledTargets (c\<lparr>cc_state := st\<rparr>) = polledTargets c"
  "polledTargets (c\<lparr>cc_resumePolling := r\<rparr>) = polledTargets c"
  "polledTargets (c\<lparr>cc_reconnectTimer := t\<rparr>) = polledTargets c"
  "polledTargets (c\<lparr>cc_errorMessage := msg\<rparr>) = polledTargets c"
  "polledTargets (c\<lparr>cc_pendingOperation := po\<rparr>) = polledTargets c"
  "polledTargets (c\<lparr>cc_tcp := tr\<rparr>) = polledTargets c"
  "polledTargets (c\<lparr>cc_serial := se\<rparr>) = polledTargets c"
  "polledTargets (c\<lparr>cc_signals := ss\<rparr>) = polledTargets c"
  by (simp_all add: polledTargets_def normalTarget_def)

lemma setState_fields [simp]:
  "cc_state (setState v c) = v" "cc_resumePolling (setState v c) = cc_resumePolling c"
  "polledTargets (setState v c) = polledTargets c" "cc_reconnectTimer (setState v c) = cc_reconnectTimer c"
  by (simp_all add: setState_def)

lemma cachesMatch_fields [simp]:
  "cachesMatch (p\<lparr>m_requestsOutstanding := n\<rparr>) = cachesMatch p"
  "cachesMatch (p\<lparr>m_nextPlanIndex := n\<rparr>) = cachesMatch p"
  "cachesMatch (p\<lparr>m_intervalTimer := t\<rparr>) = cachesMatch p"
  "cachesMatch (p\<lparr>m_flushTimer := t\<rparr>) = cachesMatch p"
  "cachesMatch (p\<lparr>m_running := b\<rparr>) = cachesMatch p"
  "cachesMatch (p\<lparr>m_intervalMs := i\<rparr>) = cachesMatch p"
  "cachesMatch (p\<lparr>signals := ss\<rparr>) = cachesMatch p"
  by (simp_all add: cachesMatch_def)

lemma applyPlanResponse_fields:
  assumes "applyPlanResponse now plan pdu p = Some q"
  shows "m_targets q = m_targets p \<and> m_running q = m_running p \<and> (cachesMatch p \<longrightarrow> cachesMatch q)"
proof -
  have "(\<exists>vals. applyBits now vals (covered plan) p = Some q) \<or>
      (\<exists>vals. applyRegisters now vals (covered plan) p = Some q) \<or>
      (\<exists>reason. q = reportPlanFailure plan reason p)"
    using assms by (auto simp: applyPlanResponse_def split: if_splits bind_splits PduDecodeResult.splits)
  then have "onlyCachesChanged p q \<or> (\<exists>ss. q = p\<lparr>signals := ss\<rparr>)"
    unfolding applyBits_slices applyRegisters_slices
    using reportPlanFailure_signals [of plan _ p]
    by (auto simp: bits.same_shape_def registers.same_shape_def
        dest!: bits.applySlices_shape registers.applySlices_shape)
  then have "m_targets q = m_targets p \<and> m_running q = m_running p"
  proof
    assume "onlyCachesChanged p q"
    from onlyCachesChanged_fields [OF this] show ?thesis by simp
  next
    assume "\<exists>ss. q = p\<lparr>signals := ss\<rparr>"
    then show ?thesis by (elim exE) simp
  qed
  moreover have "cachesMatch q" if "cachesMatch p"
    using applyPlanResponse_effect [OF assms that]
  proof
    assume "\<exists>ss. q = p\<lparr>signals := ss\<rparr>"
    with that show ?thesis by (elim exE) simp
  qed simp
  ultimately show ?thesis by simp
qed

lemma reportPlanFailure_fields [simp]:
  "m_targets (reportPlanFailure plan reason p) = m_targets p"
  "m_running (reportPlanFailure plan reason p) = m_running p"
  "cachesMatch (reportPlanFailure plan reason p) = cachesMatch p"
  using reportPlanFailure_signals [of plan reason p] by auto

section \<open>Relaying\<close>

lemma buildPollTargets_same:
  "list_at (fv_entries f) i = Some e \<Longrightarrow> fe_definition e' = fe_definition e \<Longrightarrow>
   buildPollTargets u (f\<lparr>fv_entries := (fv_entries f)[nat i := e']\<rparr>) = buildPollTargets u f"
  by (auto simp: buildPollTargets_def list_at_eq_Some map_update intro!: list_update_same_conv [THEN iffD2])

lemma buildPollTargets_emit [simp]: "buildPollTargets u (emitFav e f) = buildPollTargets u f"
  by (simp add: buildPollTargets_def)

lemma updates_keep_targets:
  "applyRegisterUpdate N i vals f = Some f' \<Longrightarrow> buildPollTargets u f' = buildPollTargets u f"
  "buildPollTargets u (applyBitUpdate i bits f) = buildPollTargets u f"
  "buildPollTargets u (favMarkStale i f) = buildPollTargets u f"
  by (auto simp: applyRegisterUpdate_def applyBitUpdate_def favMarkStale_def Let_def buildPollTargets_same
      split: option.splits if_splits)

text \<open>Relaying an update, and reporting a one-shot answer, leaves the lifecycle alone.\<close>

text \<open>
  The reports so far: each reconnect answers a loss (\<open>Some True\<close>: one is open), and of the three kinds of
  lines in the communication log only errors come from the controller itself (the frames are the manager's).
\<close>

fun tally :: "bool option \<Rightarrow> ConnSignal \<Rightarrow> bool option" where
  "tally None e = None"
| "tally (Some lost) SigConnectionLost = Some True"
| "tally (Some lost) SigConnectionRestored = (if lost then Some False else None)"
| "tally (Some lost) (CommunicationLogged direction line) = (if direction = 2 then Some lost else None)"
| "tally (Some lost) e = Some lost"

definition lossAccount :: "'d conn \<Rightarrow> bool option" where
  "lossAccount c = foldl tally (Some False) (cc_signals c)"

fun otherSignal :: "ConnSignal \<Rightarrow> bool" where
  "otherSignal SigConnectionLost \<longleftrightarrow> False"
| "otherSignal SigConnectionRestored \<longleftrightarrow> False"
| "otherSignal (CommunicationLogged direction line) \<longleftrightarrow> direction = 2"
| "otherSignal e \<longleftrightarrow> True"

lemma tally_other: "otherSignal e \<Longrightarrow> tally a e = a"
  by (cases a; cases e) simp_all

lemma lossAccount_emit: "lossAccount (emitConn e c) = tally (lossAccount c) e"
  by (simp add: lossAccount_def emitConn_def)

lemma lossAccount_fields [simp]:
  "lossAccount (c\<lparr>cc_state := st\<rparr>) = lossAccount c"
  "lossAccount (c\<lparr>cc_resumePolling := b\<rparr>) = lossAccount c"
  "lossAccount (c\<lparr>cc_reconnectTimer := t\<rparr>) = lossAccount c"
  "lossAccount (c\<lparr>cc_errorMessage := msg\<rparr>) = lossAccount c"
  "lossAccount (c\<lparr>cc_pendingOperation := po\<rparr>) = lossAccount c"
  "lossAccount (c\<lparr>cc_favorites := f\<rparr>) = lossAccount c"
  "lossAccount (c\<lparr>cc_favoritesActive := b\<rparr>) = lossAccount c"
  "lossAccount (c\<lparr>cc_tcp := tr\<rparr>) = lossAccount c"
  "lossAccount (c\<lparr>cc_serial := se\<rparr>) = lossAccount c"
  by (simp_all add: lossAccount_def)

definition sameSession :: "'d conn \<Rightarrow> 'd conn \<Rightarrow> bool" where
  "sameSession c c' \<longleftrightarrow> cc_state c' = cc_state c \<and> cc_resumePolling c' = cc_resumePolling c \<and>
     cc_reconnectTimer c' = cc_reconnectTimer c \<and> polledTargets c' = polledTargets c \<and>
     pollMembers c' = pollMembers c \<and> lossAccount c' = lossAccount c"

lemma sameSession_refl [simp]: "sameSession c c" "otherSignal e \<Longrightarrow> sameSession c (emitConn e c)"
  "sameSession c (c\<lparr>cc_pendingOperation := po\<rparr>)"
  "otherSignal e \<Longrightarrow> sameSession c (emitConn e (c\<lparr>cc_pendingOperation := po\<rparr>))"
  by (simp_all add: sameSession_def lossAccount_emit tally_other)

lemma sameSession_trans: "sameSession a b \<Longrightarrow> sameSession b c \<Longrightarrow> sameSession a c"
  by (simp add: sameSession_def)

lemma relaySignal_same: "relaySignal N e c = Some c' \<Longrightarrow> sameSession c c'"
  by (cases e) (auto simp: sameSession_def polledTargets_def pollMembers_def targetsFor_def normalTarget_def
      lossAccount_def emitConn_def tally_other updates_keep_targets split: if_splits)

lemma relaySignals_same: "relaySignals N es c = Some c' \<Longrightarrow> sameSession c c'"
  by (induction es arbitrary: c) (auto simp: bind_eq_Some_conv dest!: relaySignal_same intro: sameSession_trans)

lemma report_same: "(\<And>v. otherSignal (signal v)) \<Longrightarrow> sameSession c (report signal r c)"
  by (cases r) (simp_all add: report_def)

lemma handleResponseReceived_same:
  assumes "handleResponseReceived cid pdu c = Some c'"
  shows "sameSession c c'"
proof -
  have "sameSession c c1" if "reportPending pdu c = Some c1" for c1
    using that by (auto simp: reportPending_def Let_def report_same split: PendingOperation.splits)
  moreover have "sameSession c (c1\<lparr>cc_pendingOperation := NoOperation\<rparr>)" if "sameSession c c1" for c1
    using that by (simp add: sameSession_def)
  ultimately show ?thesis using assms by (auto simp: handleResponseReceived_def split: if_splits)
qed

lemma handleRequestFailed_same:
  "otherSignal e \<Longrightarrow> sameSession c (handleRequestFailed cid reason (emitConn e c))"
  by (simp add: handleRequestFailed_def sameSession_def lossAccount_emit tally_other)

section \<open>Losing the connection\<close>

lemma stopPoll_sound: "sound X now (snd s) \<Longrightarrow> sound X now (snd (stopPoll s))"
  by (cases s; cases "fst s") (simp add: stopPoll_eq sound_cancelAll)

lemma stopPoll_cachesMatch [simp]: "cachesMatch (poll_of (stopPoll s)) = cachesMatch (poll_of s)"
  by (cases s; cases "fst s") (simp add: stopPoll_eq)

lemma loss_sound:
  "sound X now (snd s) \<Longrightarrow> sound X now (snd (transportDropped t s))"
  "sound X now (snd s) \<Longrightarrow> sound X now (snd (handleTransportError t msg s))"
  by (simp_all add: transportDropped_def handleTransportError_def stopPolling_def Let_def stopPoll_sound)

text \<open>What a transport error does to the engine and to the lifecycle.\<close>

lemma loss_effect:
  "m_targets (poll_of (transportDropped t s)) = m_targets (poll_of s)"
  "cachesMatch (poll_of (transportDropped t s)) = cachesMatch (poll_of s)"
  "polledTargets (conn_of (transportDropped t s)) = polledTargets (conn_of s)"
  "pollMembers (conn_of (transportDropped t s)) = pollMembers (conn_of s)"
  "m_running (poll_of (transportDropped t s)) \<longleftrightarrow>
     m_running (poll_of s) \<and> cc_state (conn_of s) \<noteq> Connected \<and> cc_state (conn_of s) \<noteq> ConnectionLost"
  "cc_state (conn_of (transportDropped t s)) =
     (if cc_state (conn_of s) = Connected then ConnectionLost else cc_state (conn_of s))"
  "cc_resumePolling (conn_of (transportDropped t s)) \<longleftrightarrow> cc_resumePolling (conn_of s) \<or>
     m_running (poll_of s) \<and> (cc_state (conn_of s) = Connected \<or> cc_state (conn_of s) = ConnectionLost)"
  "cc_reconnectTimer (conn_of (transportDropped t s)) =
     (if cc_state (conn_of s) = Connected \<or> cc_state (conn_of s) = ConnectionLost
      then Some (t + cc_reconnectIntervalMs (conn_of s)) else cc_reconnectTimer (conn_of s))"
  "lossAccount (conn_of (transportDropped t s)) =
     (if cc_state (conn_of s) = Connected then tally (lossAccount (conn_of s)) SigConnectionLost
      else lossAccount (conn_of s))"
  by (auto simp: transportDropped_def stopPolling_def Let_def setState_def lossAccount_emit tally_other)

lemma error_effect:
  "m_targets (poll_of (handleTransportError t msg s)) = m_targets (poll_of s)"
  "cachesMatch (poll_of (handleTransportError t msg s)) = cachesMatch (poll_of s)"
  "polledTargets (conn_of (handleTransportError t msg s)) = polledTargets (conn_of s)"
  "pollMembers (conn_of (handleTransportError t msg s)) = pollMembers (conn_of s)"
  "m_running (poll_of (handleTransportError t msg s)) \<longleftrightarrow>
     m_running (poll_of s) \<and> cc_state (conn_of s) \<noteq> Connected"
  "cc_state (conn_of (handleTransportError t msg s)) =
     (if cc_state (conn_of s) = Connected \<or> cc_state (conn_of s) = ConnectionLost then ConnectionLost else Failed)"
  "cc_resumePolling (conn_of (handleTransportError t msg s)) \<longleftrightarrow> cc_resumePolling (conn_of s) \<or>
     m_running (poll_of s) \<and> cc_state (conn_of s) = Connected"
  "cc_reconnectTimer (conn_of (handleTransportError t msg s)) =
     (if cc_state (conn_of s) = Connected \<or> cc_state (conn_of s) = ConnectionLost
      then Some (t + cc_reconnectIntervalMs (conn_of s)) else cc_reconnectTimer (conn_of s))"
  "lossAccount (conn_of (handleTransportError t msg s)) =
     (if cc_state (conn_of s) = Connected then tally (lossAccount (conn_of s)) SigConnectionLost
      else lossAccount (conn_of s))"
  by (auto simp: handleTransportError_def Let_def loss_effect setState_def lossAccount_emit tally_other)

section \<open>Properties of a session\<close>

text \<open>
  Such a property looks at the engine's targets, caches and running flag and at the controller's
  lifecycle, and survives a transport error.
\<close>

locale session_contract =
  fixes K :: "poll \<times> 'd conn \<Rightarrow> bool"
  assumes engine: "K (p, c) \<Longrightarrow> m_targets q = m_targets p \<Longrightarrow> m_running q = m_running p \<Longrightarrow>
        (cachesMatch p \<Longrightarrow> cachesMatch q) \<Longrightarrow> K (q, c)"
    and lifecycle: "K (p, c) \<Longrightarrow> sameSession c c' \<Longrightarrow> K (p, c')"
    and error: "K (fst s) \<Longrightarrow> K (fst (handleTransportError t msg s))"
begin

lemma on_controller:
  assumes "agrees (\<lambda>_ _. K) X now s" and "sameSession (conn_of s) (g (conn_of s))"
  shows "agrees (\<lambda>_ _. K) X now (onConn g s)"
  using assms lifecycle by (cases s; cases "fst s") (auto simp: onConn_def agrees_pair)

lemma on_engine:
  assumes "agrees (\<lambda>_ _. K) X now s" and "m_targets (g (poll_of s)) = m_targets (poll_of s)"
    and "m_running (g (poll_of s)) = m_running (poll_of s)"
    and "cachesMatch (poll_of s) \<Longrightarrow> cachesMatch (g (poll_of s))"
  shows "agrees (\<lambda>_ _. K) X now (onPoll g s)"
  using assms engine by (cases s; cases "fst s") (auto simp: onPoll_def agrees_pair)

lemma error_agrees:
  "agrees (\<lambda>_ _. K) X now s \<Longrightarrow> agrees (\<lambda>_ _. K) X now (handleTransportError t msg s)"
  by (simp add: agrees_def error loss_sound)

lemma write_keeps: "keeps (\<lambda>_ _. K) now (appWrite E now t frame)"
  by (auto simp: keeps_def appWrite_def error_agrees split: option.splits)

lemma send_agrees:
  assumes "sendRequest (appWrite E now) now uid pdu cid s = Some s'" and "agrees (\<lambda>_ _. K) X now s"
  shows "agrees (\<lambda>_ _. K) X now s'"
proof -
  have "client_slots (\<lambda>_ _. K) (appWrite E now) (\<lambda>_ _ _. None) (\<lambda>_ _ _. None) now"
    by unfold_locales (auto simp: write_keeps absorbs_def)
  note enter = entersD [OF client_slots.sendRequest_enters [OF this]]
  obtain pc m where s: "s = (pc, m)" by (cases s)
  have "sound X now m" "K pc" using assms(2) unfolding s agrees_pair by blast+
  from enter [OF this assms(1) [unfolded s]] show ?thesis .
qed

lemma pumpRequests_agrees:
  assumes "pumpRequests (appWrite E now) now s = Some s'" and "agrees (\<lambda>_ _. K) X now s"
  shows "agrees (\<lambda>_ _. K) X now s'"
  by (rule pumpLoop_preserves [OF assms(1) [unfolded pumpRequests_def], where Q = "agrees (\<lambda>_ _. K) X now", OF assms(2)])
    (auto intro: send_agrees on_engine)

lemma beginCycle_agrees:
  assumes "beginCycle (appWrite E now) now s = Some s'" and "agrees (\<lambda>_ _. K) X now s"
  shows "agrees (\<lambda>_ _. K) X now s'"
proof (cases "s' = s")
  case False
  then have "pumpRequests (appWrite E now) now
      (onPoll (\<lambda>p. p\<lparr>m_nextPlanIndex := 0, m_requestsOutstanding := 0\<rparr>) s) = Some s'"
    using assms(1) by (auto simp: beginCycle_def Let_def split: if_splits)
  then show ?thesis by (rule pumpRequests_agrees) (rule on_engine [OF assms(2)], simp_all)
qed (use assms(2) in simp)

lemma noteRequestSettled_agrees:
  assumes "noteRequestSettled (appWrite E now) now s = Some s'" and "agrees (\<lambda>_ _. K) X now s"
  shows "agrees (\<lambda>_ _. K) X now s'"
proof -
  let ?s = "onPoll (\<lambda>p. p\<lparr>m_requestsOutstanding := max 0 (m_requestsOutstanding p - 1)\<rparr>) s"
  obtain s1 where s1: "pumpRequests (appWrite E now) now ?s = Some s1"
    and s': "s' = s1 \<or> s' = onPoll (\<lambda>p. let p = emitPoll PollCycleCompleted p
       in if m_running p then p\<lparr>m_intervalTimer := Some (now + m_intervalMs p)\<rparr> else p) s1"
    using assms(1) by (auto simp: noteRequestSettled_def Let_def bind_eq_Some_conv split: if_splits)
  have "agrees (\<lambda>_ _. K) X now s1"
    by (rule pumpRequests_agrees [OF s1]) (rule on_engine [OF assms(2)], simp_all)
  with s' show ?thesis by (auto simp: Let_def emitPoll_def intro!: on_engine split: if_splits)
qed

lemma handleResponse_agrees:
  assumes "handleResponse (appWrite E now) now cid pdu s = Some s'" and "agrees (\<lambda>_ _. K) X now s"
  shows "agrees (\<lambda>_ _. K) X now s'"
proof (cases "s' = s")
  case False
  let ?updated = "if 0 \<le> planIndexOf cid \<and> planIndexOf cid < int (length (m_plans (poll_of s)))
      then map_option (\<lambda>q. onPoll (\<lambda>_. q) s)
             (applyPlanResponse now (m_plans (poll_of s) ! nat (planIndexOf cid)) pdu (poll_of s))
      else Some s"
  have "Option.bind ?updated (noteRequestSettled (appWrite E now) now) = Some s'"
    using assms(1) False by (auto simp: handleResponse_def Let_def split: if_splits)
  then obtain s1 where s1: "?updated = Some s1" and settle: "noteRequestSettled (appWrite E now) now s1 = Some s'"
    unfolding bind_eq_Some_conv by blast
  have "agrees (\<lambda>_ _. K) X now s1"
    using s1 assms(2) applyPlanResponse_fields by (auto intro!: on_engine split: if_splits)
  with noteRequestSettled_agrees [OF settle] show ?thesis .
qed (use assms(2) in simp)

lemma handleFailure_agrees:
  assumes "handleFailure (appWrite E now) now cid reason s = Some s'" and "agrees (\<lambda>_ _. K) X now s"
  shows "agrees (\<lambda>_ _. K) X now s'"
proof (cases "s' = s")
  case False
  then obtain g where settle: "noteRequestSettled (appWrite E now) now (onPoll g s) = Some s'"
    and g: "g = (\<lambda>p. if 0 \<le> planIndexOf cid \<and> planIndexOf cid < int (length (m_plans p))
        then reportPlanFailure (m_plans p ! nat (planIndexOf cid)) reason p else emitPoll (PollFailed reason) p)"
    using assms(1) by (auto simp: handleFailure_def Let_def split: if_splits)
  have "agrees (\<lambda>_ _. K) X now (onPoll g s)"
    by (rule on_engine [OF assms(2)]) (simp_all add: g emitPoll_def)
  with noteRequestSettled_agrees [OF settle] show ?thesis .
qed (use assms(2) in simp)

lemma relayFrom_agrees:
  assumes "relayFrom N n s = Some s'" and "agrees (\<lambda>_ _. K) X now s"
  shows "agrees (\<lambda>_ _. K) X now s'"
  using assms(1) relaySignals_same by (auto simp: relayFrom_def intro!: on_controller [OF assms(2)])

lemma response_absorbs: "absorbs (\<lambda>_ _. K) now cid (appResponse N E now cid pdu)"
  unfolding absorbs_def
proof (intro allI impI)
  fix X m s' and c :: "poll \<times> 'd conn"
  assume s: "sound X now m" "K c"
    and step: "appResponse N E now cid pdu (c, m) = Some s'"
  from step obtain s1 s2 c2 where s1: "handleResponse (appWrite E now) now cid pdu (c, m) = Some s1"
    and s2: "relayFrom N (length (signals (fst c))) s1 = Some s2"
    and c2: "handleResponseReceived cid pdu (conn_of s2) = Some c2" and s': "s' = onConn (\<lambda>_. c2) s2"
    by (auto simp: appResponse_def bind_eq_Some_conv)
  have "agrees (\<lambda>_ _. K) X now (c, m)" using s by (simp add: agrees_pair)
  from relayFrom_agrees [OF s2 handleResponse_agrees [OF s1 this]]
  show "agrees (\<lambda>_ _. K) X now s'"
    unfolding s' by (rule on_controller) (rule handleResponseReceived_same [OF c2])
qed

lemma failure_absorbs: "absorbs (\<lambda>_ _. K) now cid (appFailure N E now cid reason)"
  unfolding absorbs_def
proof (intro allI impI)
  fix X m s' and c :: "poll \<times> 'd conn"
  assume s: "sound X now m" "K c"
    and step: "appFailure N E now cid reason (c, m) = Some s'"
  from step obtain s1 s2 where s1: "handleFailure (appWrite E now) now cid reason (c, m) = Some s1"
    and s2: "relayFrom N (length (signals (fst c))) s1 = Some s2"
    and s': "s' = onConn (\<lambda>c. handleRequestFailed cid reason (emitConn (CommunicationLogged 2 (''Timeout: '' @ reason)) c)) s2"
    by (auto simp: appFailure_def bind_eq_Some_conv)
  have "agrees (\<lambda>_ _. K) X now (c, m)" using s by (simp add: agrees_pair)
  from relayFrom_agrees [OF s2 handleFailure_agrees [OF s1 this]]
  show "agrees (\<lambda>_ _. K) X now s'"
    unfolding s' by (rule on_controller) (rule handleRequestFailed_same, simp)
qed

end

text \<open>So it is a relation between the controller and the manager, for which the loops are proved.\<close>

sublocale session_contract \<subseteq> slots: client_slots "\<lambda>_ _. K" "appWrite E now" "appResponse N E now" "appFailure N E now" now
  for N E now
  by unfold_locales (auto intro: write_keeps response_absorbs failure_absorbs)

section \<open>Properties of the controller alone\<close>

lemma setTargets_conn:
  assumes "setTargets w now ts s = Some s'" and "sound X now (snd s)"
  shows "\<exists>s1. conn_of s1 = conn_of s \<and> m_targets (poll_of s1) = ts \<and> sound X now (snd s1) \<and>
    (s' = s1 \<or> beginCycle w now s1 = Some s')"
proof -
  obtain p e m where s: "s = ((p, e), m)" by (metis prod.exhaust)
  obtain q where "m_targets q = ts" "Some s' = Some ((q, e), cancelAll m) \<or> beginCycle w now ((q, e), cancelAll m) = Some s'"
  proof -
    obtain plans where "coalesce ts (m_coalescingOptions p) = Some plans"
      using assms(1) unfolding s by (auto simp: setTargets_def rebuildPlans_def Let_def bind_eq_Some_conv)
    with assms(1) that [of "p\<lparr>m_targets := ts, m_generation := m_generation p + 1, m_intervalTimer := None,
        m_plans := plans, m_caches := map freshCache ts\<rparr>"]
    show thesis unfolding s by (simp add: setTargets_def rebuildPlans_def Let_def split: if_splits)
  qed
  then show ?thesis using assms(2) sound_cancelAll unfolding s by (intro exI [of _ "((q, e), cancelAll m)"]) simp
qed

definition sameLifecycle :: "'d conn \<Rightarrow> 'd conn \<Rightarrow> bool" where
  "sameLifecycle c c' \<longleftrightarrow> cc_state c' = cc_state c \<and> cc_reconnectTimer c' = cc_reconnectTimer c \<and>
     lossAccount c' = lossAccount c"

lemma sameLifecycle_refl [simp]: "sameLifecycle c c"
  by (simp add: sameLifecycle_def)

text \<open>They survive being retargeted and started, whatever the writes raise.\<close>

locale lifecycle_session = session_contract K for K :: "poll \<times> 'd conn \<Rightarrow> bool" +
  assumes any_engine: "K (p, c) \<Longrightarrow> sameLifecycle c c' \<Longrightarrow> K (q, c')"
begin

lemma free_engine: "agrees (\<lambda>_ _. K) {#} now s \<Longrightarrow> agrees (\<lambda>_ _. K) {#} now (onPoll g s)"
  using any_engine [OF _ sameLifecycle_refl] by (cases s; cases "fst s") (auto simp: onPoll_def agrees_pair)

lemma free_controller:
  assumes "agrees (\<lambda>_ _. K) {#} now s" and "sameLifecycle (conn_of s) (g (conn_of s))"
  shows "agrees (\<lambda>_ _. K) {#} now (onConn g s)"
  using assms any_engine by (cases s; cases "fst s") (auto simp: onConn_def agrees_pair)

lemma beginPolling_agrees:
  assumes "beginPolling E now ts fav s = Some s'" and "agrees (\<lambda>_ _. K) {#} now s"
  shows "agrees (\<lambda>_ _. K) {#} now s'"
proof -
  define s0 where "s0 = onConn (\<lambda>c. c\<lparr>cc_favoritesActive := fav\<rparr>) s"
  have "agrees (\<lambda>_ _. K) {#} now s0"
    unfolding s0_def by (rule free_controller [OF assms(2)]) (simp add: sameLifecycle_def)
  then have s0: "K (poll_of s0, conn_of s0)" "sound {#} now (snd s0)" by (simp_all add: agrees_def)
  obtain s1 s2 where s1: "setTargets (appWrite E now) now ts s0 = Some s1"
    and s2: "startPoll (appWrite E now) now (onPoll (setIntervalMs now (cc_pollIntervalMs (conn_of s1))) s1) = Some s2"
    and s': "s' = onConn (emitConn PollingChanged) s2"
    using assms(1) by (auto simp: beginPolling_def s0_def bind_eq_Some_conv)
  obtain t where t: "conn_of t = conn_of s0" "sound {#} now (snd t)" "s1 = t \<or> beginCycle (appWrite E now) now t = Some s1"
    using setTargets_conn [OF s1 s0(2)] by blast
  have "K (poll_of t, conn_of t)" using any_engine [OF s0(1) sameLifecycle_refl] t(1) by simp
  then have "agrees (\<lambda>_ _. K) {#} now t" using t(2) by (simp add: agrees_def)
  with t(3) beginCycle_agrees have K1: "agrees (\<lambda>_ _. K) {#} now s1" by blast
  let ?s1 = "onPoll (setIntervalMs now (cc_pollIntervalMs (conn_of s1))) s1"
  have "s2 = ?s1 \<or> beginCycle (appWrite E now) now (onPoll (\<lambda>p. p\<lparr>m_running := True\<rparr>) ?s1) = Some s2"
    using s2 by (simp add: startPoll_def split: if_splits)
  moreover have "agrees (\<lambda>_ _. K) {#} now ?s1" "agrees (\<lambda>_ _. K) {#} now (onPoll (\<lambda>p. p\<lparr>m_running := True\<rparr>) ?s1)"
    by (intro free_engine K1)+
  ultimately have "agrees (\<lambda>_ _. K) {#} now s2" using beginCycle_agrees by blast
  then show ?thesis unfolding s' by (rule on_controller) simp
qed

lemma startPolling_agrees:
  assumes "startPolling E now ty a q s = Some s' \<or> startPollingFavorites E now given s = Some s'"
    and "agrees (\<lambda>_ _. K) {#} now s"
  shows "agrees (\<lambda>_ _. K) {#} now s'"
proof (cases "s' = s")
  case False
  define g where "g = (\<lambda>c :: 'd conn. c\<lparr>cc_pollRegisterType := ty, cc_pollStartAddress := a, cc_pollQuantity := q\<rparr>)"
  have "agrees (\<lambda>_ _. K) {#} now (onConn g s)"
    by (rule free_controller [OF assms(2)]) (simp add: sameLifecycle_def g_def lossAccount_def)
  with assms False show ?thesis
    by (auto simp: startPolling_def startPollingFavorites_def Let_def g_def intro: beginPolling_agrees split: if_splits)
qed (use assms(2) in simp)

end

section \<open>Properties that survive every event\<close>

locale unattended_session = session_contract K for K :: "poll \<times> 'd conn \<Rightarrow> bool" +
  assumes dropped: "K (fst s) \<Longrightarrow> K (fst (transportDropped t s))"
    and connected: "agrees (\<lambda>_ _. K) {#} now s \<Longrightarrow> transportConnected E now s = Some s' \<Longrightarrow>
        agrees (\<lambda>_ _. K) {#} now s'"
    and timer: "K (p, c) \<Longrightarrow> K (p, c\<lparr>cc_reconnectTimer := None\<rparr>)"
begin

lemma signal_agrees:
  assumes "transportSignal E now e s = Some s'" and "agrees (\<lambda>_ _. K) {#} now s"
  shows "agrees (\<lambda>_ _. K) {#} now s'"
proof (cases e)
  case (ConnectionStateChanged up)
  have "agrees (\<lambda>_ _. K) {#} now (transportDropped now s)"
    using assms(2) by (simp add: agrees_def dropped loss_sound)
  with assms ConnectionStateChanged connected show ?thesis by (cases up) simp_all
next
  case (ErrorOccurred msg)
  then show ?thesis using assms(1) error_agrees [OF assms(2), of now msg] by simp
qed

lemma signals_agree:
  assumes "transportSignals E now es s = Some s'" and "agrees (\<lambda>_ _. K) {#} now s"
  shows "agrees (\<lambda>_ _. K) {#} now s'"
  using assms by (induction es arbitrary: s) (auto simp: bind_eq_Some_conv dest: signal_agrees)

lemma prepared_agrees: "agrees (\<lambda>_ _. K) X now s \<Longrightarrow> agrees (\<lambda>_ _. K) X now (prepared E s)"
  using lifecycle
  by (cases s; cases "fst s")
    (auto simp: prepared_def Let_def comp_def onManager_def onConn_def agrees_pair sameSession_def sound_setting)

lemma reconnect_agrees:
  assumes "reconnectTimerFires E now s = Some s'" and "agrees (\<lambda>_ _. K) {#} now s"
  shows "agrees (\<lambda>_ _. K) {#} now s'"
proof -
  let ?s = "onConn (\<lambda>c. c\<lparr>cc_reconnectTimer := None\<rparr>) s"
  have "agrees (\<lambda>_ _. K) {#} now ?s"
    using assms(2) timer by (cases s; cases "fst s") (simp add: onConn_def agrees_pair)
  moreover from this have "agrees (\<lambda>_ _. K) {#} now (prepared E ?s)" by (rule prepared_agrees)
  moreover have "s' = ?s \<or> transportSignals E now (openSignals E (conn_of ?s)) (prepared E ?s) = Some s'"
    using assms(1)
    by (simp add: reconnectTimerFires_def beginReconnectAttempt_def openActiveTransport_eq split: if_splits)
  ultimately show ?thesis using signals_agree by blast
qed

lemma flush_agrees:
  assumes "appFlush N s = Some s'" and "agrees (\<lambda>_ _. K) {#} now s"
  shows "agrees (\<lambda>_ _. K) {#} now s'"
proof -
  obtain q where q: "flushTimerFires (poll_of s) = Some q"
    and r: "relayFrom N (length (signals (poll_of s))) (onPoll (\<lambda>_. q) s) = Some s'"
    using assms(1) by (auto simp: appFlush_def bind_eq_Some_conv)
  have "agrees (\<lambda>_ _. K) {#} now (onPoll (\<lambda>_. q) s)"
    by (rule on_engine [OF assms(2)]) (simp_all add: flushTimer_fields [OF q])
  with relayFrom_agrees [OF r] show ?thesis .
qed

lemma event_agrees:
  assumes "event_step N (now, s) (now', s')" and ag: "agrees (\<lambda>_ _. K) {#} now s"
  shows "agrees (\<lambda>_ _. K) {#} now' s'"
  using assms(1)
proof cases
  case clock
  then show ?thesis using ag agrees_later by blast
next
  case (signal E e)
  then show ?thesis using signal_agrees ag by blast
next
  case (data E t bytes)
  then show ?thesis using keepsD [OF slots.dataArrives_keeps ag] by blast
next
  case (timeout_timer F E)
  then show ?thesis using keepsD [OF slots.timerFires_keeps ag] by blast
next
  case (interval_timer F E)
  then have cycle: "beginCycle (appWrite E now) now (onPoll (\<lambda>p. p\<lparr>m_intervalTimer := None\<rparr>) s) = Some s'"
    by (simp add: intervalTimerFires_def)
  have "agrees (\<lambda>_ _. K) {#} now (onPoll (\<lambda>p. p\<lparr>m_intervalTimer := None\<rparr>) s)"
    by (rule on_engine [OF ag]) simp_all
  with cycle interval_timer(1) show ?thesis using beginCycle_agrees by blast
next
  case (flush_timer F)
  then show ?thesis using flush_agrees ag by blast
next
  case (reconnect_timer F E)
  then show ?thesis using reconnect_agrees ag by blast
qed

lemma events_agree:
  assumes "(event_step N)\<^sup>*\<^sup>* (now, s) (now', s')" and "agrees (\<lambda>_ _. K) {#} now s"
  shows "agrees (\<lambda>_ _. K) {#} now' s'"
proof -
  have "agrees (\<lambda>_ _. K) {#} (fst y) (snd y)" if "(event_step N)\<^sup>*\<^sup>* (now, s) y" for y
    using that
  proof (induction rule: rtranclp_induct)
    case base
    show ?case using assms(2) by simp
  next
    case (step y z)
    then show ?case using event_agrees [of N "fst y" "snd y" "fst z" "snd z"] by simp
  qed
  from this [OF assms(1)] show ?thesis by simp
qed

end

section \<open>Polling survives a lost connection\<close>

text \<open>The engine polls what it should on an established connection, or the poll waits for one.\<close>

definition resuming :: "PollTarget list \<Rightarrow> poll \<times> 'd conn \<Rightarrow> bool" where
  "resuming ts pc \<longleftrightarrow> m_targets (fst pc) = ts \<and> polledTargets (snd pc) = ts \<and>
     (if m_running (fst pc) then cc_state (snd pc) = Connected \<and> \<not> cc_resumePolling (snd pc)
      else cc_state (snd pc) = ConnectionLost \<and> cc_resumePolling (snd pc))"

abbreviation polls :: "PollTarget list \<Rightarrow> int \<Rightarrow> 'd conn app \<Rightarrow> bool" where
  "polls ts now s \<equiv> agrees (\<lambda>_ _. resuming ts) {#} now s"

interpretation resuming: session_contract "resuming ts" for ts
  by unfold_locales (auto simp: resuming_def sameSession_def error_effect split: if_splits)

lemma setIntervalMs_fields [simp]:
  "m_running (setIntervalMs now ms p) = m_running p" "m_targets (setIntervalMs now ms p) = m_targets p"
  "cachesMatch (setIntervalMs now ms p) = cachesMatch p" "m_plans (setIntervalMs now ms p) = m_plans p"
  by (simp_all add: setIntervalMs_def Let_def)

text \<open>Starting again what was polled.\<close>

lemma restart_eq:
  "cc_favoritesActive (conn_of s) \<Longrightarrow> startPollingFavorites E now True s =
     beginPolling E now (polledTargets (conn_of s)) True s"
  "\<not> cc_favoritesActive (conn_of s) \<Longrightarrow>
   startPolling E now (cc_pollRegisterType (conn_of s)) (cc_pollStartAddress (conn_of s)) (cc_pollQuantity (conn_of s)) s =
     beginPolling E now (polledTargets (conn_of s)) False s"
  by (cases s; cases "fst s"; simp add: startPollingFavorites_def startPolling_def polledTargets_def Let_def onConn_def)+

lemma setTargets_stopped:
  assumes "setTargets w now ts s = Some s'" and "\<not> m_running (poll_of s)"
  shows "m_targets (poll_of s') = ts \<and> \<not> m_running (poll_of s') \<and> cachesMatch (poll_of s') \<and>
    conn_of s' = conn_of s \<and> snd s' = cancelAll (snd s)"
  using assms
  by (cases s; cases "fst s")
    (auto simp: setTargets_def rebuildPlans_def Let_def bind_eq_Some_conv split: if_splits intro!: fresh_cachesMatch)

lemma beginPolling_resumes:
  assumes "beginPolling E now ts fav s = Some s'" and "sound {#} now (snd s)" and "\<not> m_running (poll_of s)"
    and "cc_state (conn_of s) = Connected" and "\<not> cc_resumePolling (conn_of s)"
    and "polledTargets ((conn_of s)\<lparr>cc_favoritesActive := fav\<rparr>) = ts"
  shows "polls ts now s'"
proof -
  define s0 where "s0 = onConn (\<lambda>c. c\<lparr>cc_favoritesActive := fav\<rparr>) s"
  obtain s1 s2 where s1: "setTargets (appWrite E now) now ts s0 = Some s1"
    and s2: "startPoll (appWrite E now) now (onPoll (setIntervalMs now (cc_pollIntervalMs (conn_of s1))) s1) = Some s2"
    and s': "s' = onConn (emitConn PollingChanged) s2"
    using assms(1) by (auto simp: beginPolling_def s0_def bind_eq_Some_conv)
  have "\<not> m_running (poll_of s0)" using assms(3) by (simp add: s0_def)
  note f = setTargets_stopped [OF s1 this]
  let ?s = "onPoll (\<lambda>p. p\<lparr>m_running := True\<rparr>) (onPoll (setIntervalMs now (cc_pollIntervalMs (conn_of s1))) s1)"
  have "beginCycle (appWrite E now) now ?s = Some s2"
    using s2 f by (simp add: startPoll_def)
  moreover have "polls ts now ?s"
    using f assms(2,4,5,6)
    by (simp add: agrees_def resuming_def s0_def sound_cancelAll)
  ultimately have "polls ts now s2" by (rule resuming.beginCycle_agrees)
  then show ?thesis unfolding s' by (rule resuming.on_controller) simp
qed

lemma transportConnected_resumes:
  assumes "transportConnected E now s = Some s'" and polls: "polls ts now s"
  shows "polls ts now s'"
proof (cases "m_running (poll_of s)")
  case True
  then have c: "cc_state (conn_of s) = Connected" "\<not> cc_resumePolling (conn_of s)"
    using polls by (simp_all add: agrees_def resuming_def)
  then have s': "s' = onConn (\<lambda>c. setState Connected (c\<lparr>cc_reconnectTimer := None\<rparr>)) s"
    using assms(1) by (simp add: transportConnected_def Let_def setState_def)
  show ?thesis using polls True unfolding s' by (cases s; cases "fst s") (auto simp: onConn_def agrees_pair resuming_def split: if_splits)
next
  case False
  then have c: "cc_state (conn_of s) = ConnectionLost" "cc_resumePolling (conn_of s)"
    "polledTargets (conn_of s) = ts" "sound {#} now (snd s)"
    using polls by (simp_all add: agrees_def resuming_def)
  define g where "g = (\<lambda>c :: 'a conn. (emitConn SigConnectionRestored
      (setState Connected (c\<lparr>cc_reconnectTimer := None\<rparr>)))\<lparr>cc_resumePolling := False\<rparr>)"
  have g: "cc_state (g c) = Connected" "\<not> cc_resumePolling (g c)" "polledTargets (g c) = polledTargets c"
    "cc_favoritesActive (g c) = cc_favoritesActive c" for c
    by (simp_all add: g_def setState_def)
  have "beginPolling E now ts (cc_favoritesActive (conn_of s)) (onConn g s) = Some s'"
  proof -
    have "transportConnected E now s =
      (let s = onConn g s; c = conn_of s
       in if cc_favoritesActive c then startPollingFavorites E now True s
          else startPolling E now (cc_pollRegisterType c) (cc_pollStartAddress c) (cc_pollQuantity c) s)"
      using c by (simp add: transportConnected_def g_def Let_def comp_def)
    then show ?thesis using assms(1) g c(3) restart_eq [of "onConn g s" E now] by (simp add: Let_def split: if_splits)
  qed
  then show ?thesis
  proof (rule beginPolling_resumes)
    have "(g (conn_of s))\<lparr>cc_favoritesActive := cc_favoritesActive (conn_of s)\<rparr> = g (conn_of s)"
      unfolding g(4) [of "conn_of s", symmetric] by simp
    then show "polledTargets ((conn_of (onConn g s))\<lparr>cc_favoritesActive := cc_favoritesActive (conn_of s)\<rparr>) = ts"
      using c(3) g(3) by simp
  qed (use c g False in simp_all)
qed

interpretation resumption: unattended_session "resuming ts" for ts
  by unfold_locales (auto simp: resuming_def loss_effect split: if_splits intro: transportConnected_resumes)

lemma startPolling_resumes:
  assumes "startPolling E now ty a q s = Some s1 \<or> startPollingFavorites E now True s = Some s1"
    and "sound {#} now (snd s)" and "\<not> m_running (poll_of s)"
    and "cc_state (conn_of s) = Connected" and "\<not> cc_resumePolling (conn_of s)"
  shows "\<exists>ts. polls ts now s1"
proof -
  define g where "g = (\<lambda>c :: 'a conn. c\<lparr>cc_pollRegisterType := ty, cc_pollStartAddress := a, cc_pollQuantity := q\<rparr>)"
  have g: "cc_state (g c) = cc_state c" "cc_resumePolling (g c) = cc_resumePolling c" for c
    by (simp_all add: g_def)
  from assms(1) show ?thesis
  proof
    assume "startPolling E now ty a q s = Some s1"
    then have "beginPolling E now [normalTarget (g (conn_of s))] False (onConn g s) = Some s1"
      by (simp add: startPolling_def g_def Let_def)
    from beginPolling_resumes [OF this] assms(2-5) g show ?thesis
      by (auto simp: polledTargets_def normalTarget_def)
  next
    assume "startPollingFavorites E now True s = Some s1"
    then have "beginPolling E now (buildPollTargets (word_of_int (cc_unitId (conn_of s))) (cc_favorites (conn_of s))) True s = Some s1"
      by (simp add: startPollingFavorites_def)
    from beginPolling_resumes [OF this assms(2-5)] show ?thesis by (auto simp: polledTargets_def)
  qed
qed

text \<open>C3: once polling is started on an established connection it survives everything that happens
  without the user: after any number of lost connections, refused and successful reconnects, transport
  errors, garbage, timeouts and timers, the engine still has exactly the targets it was started with,
  and it is either running on an established connection, or stopped on a lost one and marked to resume.\<close>

theorem polling_survives_losses:
  assumes "app_reachable N (now, s)" and "\<not> m_running (poll_of s)"
    and "cc_state (conn_of s) = Connected" and "\<not> cc_resumePolling (conn_of s)"
    and "startPolling E now ty a q s = Some s1 \<or> startPollingFavorites E now True s = Some s1"
    and "(event_step N)\<^sup>*\<^sup>* (now, s1) (now', s2)"
  shows "m_targets (poll_of s2) = m_targets (poll_of s1) \<and> m_targets (poll_of s2) = polledTargets (conn_of s2) \<and>
    (if m_running (poll_of s2) then cc_state (conn_of s2) = Connected
     else cc_state (conn_of s2) = ConnectionLost \<and> cc_resumePolling (conn_of s2))"
proof -
  have "sound {#} now (snd s)" using app_reachable_agrees [OF assms(1)] by (simp add: agrees_def)
  from startPolling_resumes [OF assms(5) this assms(2-4)] obtain ts where ts: "polls ts now s1" ..
  from resumption.events_agree [OF assms(6) ts] ts show ?thesis
    by (simp add: agrees_def resuming_def split: if_splits)
qed

end
