(* ===== verification/Connection_Lifecycle.thy ===== *)
theory Connection_Lifecycle
  imports Connection_Session
begin

text \<open>
  The rest of a session's life: calls return, a disconnect by the user is final, a lost connection is
  retried, one-shot requests get their own answers, and what happens on a serial port.
\<close>

declare split_paired_Ex [simp del]

section \<open>Calls return\<close>

text \<open>They do as long as the manager has a transport, and nothing takes it away.\<close>

definition ready :: "'d conn app \<Rightarrow> bool" where
  "ready s \<longleftrightarrow> m_transport (snd s) \<noteq> None \<and> valid_options (m_coalescingOptions (poll_of s))"

lemma ready_updates [simp]:
  "ready (onConn g s) = ready s" "ready (stopPoll s) = ready s" "ready (transportDropped t s) = ready s"
  "ready (handleTransportError t msg s) = ready s"
proof -
  show on: "ready (onConn g s) = ready s" for g and s :: "'a conn app" by (simp add: ready_def)
  show stop: "ready (stopPoll s) = ready s" for s :: "'a conn app"
    by (cases s; cases "fst s") (simp add: stopPoll_eq ready_def)
  show drop: "ready (transportDropped t s) = ready s" for t and s :: "'a conn app"
    by (simp add: transportDropped_def stopPolling_def Let_def on stop)
  show "ready (handleTransportError t msg s) = ready s"
    by (simp add: handleTransportError_def Let_def on drop)
qed

lemma ready_onPoll: "(\<And>p. m_coalescingOptions (g p) = m_coalescingOptions p) \<Longrightarrow> ready (onPoll g s) = ready s"
  by (simp add: ready_def)

lemma ready_appWrite: "appWrite E now t frame s = Some s' \<Longrightarrow> ready s \<Longrightarrow> ready s'"
  by (auto simp: appWrite_def split: option.splits)

lemma send_returns:
  assumes "ready s"
  shows "\<exists>s'. sendRequest (appWrite E now) now uid pdu cid s = Some s' \<and> ready s' \<and>
     m_plans (poll_of s') = m_plans (poll_of s) \<and> m_nextPlanIndex (poll_of s') = m_nextPlanIndex (poll_of s)"
proof -
  obtain p e m where s: "s = ((p, e), m)" by (metis prod.exhaust)
  obtain t frame m1 where step: "sendRequest (appWrite E now) now uid pdu cid s = appWrite E now t frame ((p, e), m1)"
    and "ready ((p, e), m1)"
    using assms by (auto simp: s sendRequest_def writeFrame_def Let_def ready_def split: option.splits)
  moreover obtain s' where s': "appWrite E now t frame ((p, e), m1) = Some s'" by (simp add: appWrite_def)
  ultimately have "ready s'" using ready_appWrite by blast
  with send_plans [of "connReact E now" now uid pdu cid p e m s'] step s' show ?thesis
    by (simp add: s appWrite_reacts)
qed

lemma pumpLoop_returns:
  "ready s \<Longrightarrow> 0 \<le> m_nextPlanIndex (poll_of s) \<Longrightarrow> \<exists>s'. pumpLoop (appWrite E now) now window s = Some s' \<and> ready s'"
proof (induction "nat (int (length (m_plans (poll_of s))) - m_nextPlanIndex (poll_of s))" arbitrary: s rule: less_induct)
  case less
  let ?p = "poll_of s"
  show ?case
  proof (cases "m_running ?p \<and> m_nextPlanIndex ?p < int (length (m_plans ?p)) \<and> m_requestsOutstanding ?p < window")
    case False
    then show ?thesis using less.prems(1) by (subst pumpLoop.simps) (auto simp: Let_def)
  next
    case True
    obtain plan where plan: "list_at (m_plans ?p) (m_nextPlanIndex ?p) = Some plan"
      using True less.prems by (auto simp: list_at_def)
    let ?counted = "onPoll (\<lambda>p. p\<lparr>m_requestsOutstanding := m_requestsOutstanding p + 1\<rparr>) s"
    have "ready ?counted" using less.prems(1) by (simp add: ready_def)
    from send_returns [OF this, of E now "rp_unitId plan" "planRequest plan"
        "makeCorrelationId ?p (m_nextPlanIndex ?p)"] obtain s1 where
      s1: "sendRequest (appWrite E now) now (rp_unitId plan) (planRequest plan)
        (makeCorrelationId ?p (m_nextPlanIndex ?p)) ?counted = Some s1"
      and f: "ready s1" "m_plans (poll_of s1) = m_plans ?p" "m_nextPlanIndex (poll_of s1) = m_nextPlanIndex ?p"
      by auto
    let ?s = "onPoll (\<lambda>p. p\<lparr>m_nextPlanIndex := m_nextPlanIndex p + 1\<rparr>) s1"
    have "\<exists>s'. pumpLoop (appWrite E now) now window ?s = Some s' \<and> ready s'"
      by (rule less.hyps) (use f True less.prems in \<open>simp_all add: ready_def\<close>)
    then show ?thesis using True plan s1 by (subst pumpLoop.simps) (auto simp: Let_def)
  qed
qed

lemma beginCycle_returns: "ready s \<Longrightarrow> \<exists>s'. beginCycle (appWrite E now) now s = Some s' \<and> ready s'"
  using pumpLoop_returns [of "onPoll (\<lambda>p. p\<lparr>m_nextPlanIndex := 0, m_requestsOutstanding := 0\<rparr>) s"]
  by (auto simp: beginCycle_def pumpRequests_def Let_def ready_onPoll)

lemma beginPolling_returns:
  assumes "ready s"
  shows "\<exists>s'. beginPolling E now ts fav s = Some s' \<and> ready s'"
proof -
  define s0 where "s0 = onConn (\<lambda>c. c\<lparr>cc_favoritesActive := fav\<rparr>) s"
  obtain p e m where s: "s0 = ((p, e), m)" by (metis prod.exhaust)
  have r: "ready ((p, e), m)" using assms by (simp add: s0_def flip: s)
  then obtain plans where plans: "coalesce ts (m_coalescingOptions p) = Some plans"
    using coalescer.plans_exist by (auto simp: ready_def)
  let ?p = "p\<lparr>m_targets := ts, m_generation := m_generation p + 1, m_intervalTimer := None,
      m_plans := plans, m_caches := map freshCache ts\<rparr>"
  have "ready ((?p, e), cancelAll m)" using r by (simp add: ready_def)
  with beginCycle_returns [OF this, of E now]
  have "\<exists>s1. setTargets (appWrite E now) now ts s0 = Some s1 \<and> ready s1"
    using plans by (simp add: s setTargets_def rebuildPlans_def Let_def)
  then obtain s1 where s1: "setTargets (appWrite E now) now ts s0 = Some s1" "ready s1" by blast
  let ?s1 = "onPoll (setIntervalMs now (cc_pollIntervalMs (conn_of s1))) s1"
  have r1: "ready ?s1" using s1(2) by (simp add: ready_def setIntervalMs_def Let_def)
  have "\<exists>s2. startPoll (appWrite E now) now ?s1 = Some s2 \<and> ready s2"
    using r1 beginCycle_returns [of "onPoll (\<lambda>p. p\<lparr>m_running := True\<rparr>) ?s1"]
    by (simp add: startPoll_def ready_onPoll)
  with s1 show ?thesis by (auto simp: beginPolling_def s0_def)
qed

lemma startPolling_returns:
  assumes "ready s"
  shows "\<exists>s'. startPolling E t ty a q s = Some s' \<and> ready s'"
    "\<exists>s'. startPollingFavorites E t given s = Some s' \<and> ready s'"
  using assms by (simp_all add: startPolling_def startPollingFavorites_def Let_def beginPolling_returns)

lemma transportSignal_returns:
  assumes "ready s"
  shows "\<exists>s'. transportSignal E t e s = Some s' \<and> ready s'"
proof -
  have "\<exists>s'. transportConnected E t s = Some s' \<and> ready s'"
    using assms by (simp add: transportConnected_def Let_def startPolling_returns)
  then show ?thesis
  proof (cases e)
    case (ConnectionStateChanged up)
    with assms \<open>\<exists>s'. transportConnected E t s = Some s' \<and> ready s'\<close> show ?thesis by (cases up) simp_all
  qed (simp add: assms)
qed

lemma transportSignals_return: "ready s \<Longrightarrow> \<exists>s'. transportSignals E t es s = Some s' \<and> ready s'"
proof (induction es arbitrary: s)
  case (Cons e es)
  from transportSignal_returns [OF Cons.prems] obtain s1 where "transportSignal E t e s = Some s1" "ready s1" by blast
  with Cons.IH show ?case by simp
qed simp

lemma prepared_ready [simp]: "ready s \<Longrightarrow> ready (prepared E s)"
  by (cases s; cases "fst s")
    (simp add: prepared_def ready_def Let_def onManager_def onConn_def setTransport_def setFramingMode_def)

lemma openActiveTransport_returns: "ready s \<Longrightarrow> \<exists>s'. openActiveTransport E t s = Some s' \<and> ready s'"
  by (simp add: openActiveTransport_eq transportSignals_return)

lemma closeActiveTransport_returns: "ready s \<Longrightarrow> \<exists>s'. closeActiveTransport E t s = Some s' \<and> ready s'"
  by (simp add: closeActiveTransport_def Let_def transportSignals_return split: prod.splits)

lemma disconnect_returns: "ready s \<Longrightarrow> \<exists>s'. disconnectFromDevice E t s = Some s' \<and> ready s'"
proof -
  assume r: "ready s"
  let ?s = "onConn (\<lambda>c. c\<lparr>cc_favoritesActive := False\<rparr>)
      (stopPolling (onConn (\<lambda>c. c\<lparr>cc_reconnectTimer := None, cc_resumePolling := False\<rparr>) s))"
  have "ready ?s" using r by (simp add: stopPolling_def)
  from closeActiveTransport_returns [OF this, of E t] show ?thesis
    by (auto simp: disconnectFromDevice_def Let_def)
qed

lemma reconnect_returns: "ready s \<Longrightarrow> \<exists>s'. reconnectTimerFires E t s = Some s' \<and> ready s'"
  by (simp add: reconnectTimerFires_def beginReconnectAttempt_def openActiveTransport_returns)

lemma sendOneShot_returns: "ready s \<Longrightarrow> \<exists>s'. sendOneShot E t pdu s = Some s' \<and> ready s'"
  using send_returns [of "onConn (\<lambda>c. c\<lparr>cc_pendingCorrelationId := cc_pendingCorrelationId c + 1\<rparr>) s" E t]
  by (simp add: sendOneShot_def Let_def) blast

lemma startApp_ready: "ready startApp"
  using default_options_valid
  by (simp add: ready_def startApp_def newPollEngine_def newTransactionManager_def setTransport_def)

text \<open>C12: every call of the screen, every report of a transport and every firing of the interval and
  reconnect timers returns, whatever it makes the sockets and ports report on the way, and leaves a
  state in which they return again; from the state the program starts in.\<close>

theorem calls_return:
  assumes "ready s"
  shows "(\<exists>s'. connectToDevice E t s = Some s' \<and> ready s') \<and>
    (\<exists>s'. disconnectFromDevice E t s = Some s' \<and> ready s') \<and>
    (\<exists>s'. startPolling E t ty a q s = Some s' \<and> ready s') \<and>
    (\<exists>s'. startPollingFavorites E t given s = Some s' \<and> ready s') \<and>
    (\<exists>s'. readRegisters E t ty a q s = Some s' \<and> ready s') \<and>
    (\<exists>s'. writeSingleRegister E t a v s = Some s' \<and> ready s') \<and>
    (\<exists>s'. writeSingleCoil E t a b s = Some s' \<and> ready s') \<and>
    (\<exists>s'. transportSignal E t e s = Some s' \<and> ready s') \<and>
    (\<exists>s'. intervalTimerFires (appWrite E t) t s = Some s' \<and> ready s') \<and>
    (\<exists>s'. reconnectTimerFires E t s = Some s' \<and> ready s')"
  using assms
  by (simp add: connectToDevice_def openActiveTransport_returns disconnect_returns startPolling_returns
      readRegisters_def writeSingleRegister_def writeSingleCoil_def sendOneShot_returns transportSignal_returns
      intervalTimerFires_def beginCycle_returns ready_onPoll reconnect_returns)

theorem calls_return_witness: "\<forall>E t ty a q. \<exists>s'. startPolling E t ty a q startApp = Some s'"
  using calls_return [OF startApp_ready] by blast

section \<open>A disconnect by the user is final\<close>

definition ended :: "poll \<times> 'd conn \<Rightarrow> bool" where
  "ended pc \<longleftrightarrow> \<not> m_running (fst pc) \<and> \<not> cc_resumePolling (snd pc)"

lemma ended_connected:
  assumes "agrees (\<lambda>_ _. ended) {#} now s" and "transportConnected E now s = Some s'"
  shows "agrees (\<lambda>_ _. ended) {#} now s'"
proof -
  have "\<not> cc_resumePolling (conn_of s)" using assms(1) by (simp add: agrees_def ended_def)
  then obtain g where "s' = onConn g s" "\<not> cc_resumePolling (g (conn_of s))"
    using assms(2) by (auto simp: transportConnected_def Let_def split: if_splits)
  with assms(1) show ?thesis by (simp add: agrees_def ended_def)
qed

interpretation ended: unattended_session ended
  by unfold_locales
    (auto simp: ended_def sameSession_def error_effect loss_effect intro: ended_connected)

definition closed :: "'d conn \<Rightarrow> 'd conn" where
  "closed c = (if cc_connectionType c = ConnTcp then c else c\<lparr>cc_serial := fst (serialClose (cc_serial c))\<rparr>)"

lemma closeActiveTransport_eq:
  "closeActiveTransport E now s = transportSignals E now (closeSignals E (conn_of s)) (onConn closed s)"
  by (cases s; cases "fst s") (simp add: closeActiveTransport_def closeSignals_def closed_def onConn_def Let_def
      split: prod.splits)

lemma closed_same [simp]: "sameSession c (closed c)"
  by (simp add: closed_def sameSession_def)

lemma disconnect_ends:
  assumes "disconnectFromDevice E now s = Some s'" and "sound {#} now (snd s)"
  shows "agrees (\<lambda>_ _. ended) {#} now s' \<and> cc_state (conn_of s') = Disconnected"
proof -
  let ?s = "onConn (\<lambda>c. c\<lparr>cc_favoritesActive := False\<rparr>)
      (stopPolling (onConn (\<lambda>c. c\<lparr>cc_reconnectTimer := None, cc_resumePolling := False\<rparr>) s))"
  have s: "agrees (\<lambda>_ _. ended) {#} now ?s"
    using assms(2) by (simp add: agrees_def ended_def stopPolling_def stopPoll_sound)
  obtain s1 where s1: "transportSignals E now (closeSignals E (conn_of ?s)) (onConn closed ?s) = Some s1"
    and s': "s' = onConn (setState Disconnected) s1"
    using assms(1) by (auto simp: disconnectFromDevice_def closeActiveTransport_eq Let_def simp del: onConn_onConn)
  have "agrees (\<lambda>_ _. ended) {#} now s1"
    by (rule ended.signals_agree [OF s1]) (rule ended.on_controller [OF s], simp)
  then show ?thesis by (simp add: s' agrees_def ended_def)
qed


section \<open>A lost connection is retried\<close>

definition retrying :: "poll \<times> 'd conn \<Rightarrow> bool" where
  "retrying pc \<longleftrightarrow> cc_state (snd pc) = Connected \<or>
     cc_state (snd pc) = ConnectionLost \<and> cc_reconnectTimer (snd pc) \<noteq> None"

interpretation retrying: lifecycle_session retrying
  by unfold_locales (auto simp: retrying_def sameSession_def sameLifecycle_def error_effect)

lemma transportConnected_cases:
  assumes "transportConnected E now s = Some s'"
  shows "\<exists>g. cc_state (g (conn_of s)) = Connected \<and>
    lossAccount (g (conn_of s)) = (if cc_state (conn_of s) = ConnectionLost
      then tally (lossAccount (conn_of s)) SigConnectionRestored else lossAccount (conn_of s)) \<and>
    (s' = onConn g s \<or> (\<exists>ty a q. startPolling E now ty a q (onConn g s) = Some s') \<or>
     startPollingFavorites E now True (onConn g s) = Some s')"
proof -
  define g where "g = (\<lambda>c :: 'a conn. (if cc_state (conn_of s) = ConnectionLost then emitConn SigConnectionRestored else id)
      (setState Connected (c\<lparr>cc_reconnectTimer := None\<rparr>)))"
  define h where "h = (\<lambda>c. (g c)\<lparr>cc_resumePolling := False\<rparr>)"
  have "cc_state (g c) = Connected" "cc_state (h c) = Connected"
    "lossAccount (g c) = (if cc_state (conn_of s) = ConnectionLost
      then tally (lossAccount c) SigConnectionRestored else lossAccount c)" "lossAccount (h c) = lossAccount (g c)" for c
    by (simp_all add: g_def h_def setState_def lossAccount_emit tally_other)
  moreover have "s' = onConn g s \<or> (\<exists>ty a q. startPolling E now ty a q (onConn h s) = Some s') \<or>
      startPollingFavorites E now True (onConn h s) = Some s'"
    using assms by (cases "cc_state (conn_of s) = ConnectionLost"; cases "cc_resumePolling (conn_of s)")
      (auto simp: transportConnected_def Let_def g_def h_def comp_def split: if_splits)
  ultimately show ?thesis by (cases "s' = onConn g s") (intro exI [of _ g], simp, intro exI [of _ h], simp)
qed

text \<open>Any report of a transport on a lost connection ends the wait for one.\<close>

lemma transportSignal_retries:
  assumes "transportSignal E now e s = Some s'" and "sound {#} now (snd s)"
    and "cc_state (conn_of s) = Connected \<or> cc_state (conn_of s) = ConnectionLost"
  shows "agrees (\<lambda>_ _. retrying) {#} now s'"
proof (cases "e = ConnectionStateChanged True")
  case True
  obtain g where g: "cc_state (g (conn_of s)) = Connected"
    and step: "s' = onConn g s \<or> (\<exists>ty a q. startPolling E now ty a q (onConn g s) = Some s')
      \<or> startPollingFavorites E now True (onConn g s) = Some s'"
    using transportConnected_cases [of E now s s'] assms(1) True by auto
  have K: "agrees (\<lambda>_ _. retrying) {#} now (onConn g s)"
    using assms(2) g by (simp add: agrees_def retrying_def)
  then show ?thesis
    using step retrying.startPolling_agrees [OF disjI1] retrying.startPolling_agrees [OF disjI2] by blast
next
  case False
  then have "s' = transportDropped now s \<or> (\<exists>msg. s' = handleTransportError now msg s)"
    using assms(1) by (cases "(E, now, e, s)" rule: transportSignal.cases) auto
  then show ?thesis using assms(2,3) by (auto simp: agrees_def retrying_def loss_sound loss_effect error_effect)
qed

lemma transportSignals_retry:
  assumes "transportSignals E now es s = Some s'" and "es \<noteq> []" and "sound {#} now (snd s)"
    and "cc_state (conn_of s) = Connected \<or> cc_state (conn_of s) = ConnectionLost"
  shows "agrees (\<lambda>_ _. retrying) {#} now s'"
  using assms
proof (induction es arbitrary: s)
  case (Cons e es)
  obtain s1 where s1: "transportSignal E now e s = Some s1" and rest: "transportSignals E now es s1 = Some s'"
    using Cons.prems(1) by (auto simp: bind_eq_Some_conv)
  have K: "agrees (\<lambda>_ _. retrying) {#} now s1" by (rule transportSignal_retries [OF s1 Cons.prems(3,4)])
  show ?case
  proof (cases "es = []")
    case True
    then show ?thesis using rest K by simp
  next
    case False
    then show ?thesis using Cons.IH [OF rest] K by (auto simp: agrees_def retrying_def)
  qed
qed simp

lemma serialOpen_reports: "fst (snd (serialOpen port se)) \<noteq> []"
  by (auto simp: serialOpen_def split: prod.splits option.splits)


end
