(* ===== verification/Connection_Reports.thy ===== *)
theory Connection_Reports
  imports Connection_Lifecycle
begin

text \<open>
  What the controller reports of its connection: in every run of the application, calls of the user
  included, each reported reconnect answers a reported loss.
\<close>

declare split_paired_Ex [simp del]

section \<open>Losses and reconnects are accounted for\<close>

definition accounted :: "poll \<times> 'd conn \<Rightarrow> bool" where
  "accounted pc \<longleftrightarrow> (\<exists>lost. lossAccount (snd pc) = Some lost \<and> (cc_state (snd pc) = ConnectionLost \<longrightarrow> lost))"

interpretation accounted: lifecycle_session accounted
  by unfold_locales
    (auto simp: accounted_def sameSession_def sameLifecycle_def error_effect split: if_splits)

lemma transportConnected_accounted:
  assumes "transportConnected E now s = Some s'" and "agrees (\<lambda>_ _. accounted) {#} now s"
  shows "agrees (\<lambda>_ _. accounted) {#} now s'"
proof -
  obtain g where g: "cc_state (g (conn_of s)) = Connected"
      "lossAccount (g (conn_of s)) = (if cc_state (conn_of s) = ConnectionLost
        then tally (lossAccount (conn_of s)) SigConnectionRestored else lossAccount (conn_of s))"
    and step: "s' = onConn g s \<or> (\<exists>ty a q. startPolling E now ty a q (onConn g s) = Some s') \<or>
      startPollingFavorites E now True (onConn g s) = Some s'"
    using transportConnected_cases [OF assms(1)] by blast
  have "agrees (\<lambda>_ _. accounted) {#} now (onConn g s)"
    using assms(2) g by (auto simp: agrees_def accounted_def)
  then show ?thesis
    using step accounted.startPolling_agrees [OF disjI1] accounted.startPolling_agrees [OF disjI2] by blast
qed

interpretation accounting: unattended_session accounted
  by unfold_locales
    (auto simp: accounted_def loss_effect intro: transportConnected_accounted split: if_splits)

section \<open>Every step of the application\<close>

lemma settings_lifecycle: "setting_step N c c' \<Longrightarrow> sameLifecycle c c'"
  by (cases rule: setting_step.cases)
    (auto simp: sameLifecycle_def setHost_def setPort_def setUnitId_def setConnTimeoutMs_def setConnRetryCount_def
      setReconnectIntervalMs_def setConnectionType_def setPortName_def setBaudRate_def setDataBits_def
      setParity_def setStopBits_def emitConn_def lossAccount_def tally_other Let_def)


lemma one_shot_lifecycle:
  assumes "readRegisters E now ty a q s = Some s' \<or> writeSingleRegister E now a v s = Some s' \<or>
      writeSingleCoil E now a b s = Some s'"
  shows "\<exists>g pdu. sendOneShot E now pdu (onConn g s) = Some s' \<and> sameLifecycle (conn_of s) (g (conn_of s))"
  using assms unfolding readRegisters_def writeSingleRegister_def writeSingleCoil_def
  by (-, elim disjE) (intro exI conjI, assumption, simp add: sameLifecycle_def lossAccount_def)+

lemma sendOneShot_accounted:
  assumes "sendOneShot E now pdu s = Some s'" and "agrees (\<lambda>_ _. accounted) {#} now s"
  shows "agrees (\<lambda>_ _. accounted) {#} now s'"
proof -
  let ?s = "onConn (\<lambda>c. c\<lparr>cc_pendingCorrelationId := cc_pendingCorrelationId c + 1\<rparr>) s"
  have "agrees (\<lambda>_ _. accounted) {#} now ?s"
    by (rule accounted.free_controller [OF assms(2)]) (simp add: sameLifecycle_def lossAccount_def)
  with assms(1) show ?thesis unfolding sendOneShot_def Let_def by (rule accounted.send_agrees)
qed

text \<open>What the user does to the lifecycle: any state but a lost connection, reported as a change of state.\<close>

lemma setState_accounted:
  assumes "agrees (\<lambda>_ _. accounted) {#} now s" and "st \<noteq> ConnectionLost"
    and "lossAccount (g (conn_of s)) = lossAccount (conn_of s)"
  shows "agrees (\<lambda>_ _. accounted) {#} now (onConn (\<lambda>c. setState st (g c)) s)"
  using assms by (auto simp: agrees_def accounted_def setState_def lossAccount_emit tally_other)

lemma stopPolling_accounted:
  "agrees (\<lambda>_ _. accounted) {#} now s \<Longrightarrow> agrees (\<lambda>_ _. accounted) {#} now (stopPolling s)"
  by (auto simp: stopPolling_def agrees_def accounted_def stopPoll_sound lossAccount_emit tally_other)

lemma disconnect_accounted:
  assumes "disconnectFromDevice E now s = Some s'" and ag: "agrees (\<lambda>_ _. accounted) {#} now s"
  shows "agrees (\<lambda>_ _. accounted) {#} now s'"
proof -
  let ?s = "onConn (\<lambda>c. c\<lparr>cc_favoritesActive := False\<rparr>)
      (stopPolling (onConn (\<lambda>c. c\<lparr>cc_reconnectTimer := None, cc_resumePolling := False\<rparr>) s))"
  obtain s1 where s1: "transportSignals E now (closeSignals E (conn_of ?s)) (onConn closed ?s) = Some s1"
    and s': "s' = onConn (setState Disconnected) s1"
    using assms(1) by (auto simp: disconnectFromDevice_def closeActiveTransport_eq Let_def simp del: onConn_onConn)
  have "agrees (\<lambda>_ _. accounted) {#} now (onConn (\<lambda>c. c\<lparr>cc_reconnectTimer := None, cc_resumePolling := False\<rparr>) s)"
    using ag by (auto simp: agrees_def accounted_def)
  from stopPolling_accounted [OF this] have "agrees (\<lambda>_ _. accounted) {#} now ?s"
    by (rule accounted.free_controller) (simp add: sameLifecycle_def)
  then have "agrees (\<lambda>_ _. accounted) {#} now (onConn closed ?s)" by (rule accounted.on_controller) simp
  with s1 have "agrees (\<lambda>_ _. accounted) {#} now s1" by (rule accounting.signals_agree)
  then show ?thesis unfolding s' by (rule setState_accounted [where g = "\<lambda>c. c"]) simp_all
qed

lemma app_step_accounted:
  assumes "app_step N (now, s) (now', s')" and ag: "agrees (\<lambda>_ _. accounted) {#} now s"
  shows "agrees (\<lambda>_ _. accounted) {#} now' s'"
  using assms(1)
proof cases
  case event
  then show ?thesis using accounting.event_agrees ag by blast
next
  case (setting c)
  then show ?thesis using accounted.free_controller [OF ag, of "\<lambda>_. c"] settings_lifecycle by blast
next
  case (poll_interval ms)
  let ?s = "onPoll (setIntervalMs now ms) (onConn (\<lambda>c. c\<lparr>cc_pollIntervalMs := ms\<rparr>) s)"
  have "agrees (\<lambda>_ _. accounted) {#} now ?s"
    by (intro accounted.free_engine accounted.free_controller [OF ag]) (simp add: sameLifecycle_def lossAccount_def)
  then have "agrees (\<lambda>_ _. accounted) {#} now (onConn (emitConn (SettingChanged ''pollIntervalMs'')) ?s)"
    by (rule accounted.free_controller) (simp add: sameLifecycle_def lossAccount_emit tally_other)
  then show ?thesis using poll_interval ag by (simp add: setPollIntervalMs_def)
next
  case (connect E)
  let ?s = "onConn (\<lambda>c. setState Connecting (c\<lparr>cc_resumePolling := False\<rparr>)) s"
  have "agrees (\<lambda>_ _. accounted) {#} now ?s" by (rule setState_accounted [OF ag]) simp_all
  then have "agrees (\<lambda>_ _. accounted) {#} now (prepared E ?s)" by (rule accounting.prepared_agrees)
  moreover from connect have "transportSignals E now (openSignals E (conn_of ?s)) (prepared E ?s) = Some s'"
    by (simp add: connectToDevice_def openActiveTransport_eq del: onConn_onConn)
  ultimately show ?thesis using connect(1) by (blast intro: accounting.signals_agree)
next
  case (disconnect E)
  then show ?thesis using disconnect_accounted ag by blast
next
  case (start E ty a q)
  then show ?thesis using accounted.startPolling_agrees [OF disjI1] ag by blast
next
  case (favorites E given)
  then show ?thesis using accounted.startPolling_agrees [OF disjI2] ag by blast
next
  case stop
  then show ?thesis using stopPolling_accounted ag by blast
next
  case (one_shot E ty a q v b)
  from one_shot_lifecycle [OF one_shot(3)] obtain g pdu where
    g: "sendOneShot E now pdu (onConn g s) = Some s'" "sameLifecycle (conn_of s) (g (conn_of s))" by blast
  from sendOneShot_accounted [OF g(1) accounted.free_controller [where g = g, OF ag g(2)]] one_shot(1) show ?thesis by simp
qed

lemma reachable_accounted:
  assumes "app_reachable N (now, s)"
  shows "accounted (fst s)"
proof -
  obtain start where run: "(app_step N)\<^sup>*\<^sup>* (start, startApp) (now, s)"
    using assms by (auto simp: app_reachable_def)
  have "agrees (\<lambda>_ _. accounted) {#} (fst y) (snd y)" if "(app_step N)\<^sup>*\<^sup>* (start, startApp) y" for y
    using that
  proof (induction rule: rtranclp_induct)
    case base
    have "sound {#} start (snd startApp)" using startApp_agrees [of start] unfolding agrees_def by blast
    moreover have "accounted (fst startApp)"
      unfolding accounted_def by (auto simp: startApp_def newConnection_def lossAccount_def)
    ultimately show ?case by (simp add: agrees_def)
  next
    case (step y z)
    then show ?case using app_step_accounted [of N "fst y" "snd y" "fst z" "snd z"] by simp
  qed
  from this [OF run] show ?thesis by (simp add: agrees_def)
qed

section \<open>What the account says of the reports\<close>

lemma tally_stuck [simp]: "foldl tally None es = None"
  by (induction es) simp_all

lemma open_loss:
  "foldl tally (Some False) es = Some True \<Longrightarrow>
   \<exists>us vs. es = us @ SigConnectionLost # vs \<and> SigConnectionRestored \<notin> set vs"
proof (induction es rule: rev_induct)
  case (snoc e es)
  show ?case
  proof (cases "otherSignal e")
    case True
    with snoc obtain us vs where "es = us @ SigConnectionLost # vs" "SigConnectionRestored \<notin> set vs"
      by (auto simp: tally_other)
    with True show ?thesis by (intro exI [of _ us] exI [of _ "vs @ [e]"]) auto
  next
    case False
    with snoc.prems have "e = SigConnectionLost"
      by (cases "foldl tally (Some False) es"; cases e) (auto split: if_splits)
    then show ?thesis by (intro exI [of _ es] exI [of _ "[]"]) simp
  qed
qed simp

lemma account_lines:
  "foldl tally (Some False) es = Some lost \<Longrightarrow> CommunicationLogged direction line \<in> set es \<Longrightarrow> direction = 2"
proof (induction es arbitrary: lost rule: rev_induct)
  case (snoc e es)
  then obtain l where "foldl tally (Some False) es = Some l" "tally (Some l) e = Some lost"
    by (cases "foldl tally (Some False) es") auto
  with snoc show ?case by (auto split: if_splits)
qed simp

lemma account_counts:
  "foldl tally (Some False) es = Some lost \<Longrightarrow>
   length (filter ((=) SigConnectionRestored) es) + (if lost then 1 else 0) \<le> length (filter ((=) SigConnectionLost) es)"
proof (induction es arbitrary: lost rule: rev_induct)
  case (snoc e es)
  then obtain l where l: "foldl tally (Some False) es = Some l" "tally (Some l) e = Some lost"
    by (cases "foldl tally (Some False) es") auto
  from snoc.IH [OF l(1)] l(2) show ?case by (cases e) (auto split: if_splits)
qed simp

text \<open>C15: whatever happens and whatever the user does, the controller's reports make sense: every reconnect
  it reports answers a loss it reported before and that no other reconnect answered, a connection that is
  lost has been reported as lost, and so the log of a session never counts more reconnects than losses.\<close>

theorem reconnects_follow_losses:
  assumes "app_reachable N (now, s)"
  shows "(\<forall>xs ys. cc_signals (conn_of s) = xs @ SigConnectionRestored # ys \<longrightarrow>
      (\<exists>us vs. xs = us @ SigConnectionLost # vs \<and> SigConnectionRestored \<notin> set vs)) \<and>
    (cc_state (conn_of s) = ConnectionLost \<longrightarrow>
      (\<exists>us vs. cc_signals (conn_of s) = us @ SigConnectionLost # vs \<and> SigConnectionRestored \<notin> set vs)) \<and>
    length (filter ((=) SigConnectionRestored) (cc_signals (conn_of s))) \<le>
      length (filter ((=) SigConnectionLost) (cc_signals (conn_of s)))"
proof -
  obtain lost where l: "foldl tally (Some False) (cc_signals (conn_of s)) = Some lost"
    "cc_state (conn_of s) = ConnectionLost \<longrightarrow> lost"
    using reachable_accounted [OF assms] by (auto simp: accounted_def lossAccount_def)
  have "foldl tally (Some False) xs = Some True"
    if "cc_signals (conn_of s) = xs @ SigConnectionRestored # ys" for xs ys
    using l(1) unfolding that by (cases "foldl tally (Some False) xs") (auto split: if_splits)
  with open_loss l account_counts [OF l(1)] show ?thesis by fastforce
qed

end
