(* ===== verification/Register_Table.thy ===== *)
theory Register_Table
  imports Value_Formatter
begin

text \<open>
  \<open>app-lib/models/RegisterTableModel\<close>: the table of the Normal view. One row per register or bit,
  except that a row with a 32-bit format takes two registers.

  \<^item> The model's members are the record \<open>table\<close>; \<open>tb_signals\<close> is the log of what it emits, model resets
    and \<open>dataChanged\<close> (first row, last row, roles) included.
  \<^item> \<open>RegisterType\<close> and \<open>AddressConvention\<close> of the model are the ones of the core, entry by entry.
  \<^item> \<open>None\<close> is a read outside a list (\<open>QList::at\<close>), which stops the program.
\<close>

section \<open>State\<close>

datatype TableRole = AddressRole | ValueRole | IsBitRole | BoolValueRole | WritableRole

datatype TableSignal =
    ModelReset | DataChanged nat nat "TableRole list" | WriteRequested int int
  | CoilWriteRequested int bool | StaleChanged | AddressConventionChanged | RegisterTypeChanged

record 'd LogicalRow =
  lr_address :: int
  lr_span :: nat
  lr_settings :: "'d FormatSettings"

record 'd table =
  tb_startAddress :: int
  tb_rawValues :: "u16 list"
  tb_bitValues :: "bool list"
  tb_formats :: "int \<rightharpoonup> 'd FormatSettings"
  tb_addressConvention :: AddressConvention
  tb_registerType :: RegisterType
  tb_stale :: bool
  tb_logicalRows :: "'d LogicalRow list"
  tb_rawIndexToRowIndex :: "nat list"
  tb_signals :: "TableSignal list"

definition newTable :: "'d table" where
  "newTable = \<lparr>tb_startAddress = 0, tb_rawValues = [], tb_bitValues = [], tb_formats = Map.empty,
     tb_addressConvention = Pdu, tb_registerType = HoldingRegister, tb_stale = False,
     tb_logicalRows = [], tb_rawIndexToRowIndex = [], tb_signals = []\<rparr>"

definition emitTable :: "TableSignal \<Rightarrow> 'd table \<Rightarrow> 'd table" where
  "emitTable e t = t\<lparr>tb_signals := tb_signals t @ [e]\<rparr>"

abbreviation tableIsBits :: "'d table \<Rightarrow> bool" where
  "tableIsBits t \<equiv> isBitRegisterType (tb_registerType t)"

section \<open>Logical rows\<close>

definition requestedFormat :: "'d numerics \<Rightarrow> 'd table \<Rightarrow> int \<Rightarrow> 'd FormatSettings" where
  "requestedFormat N t address =
     (case tb_formats t address of None \<Rightarrow> defaultFormat N | Some f \<Rightarrow> f)"

text \<open>The row that starts at register \<open>i\<close> of \<open>n\<close>: a pair format that does not fit degrades to one register
  in the default format.\<close>

definition logicalRowAt :: "'d numerics \<Rightarrow> 'd table \<Rightarrow> nat \<Rightarrow> nat \<Rightarrow> 'd LogicalRow" where
  "logicalRowAt N t n i =
     (let address = tb_startAddress t + int i;
          requested = requestedFormat N t address;
          neededSpan = registerSpanFor (fs_format requested);
          canFit = (i + neededSpan \<le> n)
      in \<lparr>lr_address = address,
          lr_span = (if canFit then neededSpan else 1),
          lr_settings = (if canFit then requested else defaultFormat N)\<rparr>)"

lemma registerSpanFor_pos [simp]: "0 < registerSpanFor f"
  by (cases f) simp_all

lemma logicalRowAt_span_pos [simp]: "0 < lr_span (logicalRowAt N t n i)"
  by (simp add: logicalRowAt_def Let_def)

definition markRawIndices :: "nat \<Rightarrow> nat \<Rightarrow> nat \<Rightarrow> nat list \<Rightarrow> nat list" where
  "markRawIndices i span rowIndex idx = foldl (\<lambda>idx k. idx[i + k := rowIndex]) idx [0..<span]"

function wordRows ::
    "'d numerics \<Rightarrow> 'd table \<Rightarrow> nat \<Rightarrow> nat \<Rightarrow> 'd LogicalRow list \<Rightarrow> nat list \<Rightarrow> 'd LogicalRow list \<times> nat list" where
  "wordRows N t n i rows idx =
     (if i < n then
        let row = logicalRowAt N t n i
        in wordRows N t n (i + lr_span row) (rows @ [row]) (markRawIndices i (lr_span row) (length rows) idx)
      else (rows, idx))"
  by pat_completeness auto
termination
  by (relation "measure (\<lambda>(N, t, n, i, rows, idx). n - i)") (auto intro: diff_less_mono2)

declare wordRows.simps [simp del]

definition bitRows :: "'d numerics \<Rightarrow> 'd table \<Rightarrow> 'd LogicalRow list" where
  "bitRows N t =
     map (\<lambda>i. \<lparr>lr_address = tb_startAddress t + int i, lr_span = 1, lr_settings = defaultFormat N\<rparr>)
       [0..<length (tb_bitValues t)]"

definition rebuildLogicalRows :: "'d numerics \<Rightarrow> 'd table \<Rightarrow> 'd table" where
  "rebuildLogicalRows N t =
     (if tableIsBits t then
        t\<lparr>tb_logicalRows := bitRows N t, tb_rawIndexToRowIndex := [0..<length (tb_bitValues t)]\<rparr>
      else
        let n = length (tb_rawValues t);
            (rows, idx) = wordRows N t n 0 [] (replicate n 0)
        in t\<lparr>tb_logicalRows := rows, tb_rawIndexToRowIndex := idx\<rparr>)"

definition rawRegistersFor :: "'d table \<Rightarrow> 'd LogicalRow \<Rightarrow> u16 list" where
  "rawRegistersFor t row =
     qmid (tb_rawValues t) (nat (lr_address row - tb_startAddress t)) (int (lr_span row))"

section \<open>Queries\<close>

text \<open>\<open>QList::value(i)\<close>: \<open>false\<close> outside the list.\<close>

definition bitAt :: "bool list \<Rightarrow> int \<Rightarrow> bool" where
  "bitAt bits i = (case list_at bits i of None \<Rightarrow> False | Some b \<Rightarrow> b)"

datatype cell = NoData | CellText string | CellBool bool

definition tableData :: "'d numerics \<Rightarrow> 'd table \<Rightarrow> nat \<Rightarrow> TableRole \<Rightarrow> cell option" where
  "tableData N t r role =
     (if length (tb_logicalRows t) \<le> r then Some NoData
      else let row = tb_logicalRows t ! r;
               shown = (\<lambda>a. displayAddress (tb_registerType t) a (tb_addressConvention t));
               bit = bitAt (tb_bitValues t) (lr_address row - tb_startAddress t)
           in case role of
                AddressRole \<Rightarrow> Some (CellText
                  (if lr_span row = 1 then number (shown (lr_address row))
                   else number (shown (lr_address row)) @ ''-'' @
                        number (shown (lr_address row + int (lr_span row) - 1))))
              | ValueRole \<Rightarrow>
                  (if tableIsBits t then Some (CellText (if bit then ''ON'' else ''OFF''))
                   else map_option CellText (formatValue N (lr_settings row) (rawRegistersFor t row)))
              | IsBitRole \<Rightarrow> Some (CellBool (tableIsBits t))
              | BoolValueRole \<Rightarrow> Some (CellBool (tableIsBits t \<and> bit))
              | WritableRole \<Rightarrow> Some (CellBool (isWritableRegisterType (tb_registerType t))))"

definition formatSettingsAt :: "'d numerics \<Rightarrow> 'd table \<Rightarrow> int \<Rightarrow> 'd FormatSettings option" where
  "formatSettingsAt N t r =
     (if tableIsBits t then None
      else map_option (\<lambda>row. requestedFormat N t (lr_address row)) (list_at (tb_logicalRows t) r))"

definition tableMaxReadCount :: "'d table \<Rightarrow> int" where
  "tableMaxReadCount t = maxReadCountFor (tb_registerType t)"

section \<open>New values\<close>

text \<open>
  The loop that copies what changed into place: the list it leaves and the first and last position that
  changed (\<open>-1\<close> in the code is \<open>None\<close>).
\<close>

definition diffStep :: "'v list \<Rightarrow> 'v list \<times> (nat \<times> nat) option \<Rightarrow> nat \<Rightarrow> 'v list \<times> (nat \<times> nat) option" where
  "diffStep new = (\<lambda>(old, changed) i.
     if old ! i = new ! i then (old, changed)
     else (old[i := new ! i], case changed of None \<Rightarrow> Some (i, i) | Some (first, _) \<Rightarrow> Some (first, i)))"

definition diffValues :: "'v list \<Rightarrow> 'v list \<Rightarrow> 'v list \<times> (nat \<times> nat) option" where
  "diffValues old new = foldl (diffStep new) (old, None) [0..<length new]"

definition clearStale :: "'d table \<Rightarrow> 'd table" where
  "clearStale t = (if tb_stale t then emitTable StaleChanged (t\<lparr>tb_stale := False\<rparr>) else t)"

definition setRegisters :: "'d numerics \<Rightarrow> int \<Rightarrow> int list \<Rightarrow> 'd table \<Rightarrow> 'd table option" where
  "setRegisters N startAddress vals t0 =
     (let t = clearStale t0;
          newRaw = map word_of_int vals;
          sameRawShape = (tb_startAddress t = startAddress \<and> length (tb_rawValues t) = length newRaw)
      in if sameRawShape then
           let (raw, changed) = diffValues (tb_rawValues t) newRaw;
               t = t\<lparr>tb_rawValues := raw\<rparr>
           in case changed of
                None \<Rightarrow> Some t
              | Some (firstRaw, lastRaw) \<Rightarrow>
                  do { firstRow \<leftarrow> list_at (tb_rawIndexToRowIndex t) (int firstRaw);
                       lastRow \<leftarrow> list_at (tb_rawIndexToRowIndex t) (int lastRaw);
                       Some (emitTable (DataChanged firstRow lastRow [ValueRole]) t) }
         else Some (emitTable ModelReset
                (rebuildLogicalRows N (t\<lparr>tb_startAddress := startAddress, tb_rawValues := newRaw\<rparr>))))"

definition setBits :: "'d numerics \<Rightarrow> int \<Rightarrow> bool list \<Rightarrow> 'd table \<Rightarrow> 'd table" where
  "setBits N startAddress vals t0 =
     (let t = clearStale t0;
          sameShape = (tb_startAddress t = startAddress \<and> length (tb_bitValues t) = length vals)
      in if sameShape then
           let (bits, changed) = diffValues (tb_bitValues t) vals;
               t = t\<lparr>tb_bitValues := bits\<rparr>
           in case changed of
                None \<Rightarrow> t
              | Some (firstRow, lastRow) \<Rightarrow> emitTable (DataChanged firstRow lastRow [ValueRole, BoolValueRole]) t
         else emitTable ModelReset
                (rebuildLogicalRows N (t\<lparr>tb_startAddress := startAddress, tb_bitValues := vals\<rparr>)))"

section \<open>Edits\<close>

definition emitWrites :: "int \<Rightarrow> u16 list \<Rightarrow> 'd table \<Rightarrow> 'd table" where
  "emitWrites address raw t =
     foldl (\<lambda>t k. emitTable (WriteRequested (address + int k) (uint (raw ! k))) t) t [0..<length raw]"

definition setValueAt :: "'d numerics \<Rightarrow> int \<Rightarrow> string \<Rightarrow> 'd table \<Rightarrow> 'd table" where
  "setValueAt N r input t =
     (case list_at (tb_logicalRows t) r of
        None \<Rightarrow> t
      | Some row \<Rightarrow>
          if tableIsBits t then t
          else let (raw, ok) = parseValue N (lr_settings row) input
               in if \<not> ok then t else emitWrites (lr_address row) raw t)"

definition setBitAt :: "int \<Rightarrow> bool \<Rightarrow> 'd table \<Rightarrow> 'd table" where
  "setBitAt r v t =
     (case list_at (tb_logicalRows t) r of
        None \<Rightarrow> t
      | Some row \<Rightarrow>
          if tb_registerType t \<noteq> Coil then t else emitTable (CoilWriteRequested (lr_address row) v) t)"

definition setFormatAt :: "'d numerics \<Rightarrow> int \<Rightarrow> 'd FormatSettings \<Rightarrow> 'd table \<Rightarrow> 'd table" where
  "setFormatAt N r settings t =
     (case list_at (tb_logicalRows t) r of
        None \<Rightarrow> t
      | Some row \<Rightarrow>
          if tableIsBits t then t
          else emitTable ModelReset
                 (rebuildLogicalRows N (t\<lparr>tb_formats := (tb_formats t)(lr_address row \<mapsto> settings)\<rparr>)))"

definition tableMarkStale :: "'d table \<Rightarrow> 'd table" where
  "tableMarkStale t = (if tb_stale t then t else emitTable StaleChanged (t\<lparr>tb_stale := True\<rparr>))"

definition setAddressConvention :: "AddressConvention \<Rightarrow> 'd table \<Rightarrow> 'd table" where
  "setAddressConvention convention t =
     (if tb_addressConvention t = convention then t
      else let t = emitTable AddressConventionChanged (t\<lparr>tb_addressConvention := convention\<rparr>)
           in if tb_logicalRows t = [] then t
              else emitTable (DataChanged 0 (length (tb_logicalRows t) - 1) [AddressRole]) t)"

definition setRegisterType :: "'d numerics \<Rightarrow> RegisterType \<Rightarrow> 'd table \<Rightarrow> 'd table" where
  "setRegisterType N ty t =
     (if tb_registerType t = ty then t
      else emitTable RegisterTypeChanged (emitTable ModelReset
             (rebuildLogicalRows N (t\<lparr>tb_registerType := ty, tb_rawValues := [], tb_bitValues := [],
                tb_formats := Map.empty\<rparr>))))"

section \<open>The rows cover the registers\<close>

text \<open>Rows in a line from register \<open>i\<close> to register \<open>n\<close>, each with as many registers as its format needs.\<close>

fun rowsFrom :: "int \<Rightarrow> nat \<Rightarrow> nat \<Rightarrow> 'd LogicalRow list \<Rightarrow> bool" where
  "rowsFrom start i n [] \<longleftrightarrow> i = n"
| "rowsFrom start i n (row # rows) \<longleftrightarrow>
     lr_address row = start + int i \<and> i + lr_span row \<le> n \<and> 0 < lr_span row \<and>
     lr_span row = registerSpanFor (fs_format (lr_settings row)) \<and> rowsFrom start (i + lr_span row) n rows"

lemma rowsFrom_append:
  "rowsFrom start i n (rows @ rows') \<longleftrightarrow> (\<exists>m \<le> n. rowsFrom start i m rows \<and> rowsFrom start m n rows')"
proof (induction rows arbitrary: i)
  case Nil
  have "rowsFrom start i n rows' \<Longrightarrow> i \<le> n" for i
    by (induction rows' arbitrary: i) fastforce+
  then show ?case by auto
next
  case (Cons row rows)
  have "rowsFrom start m n rs \<Longrightarrow> m \<le> n" for m n and rs :: "'a LogicalRow list"
    by (induction rs arbitrary: m) fastforce+
  then show ?case using Cons by (fastforce intro: order_trans)
qed

lemma rowsFrom_le: "rowsFrom start i n rows \<Longrightarrow> i \<le> n"
  by (induction rows arbitrary: i) fastforce+

lemma rowsFrom_snoc:
  "rowsFrom start i m rows \<Longrightarrow> rowsFrom start m n [row] \<Longrightarrow> rowsFrom start i n (rows @ [row])"
  using rowsFrom_append rowsFrom_le by blast

lemma markRawIndices_nth:
  assumes "i + span \<le> length idx"
  shows "length (markRawIndices i span r idx) = length idx \<and>
    (\<forall>j < length idx. markRawIndices i span r idx ! j = (if i \<le> j \<and> j < i + span then r else idx ! j))"
  using assms
proof (induction span)
  case (Suc span)
  have "markRawIndices i (Suc span) r idx = (markRawIndices i span r idx)[i + span := r]"
    by (simp add: markRawIndices_def)
  with Suc show ?case by (auto simp: nth_list_update)
qed (simp add: markRawIndices_def)

text \<open>Position \<open>j\<close> belongs to the row the index names.\<close>

definition indexes :: "int \<Rightarrow> 'd LogicalRow list \<Rightarrow> nat list \<Rightarrow> nat \<Rightarrow> bool" where
  "indexes start rows idx j \<longleftrightarrow>
     idx ! j < length rows \<and> lr_address (rows ! (idx ! j)) \<le> start + int j \<and>
     start + int j < lr_address (rows ! (idx ! j)) + int (lr_span (rows ! (idx ! j)))"

lemma logicalRowAt_props:
  assumes "i < n"
  shows "lr_address (logicalRowAt N t n i) = tb_startAddress t + int i"
    and "i + lr_span (logicalRowAt N t n i) \<le> n"
    and "lr_span (logicalRowAt N t n i) = registerSpanFor (fs_format (lr_settings (logicalRowAt N t n i)))"
  using assms by (simp_all add: logicalRowAt_def defaultFormat_def Let_def)

lemma wordRows_cover:
  assumes "wordRows N t n i rows idx = (rows', idx')" and "i \<le> n" and "length idx = n"
    and "rowsFrom (tb_startAddress t) 0 i rows" and "\<forall>j < i. indexes (tb_startAddress t) rows idx j"
  shows "rowsFrom (tb_startAddress t) 0 n rows' \<and> length idx' = n \<and>
    (\<forall>j < n. indexes (tb_startAddress t) rows' idx' j)"
  using assms
proof (induction N t n i rows idx rule: wordRows.induct)
  case (1 N t n i rows idx)
  show ?case
  proof (cases "i < n")
    case True
    define row where "row = logicalRowAt N t n i"
    note props = logicalRowAt_props [OF True, of N t, folded row_def]
    note mark = markRawIndices_nth [of i "lr_span row" idx "length rows"]
    have len: "i + lr_span row \<le> length idx" using props(2) 1(4) by simp
    have "indexes (tb_startAddress t) (rows @ [row]) (markRawIndices i (lr_span row) (length rows) idx) j"
      if j: "j < i + lr_span row" for j
    proof (cases "j < i")
      case True
      with 1(6) have "indexes (tb_startAddress t) rows idx j" by blast
      moreover have "markRawIndices i (lr_span row) (length rows) idx ! j = idx ! j"
        using mark [OF len] True j len by simp
      ultimately show ?thesis by (auto simp: indexes_def nth_append)
    next
      case False
      then have "markRawIndices i (lr_span row) (length rows) idx ! j = length rows"
        using mark [OF len] j len by simp
      with False j props(1) show ?thesis by (simp add: indexes_def)
    qed
    moreover have "rowsFrom (tb_startAddress t) 0 (i + lr_span row) (rows @ [row])"
      by (rule rowsFrom_snoc [OF 1(5)]) (use props in \<open>simp add: row_def\<close>)
    moreover have "wordRows N t n (i + lr_span row) (rows @ [row]) (markRawIndices i (lr_span row) (length rows) idx)
        = (rows', idx')"
      using 1(2) True by (subst (asm) wordRows.simps) (simp add: row_def Let_def)
    ultimately show ?thesis
      using 1(1) [OF True row_def] props(2) mark [OF len] 1(4) by simp
  next
    case False
    with 1(2) have "rows' = rows" "idx' = idx" by (subst (asm) (1) wordRows.simps, simp)+
    with False 1(3-6) show ?thesis by (simp add: le_antisym)
  qed
qed

lemma concat_rows:
  "rowsFrom start i (length raw) rows \<Longrightarrow>
   concat (map (\<lambda>row. take (lr_span row) (drop (nat (lr_address row - start)) raw)) rows) = drop i raw"
proof (induction rows arbitrary: i)
  case (Cons row rows)
  then have at: "nat (lr_address row - start) = i" by simp
  have "take (lr_span row) (drop i raw) @ drop (i + lr_span row) raw = drop i raw"
    by (metis add.commute append_take_drop_id drop_drop)
  moreover have "concat (map (\<lambda>row. take (lr_span row) (drop (nat (lr_address row - start)) raw)) rows)
      = drop (i + lr_span row) raw"
    by (rule Cons.IH) (use Cons.prems in \<open>unfold rowsFrom.simps, blast\<close>)
  ultimately show ?case by (simp only: list.map concat.simps at)
qed simp

lemma rowsFrom_mem:
  "rowsFrom start i n rows \<Longrightarrow> row \<in> set rows \<Longrightarrow>
   start + int i \<le> lr_address row \<and> lr_address row + int (lr_span row) \<le> start + int n \<and>
   lr_span row = registerSpanFor (fs_format (lr_settings row))"
proof (induction rows arbitrary: i)
  case (Cons r rows)
  show ?case
  proof (cases "row = r")
    case True
    then show ?thesis using Cons.prems by auto
  next
    case False
    with Cons.prems Cons.IH [of "i + lr_span r"] show ?thesis by auto
  qed
qed simp

lemma formatValue_defined:
  "length rs = registerSpanFor (fs_format settings) \<Longrightarrow> formatValue N settings rs \<noteq> None"
  by (cases "fs_format settings") (simp_all add: formatValue_def numericValue_def Let_def)

section \<open>Every operation keeps the rows up to date\<close>

definition layout :: "'d numerics \<Rightarrow> 'd table \<Rightarrow> 'd LogicalRow list \<times> nat list" where
  "layout N t =
     (if tableIsBits t then (bitRows N t, [0..<length (tb_bitValues t)])
      else wordRows N t (length (tb_rawValues t)) 0 [] (replicate (length (tb_rawValues t)) 0))"

definition fresh :: "'d numerics \<Rightarrow> 'd table \<Rightarrow> bool" where
  "fresh N t \<longleftrightarrow> (tb_logicalRows t, tb_rawIndexToRowIndex t) = layout N t"

lemma rebuild_eq:
  "rebuildLogicalRows N t =
     t\<lparr>tb_logicalRows := fst (layout N t), tb_rawIndexToRowIndex := snd (layout N t)\<rparr>"
  by (simp add: rebuildLogicalRows_def layout_def split_beta Let_def)

lemma wordRows_cong:
  assumes "tb_startAddress t = tb_startAddress t'" and "tb_formats t = tb_formats t'"
  shows "wordRows N t n i rows idx = wordRows N t' n i rows idx"
  using assms
proof (induction N t n i rows idx rule: wordRows.induct)
  case (1 N t n i rows idx)
  then have same: "logicalRowAt N t n i = logicalRowAt N t' n i"
    by (simp add: logicalRowAt_def requestedFormat_def)
  show ?case
    by (subst (1 2) wordRows.simps) (use 1 same in \<open>simp add: Let_def\<close>)
qed

lemma layout_cong:
  assumes "tb_startAddress t = tb_startAddress t'" and "tb_formats t = tb_formats t'"
    and "tb_registerType t = tb_registerType t'" and "length (tb_rawValues t) = length (tb_rawValues t')"
    and "length (tb_bitValues t) = length (tb_bitValues t')"
  shows "layout N t = layout N t'"
  using assms wordRows_cong [OF assms(1,2)] by (simp add: layout_def bitRows_def)

lemma layout_ignores [simp]:
  "layout N (t\<lparr>tb_logicalRows := x, tb_rawIndexToRowIndex := y\<rparr>) = layout N t"
  "layout N (t\<lparr>tb_stale := b\<rparr>) = layout N t" "layout N (emitTable e t) = layout N t"
  "layout N (t\<lparr>tb_addressConvention := c\<rparr>) = layout N t"
  by (rule layout_cong; simp add: emitTable_def)+

lemma fresh_rebuild [simp]: "fresh N (rebuildLogicalRows N t)"
  by (simp add: fresh_def rebuild_eq)

lemma fresh_ignores [simp]:
  "fresh N (emitTable e t) \<longleftrightarrow> fresh N t" "fresh N (t\<lparr>tb_stale := b\<rparr>) \<longleftrightarrow> fresh N t"
  "fresh N (t\<lparr>tb_addressConvention := c\<rparr>) \<longleftrightarrow> fresh N t"
  by (simp_all add: fresh_def) (simp_all add: emitTable_def)

lemma fresh_clearStale [simp]: "fresh N (clearStale t) \<longleftrightarrow> fresh N t"
  by (simp add: clearStale_def)

text \<open>What the diff leaves after \<open>j\<close> positions: those are new, and every change lies in the range.\<close>

definition spans :: "'v list \<Rightarrow> 'v list \<Rightarrow> nat \<Rightarrow> (nat \<times> nat) option \<Rightarrow> bool" where
  "spans old new j changed \<longleftrightarrow>
     (case changed of
        None \<Rightarrow> \<forall>k < j. old ! k = new ! k
      | Some (f, l) \<Rightarrow> f \<le> l \<and> l < j \<and> (\<forall>k < j. old ! k \<noteq> new ! k \<longrightarrow> f \<le> k \<and> k \<le> l))"

lemma diffStep_inv:
  assumes "length old = length new" and "j \<le> length new"
  shows "\<exists>changed. foldl (diffStep new) (old, None) [0..<j] = (take j new @ drop j old, changed) \<and>
    spans old new j changed"
  using assms(2)
proof (induction j)
  case (Suc j)
  then obtain changed where IH: "foldl (diffStep new) (old, None) [0..<j] = (take j new @ drop j old, changed)"
      "spans old new j changed" by auto
  let ?cur = "take j new @ drop j old"
  have j: "j < length new" "j < length old" using Suc.prems assms(1) by simp_all
  then have drop: "drop j old = old ! j # drop (Suc j) old" by (simp add: Cons_nth_drop_Suc)
  have cur: "?cur ! j = old ! j" using j by (simp add: nth_append)
  have upd: "?cur[j := new ! j] = take (Suc j) new @ drop (Suc j) old"
    using j by (simp add: drop list_update_append take_Suc_conv_app_nth)
  show ?case
  proof (cases "old ! j = new ! j")
    case True
    then have "?cur = take (Suc j) new @ drop (Suc j) old"
      using j by (simp add: drop take_Suc_conv_app_nth)
    moreover have "spans old new (Suc j) changed"
      using IH(2) True by (auto simp: spans_def less_Suc_eq split: option.splits)
    ultimately show ?thesis using IH(1) True cur by (simp add: diffStep_def)
  next
    case False
    then have "spans old new (Suc j) (case changed of None \<Rightarrow> Some (j, j) | Some (f, _) \<Rightarrow> Some (f, j))"
      using IH(2) by (fastforce simp: spans_def less_Suc_eq split: option.splits)
    with IH(1) False cur upd show ?thesis by (simp add: diffStep_def)
  qed
qed (simp add: spans_def)

lemma diffValues_spec:
  assumes "length old = length new"
  shows "\<exists>changed. diffValues old new = (new, changed) \<and> spans old new (length new) changed"
  using diffStep_inv [OF assms order_refl] assms by (simp add: diffValues_def)

text \<open>The operations of the table, as the screen calls them.\<close>

datatype 'd tableOp =
    SetRegisters int "int list" | SetBits int "bool list" | SetValueAt int string | SetBitAt int bool
  | SetFormatAt int "'d FormatSettings" | MarkStale | SetAddressConvention AddressConvention
  | SetRegisterType RegisterType

fun applyTableOp :: "'d numerics \<Rightarrow> 'd tableOp \<Rightarrow> 'd table \<Rightarrow> 'd table option" where
  "applyTableOp N (SetRegisters a vals) t = setRegisters N a vals t"
| "applyTableOp N (SetBits a vals) t = Some (setBits N a vals t)"
| "applyTableOp N (SetValueAt r s) t = Some (setValueAt N r s t)"
| "applyTableOp N (SetBitAt r b) t = Some (setBitAt r b t)"
| "applyTableOp N (SetFormatAt r f) t = Some (setFormatAt N r f t)"
| "applyTableOp N MarkStale t = Some (tableMarkStale t)"
| "applyTableOp N (SetAddressConvention c) t = Some (setAddressConvention c t)"
| "applyTableOp N (SetRegisterType ty) t = Some (setRegisterType N ty t)"

fun runTable :: "'d numerics \<Rightarrow> 'd tableOp list \<Rightarrow> 'd table \<Rightarrow> 'd table option" where
  "runTable N [] t = Some t"
| "runTable N (op # ops) t = Option.bind (applyTableOp N op t) (runTable N ops)"

lemma fresh_values:
  "length raw = length (tb_rawValues t) \<Longrightarrow> fresh N (t\<lparr>tb_rawValues := raw\<rparr>) \<longleftrightarrow> fresh N t"
  "length bits = length (tb_bitValues t) \<Longrightarrow> fresh N (t\<lparr>tb_bitValues := bits\<rparr>) \<longleftrightarrow> fresh N t"
  using layout_cong [of "t\<lparr>tb_rawValues := raw\<rparr>" t] layout_cong [of "t\<lparr>tb_bitValues := bits\<rparr>" t]
  by (simp_all add: fresh_def)

lemma fresh_emitWrites [simp]: "fresh N (emitWrites a raw t) \<longleftrightarrow> fresh N t"
proof -
  have "fresh N (foldl (\<lambda>t k. emitTable (f k) t) t ks) \<longleftrightarrow> fresh N t" for f ks
    by (induction ks arbitrary: t) simp_all
  then show ?thesis by (simp add: emitWrites_def)
qed

lemma clearStale_fields [simp]:
  "tb_startAddress (clearStale t) = tb_startAddress t" "tb_rawValues (clearStale t) = tb_rawValues t"
  "tb_bitValues (clearStale t) = tb_bitValues t" "tb_formats (clearStale t) = tb_formats t"
  "tb_registerType (clearStale t) = tb_registerType t" "tb_logicalRows (clearStale t) = tb_logicalRows t"
  "tb_rawIndexToRowIndex (clearStale t) = tb_rawIndexToRowIndex t"
  by (simp_all add: clearStale_def emitTable_def)

lemma setRegisters_fresh:
  assumes "fresh N t" and "setRegisters N a vals t = Some t'"
  shows "fresh N t'"
proof (cases "tb_startAddress t = a \<and> length (tb_rawValues t) = length vals")
  case True
  then obtain changed where
    d: "diffValues (tb_rawValues t) (map word_of_int vals) = (map word_of_int vals, changed)"
    using diffValues_spec [of "tb_rawValues t" "map word_of_int vals"] by auto
  have f: "fresh N ((clearStale t)\<lparr>tb_rawValues := map word_of_int vals\<rparr>)"
    using assms(1) True by (simp add: fresh_values)
  from assms(2) True d show ?thesis
    by (auto simp: setRegisters_def Let_def f bind_eq_Some_conv split: option.splits)
next
  case False
  with assms(2) show ?thesis by (auto simp: setRegisters_def Let_def)
qed

lemma applyTableOp_fresh:
  assumes "fresh N t" and "applyTableOp N op t = Some t'"
  shows "fresh N t'"
proof (cases op)
  case (SetRegisters a vals)
  with assms setRegisters_fresh show ?thesis by simp
next
  case (SetBits a vals)
  show ?thesis
  proof (cases "tb_startAddress t = a \<and> length (tb_bitValues t) = length vals")
    case True
    then obtain changed where d: "diffValues (tb_bitValues t) vals = (vals, changed)"
      using diffValues_spec [of "tb_bitValues t" vals] by auto
    have f: "fresh N ((clearStale t)\<lparr>tb_bitValues := vals\<rparr>)"
      using assms(1) True by (simp add: fresh_values)
    from assms(2) True d show ?thesis
      by (auto simp: SetBits setBits_def Let_def f split: option.splits)
  next
    case False
    with assms(2) show ?thesis by (auto simp: SetBits setBits_def Let_def)
  qed
qed (use assms in \<open>auto simp: setValueAt_def setBitAt_def setFormatAt_def tableMarkStale_def
  setAddressConvention_def setRegisterType_def Let_def split: option.splits if_splits prod.splits\<close>)

lemma runTable_fresh: "runTable N ops t = Some t' \<Longrightarrow> fresh N t \<Longrightarrow> fresh N t'"
  by (induction ops arbitrary: t) (auto simp: bind_eq_Some_conv dest: applyTableOp_fresh)

lemma fresh_newTable [simp]: "fresh N newTable"
  by (simp add: fresh_def layout_def newTable_def wordRows.simps)

lemma fresh_words:
  assumes "fresh N t" and "\<not> tableIsBits t"
  shows "rowsFrom (tb_startAddress t) 0 (length (tb_rawValues t)) (tb_logicalRows t)"
    and "length (tb_rawIndexToRowIndex t) = length (tb_rawValues t)"
    and "j < length (tb_rawValues t) \<Longrightarrow>
      indexes (tb_startAddress t) (tb_logicalRows t) (tb_rawIndexToRowIndex t) j"
proof -
  have "wordRows N t (length (tb_rawValues t)) 0 [] (replicate (length (tb_rawValues t)) 0)
      = (tb_logicalRows t, tb_rawIndexToRowIndex t)"
    using assms by (simp add: fresh_def layout_def)
  from wordRows_cover [OF this]
  have "rowsFrom (tb_startAddress t) 0 (length (tb_rawValues t)) (tb_logicalRows t) \<and>
      length (tb_rawIndexToRowIndex t) = length (tb_rawValues t) \<and>
      (\<forall>j < length (tb_rawValues t). indexes (tb_startAddress t) (tb_logicalRows t) (tb_rawIndexToRowIndex t) j)"
    by simp
  then show "rowsFrom (tb_startAddress t) 0 (length (tb_rawValues t)) (tb_logicalRows t)"
    and "length (tb_rawIndexToRowIndex t) = length (tb_rawValues t)"
    and "j < length (tb_rawValues t) \<Longrightarrow>
      indexes (tb_startAddress t) (tb_logicalRows t) (tb_rawIndexToRowIndex t) j" by blast+
qed

lemma rawRegistersFor_eq:
  "rawRegistersFor t row = take (lr_span row) (drop (nat (lr_address row - tb_startAddress t)) (tb_rawValues t))"
  by (simp add: rawRegistersFor_def)

lemma row_registers:
  assumes "fresh N t" and "\<not> tableIsBits t" and "row \<in> set (tb_logicalRows t)"
  shows "length (rawRegistersFor t row) = registerSpanFor (fs_format (lr_settings row))"
  using rowsFrom_mem [OF fresh_words(1) [OF assms(1,2)] assms(3)] by (simp add: rawRegistersFor_eq) linarith



lemma indexes_mono:
  assumes "rowsFrom start i n rows" and "r < r'" and "r' < length rows"
  shows "lr_address (rows ! r) + int (lr_span (rows ! r)) \<le> lr_address (rows ! r')"
  using assms
proof (induction rows arbitrary: i r r')
  case (Cons row rows)
  then obtain q' where q': "r' = Suc q'" by (cases r') auto
  show ?case
  proof (cases r)
    case 0
    have "rows ! q' \<in> set rows" using Cons.prems q' by simp
    moreover have "rowsFrom start (i + lr_span row) n rows" using Cons.prems(1) by (unfold rowsFrom.simps, blast)
    ultimately show ?thesis using rowsFrom_mem Cons.prems(1) 0 q' by fastforce
  next
    case (Suc q)
    have "rowsFrom start (i + lr_span row) n rows" using Cons.prems(1) by (unfold rowsFrom.simps, blast)
    with Cons.IH Cons.prems Suc q' show ?thesis by simp
  qed
qed simp

text \<open>A register of row \<open>r\<close> that changed lies between the first and the last change, so the row lies
  between their rows.\<close>

lemma row_between:
  assumes "rowsFrom start 0 n rows" and "indexes start rows idx f" and "indexes start rows idx l"
    and "f \<le> k" and "k \<le> l" and "r < length rows"
    and "lr_address (rows ! r) \<le> start + int k" and "start + int k < lr_address (rows ! r) + int (lr_span (rows ! r))"
  shows "idx ! f \<le> r \<and> r \<le> idx ! l"
proof (intro conjI leI notI)
  show False if "r < idx ! f"
    using indexes_mono [OF assms(1) that] assms(2,4,8) by (auto simp: indexes_def)
  show False if "idx ! l < r"
    using indexes_mono [OF assms(1) that] assms(3,5,6,7) by (auto simp: indexes_def)
qed

lemma slices_differ:
  assumes "length xs = length ys" and "take n (drop p xs) \<noteq> take n (drop p ys)"
  obtains k where "p \<le> k" "k < p + n" "k < length xs" "xs ! k \<noteq> ys ! k"
proof -
  have "length (take n (drop p xs)) = length (take n (drop p ys))" using assms(1) by simp
  with assms(2) obtain j where j: "j < length (take n (drop p xs))"
      "take n (drop p xs) ! j \<noteq> take n (drop p ys) ! j"
    using nth_equalityI by blast
  moreover have "p \<le> length xs" "p \<le> length ys" using j(1) assms(1) by auto
  ultimately have "xs ! (p + j) \<noteq> ys ! (p + j)" by simp
  moreover have "p + j < length xs" "j < n" using j(1) by auto
  ultimately show ?thesis using that [of "p + j"] by simp
qed

lemma in_place_update:
  assumes f: "fresh N t" and w: "\<not> tableIsBits t"
    and shape: "tb_startAddress t = a" "length (tb_rawValues t) = length vals"
  defines "new \<equiv> map word_of_int vals"
  shows "\<exists>sigs. setRegisters N a vals t = Some (t\<lparr>tb_stale := False, tb_rawValues := new, tb_signals := sigs\<rparr>) \<and>
    (\<forall>r < length (tb_logicalRows t). \<forall>k < length new.
       tb_rawValues t ! k \<noteq> new ! k \<and> lr_address (tb_logicalRows t ! r) \<le> a + int k \<and>
       a + int k < lr_address (tb_logicalRows t ! r) + int (lr_span (tb_logicalRows t ! r)) \<longrightarrow>
         (\<exists>f l. last sigs = DataChanged f l [ValueRole] \<and> f \<le> r \<and> r \<le> l))"
proof -
  have n: "length new = length (tb_rawValues t)" using shape(2) by (simp add: new_def)
  obtain changed where d: "diffValues (tb_rawValues t) new = (new, changed)"
      and sp: "spans (tb_rawValues t) new (length new) changed"
    using diffValues_spec [OF n [symmetric]] by blast
  obtain sigs0 where c: "clearStale t = t\<lparr>tb_stale := False, tb_signals := sigs0\<rparr>"
    by (cases "tb_stale t") (auto simp: clearStale_def emitTable_def intro!: that [of "tb_signals t"])
  have rows: "rowsFrom a 0 (length new) (tb_logicalRows t)"
    using fresh_words(1) [OF f w] shape(1) n by simp
  have len: "length (tb_rawIndexToRowIndex t) = length new" using fresh_words(2) [OF f w] n by simp
  have idx: "indexes a (tb_logicalRows t) (tb_rawIndexToRowIndex t) j" if "j < length new" for j
    using fresh_words(3) [OF f w] that shape(1) n by simp
  show ?thesis
  proof (cases changed)
    case None
    then have "setRegisters N a vals t = Some (t\<lparr>tb_stale := False, tb_rawValues := new, tb_signals := sigs0\<rparr>)"
      using d c shape n by (simp add: setRegisters_def Let_def new_def [symmetric])
    with None sp show ?thesis by (auto simp: spans_def)
  next
    case (Some p)
    then obtain first last' where ch: "changed = Some (first, last')" by (cases p) auto
    with sp have fl: "first \<le> last'" "last' < length new" by (auto simp: spans_def)
    let ?sig = "DataChanged (tb_rawIndexToRowIndex t ! first) (tb_rawIndexToRowIndex t ! last') [ValueRole]"
    have "setRegisters N a vals t
        = Some (t\<lparr>tb_stale := False, tb_rawValues := new, tb_signals := sigs0 @ [?sig]\<rparr>)"
      using d c ch shape n fl len by (simp add: setRegisters_def Let_def new_def [symmetric] emitTable_def)
    moreover have "tb_rawIndexToRowIndex t ! first \<le> r \<and> r \<le> tb_rawIndexToRowIndex t ! last'"
      if "r < length (tb_logicalRows t)" "k < length new" "tb_rawValues t ! k \<noteq> new ! k"
        "lr_address (tb_logicalRows t ! r) \<le> a + int k"
        "a + int k < lr_address (tb_logicalRows t ! r) + int (lr_span (tb_logicalRows t ! r))" for r k
    proof (rule row_between [OF rows idx idx _ _ that(1,4,5)])
      show "first \<le> k" "k \<le> last'" using sp ch that(2,3) by (auto simp: spans_def)
    qed (use fl in simp_all)
    ultimately show ?thesis by (metis last_snoc)
  qed
qed



text \<open>Registers that arrive while the table shows bits are taken in, and the next such update with a
  changed value reads the row index outside its list: two late answers to register reads after the
  user switched to coils stop the program.\<close>

theorem registers_for_a_bit_table_fail:
  "runTable N [SetRegisterType Coil, SetRegisters 0 [1], SetRegisters 0 [2]] newTable = None"
  by (simp add: setRegisterType_def setRegisters_def newTable_def clearStale_def emitTable_def
      rebuildLogicalRows_def bitRows_def diffValues_def diffStep_def list_at_out Let_def)

end
