(* ===== verification/Logs.thy ===== *)
theory Logs
  imports Qt_Text
begin

text \<open>
  \<open>app-lib/CommunicationLogModel\<close> (the live log on the screen) and \<open>app-lib/SessionLogger\<close> (the log file).
  Both are proved to refine the history of what was logged: the screen shows its last 500 entries, the
  file is its rendering, line by line, with the numbers and final counts of losses and reconnects.

  \<^item> The clock and \<open>QFile::open\<close> are Qt's: time stamps, and whether the file could be opened, are arguments.
  \<^item> A file is its content; \<open>lg_files\<close> holds those written by the program.
\<close>

section \<open>The log on the screen\<close>

datatype LogSignal = LogRowRemoved nat | LogRowInserted nat | LogReset

record logEntry =
  le_timestamp :: string
  le_direction :: int
  le_summary :: string

record commLog =
  cl_entries :: "logEntry list"
  cl_signals :: "LogSignal list"

definition MaxEntries :: nat where "MaxEntries = 500"

definition newLog :: commLog where "newLog = \<lparr>cl_entries = [], cl_signals = []\<rparr>"

definition logAppend :: "string \<Rightarrow> int \<Rightarrow> string \<Rightarrow> commLog \<Rightarrow> commLog" where
  "logAppend clock direction summary l =
     (let l = (if MaxEntries \<le> length (cl_entries l)
               then l\<lparr>cl_entries := tl (cl_entries l), cl_signals := cl_signals l @ [LogRowRemoved 0]\<rparr>
               else l);
          entry = \<lparr>le_timestamp = clock, le_direction = direction, le_summary = summary\<rparr>
      in l\<lparr>cl_entries := cl_entries l @ [entry],
           cl_signals := cl_signals l @ [LogRowInserted (length (cl_entries l))]\<rparr>)"

definition logClear :: "commLog \<Rightarrow> commLog" where
  "logClear l =
     (if cl_entries l = [] then l else \<lparr>cl_entries = [], cl_signals = cl_signals l @ [LogReset]\<rparr>)"

datatype LogRole = LogTimestamp | LogDirection | LogSummary

datatype LogCell = LogNothing | LogText string | LogNumber int

definition logData :: "commLog \<Rightarrow> int \<Rightarrow> LogRole \<Rightarrow> LogCell" where
  "logData l row role =
     (if row < 0 \<or> int (length (cl_entries l)) \<le> row then LogNothing
      else let e = cl_entries l ! nat row
           in case role of
                LogTimestamp \<Rightarrow> LogText (le_timestamp e)
              | LogDirection \<Rightarrow> LogNumber (le_direction e)
              | LogSummary \<Rightarrow> LogText (le_summary e))"

text \<open>Its history: everything appended since the last clearing, without a bound.\<close>

datatype logOp = LogAppend string int string | LogClear

fun applyLogOp :: "logOp \<Rightarrow> commLog \<Rightarrow> commLog" where
  "applyLogOp (LogAppend clock direction summary) l = logAppend clock direction summary l"
| "applyLogOp LogClear l = logClear l"

fun recordOp :: "logOp \<Rightarrow> logEntry list \<Rightarrow> logEntry list" where
  "recordOp (LogAppend clock direction summary) h =
     h @ [\<lparr>le_timestamp = clock, le_direction = direction, le_summary = summary\<rparr>]"
| "recordOp LogClear h = []"

definition lastEntries :: "nat \<Rightarrow> 'v list \<Rightarrow> 'v list" where
  "lastEntries n h = drop (length h - n) h"

text \<open>What a view that follows the signals shows, given the entries as they are at the end.\<close>

fun replay :: "LogSignal \<Rightarrow> nat \<Rightarrow> nat" where
  "replay (LogRowRemoved i) n = n - 1"
| "replay (LogRowInserted i) n = n + 1"
| "replay LogReset n = 0"

lemma lastEntries_snoc:
  assumes "0 < n"
  shows "lastEntries n (h @ [e]) = (if n \<le> length (lastEntries n h) then tl (lastEntries n h) else lastEntries n h) @ [e]"
  using assms by (auto simp: lastEntries_def drop_Suc tl_drop Suc_diff_le)

lemma log_step:
  assumes "cl_entries l = lastEntries MaxEntries h"
  shows "cl_entries (applyLogOp op l) = lastEntries MaxEntries (recordOp op h)"
  using assms
  by (cases op) (simp_all add: logAppend_def logClear_def lastEntries_snoc MaxEntries_def Let_def, simp add: lastEntries_def)

lemma log_rows:
  assumes "foldl (\<lambda>n e. replay e n) 0 (cl_signals l) = length (cl_entries l)"
  shows "foldl (\<lambda>n e. replay e n) 0 (cl_signals (applyLogOp op l)) = length (cl_entries (applyLogOp op l))"
  using assms by (cases op) (auto simp: logAppend_def logClear_def Let_def)

text \<open>The communication log refines the unbounded history of what was logged: after any operations
  it holds exactly the last 500 entries since it was last cleared, in order, with their times and
  directions; and a view that follows its row signals has the right number of rows.\<close>

theorem comm_log_refines_history:
  "cl_entries (foldl (\<lambda>l op. applyLogOp op l) newLog ops) =
     lastEntries MaxEntries (foldl (\<lambda>h op. recordOp op h) [] ops) \<and>
   foldl (\<lambda>n e. replay e n) 0 (cl_signals (foldl (\<lambda>l op. applyLogOp op l) newLog ops)) =
     length (cl_entries (foldl (\<lambda>l op. applyLogOp op l) newLog ops))"
proof (induction ops rule: rev_induct)
  case Nil
  show ?case by (simp add: newLog_def lastEntries_def)
next
  case (snoc op ops)
  then show ?case using log_step log_rows by simp
qed

section \<open>The log file\<close>

datatype LoggerSignal = IsLoggingChanged | LogFilePathChanged | DisconnectCountChanged | ReconnectCountChanged

record logger =
  lg_stream :: "string option"
  lg_logFilePath :: string
  lg_disconnectCount :: int
  lg_reconnectCount :: int
  lg_files :: "string \<rightharpoonup> string"
  lg_signals :: "LoggerSignal list"

definition newLogger :: logger where
  "newLogger = \<lparr>lg_stream = None, lg_logFilePath = [], lg_disconnectCount = 0, lg_reconnectCount = 0,
     lg_files = Map.empty, lg_signals = []\<rparr>"

definition isLogging :: "logger \<Rightarrow> bool" where "isLogging g \<longleftrightarrow> lg_stream g \<noteq> None"

definition emitLogger :: "LoggerSignal list \<Rightarrow> logger \<Rightarrow> logger" where
  "emitLogger es g = g\<lparr>lg_signals := lg_signals g @ es\<rparr>"

text \<open>\<open>*m_stream << s; m_stream->flush()\<close>\<close>

definition put :: "string \<Rightarrow> logger \<Rightarrow> logger" where
  "put s g =
     (case lg_stream g of
        None \<Rightarrow> g
      | Some path \<Rightarrow> g\<lparr>lg_files := (lg_files g)(path \<mapsto> (case lg_files g path of None \<Rightarrow> [] | Some old \<Rightarrow> old) @ s)\<rparr>)"

definition newline :: string where "newline = [CHR 0x0A]"

definition directionTag :: "int \<Rightarrow> string" where
  "directionTag direction = (if direction = 0 then ''[Tx]'' else if direction = 1 then ''[Rx]'' else ''[Err]'')"

definition startLine :: "string \<Rightarrow> string" where
  "startLine date = ''=== ModbusViewer session log started '' @ date @ '' ==='' @ newline"

definition endLine :: "int \<Rightarrow> int \<Rightarrow> string" where
  "endLine d r = ''=== ModbusViewer session log ended -- '' @ number d @ '' disconnect(s), '' @
     number r @ '' reconnect(s) ==='' @ newline"

text \<open>\<open>path\<close> is the local path of the chosen file, \<open>opened\<close> whether \<open>QFile::open\<close> succeeded.\<close>

definition startLogging :: "string \<Rightarrow> bool \<Rightarrow> string \<Rightarrow> logger \<Rightarrow> logger \<times> bool" where
  "startLogging path opened date g =
     (if \<not> opened then (g, False)
      else let g = g\<lparr>lg_stream := Some path, lg_logFilePath := path, lg_disconnectCount := 0,
                     lg_reconnectCount := 0, lg_files := (lg_files g)(path \<mapsto> [])\<rparr>
           in (emitLogger [IsLoggingChanged, LogFilePathChanged, DisconnectCountChanged, ReconnectCountChanged]
                 (put (startLine date) g), True))"

definition stopLogging :: "logger \<Rightarrow> logger" where
  "stopLogging g =
     (if \<not> isLogging g then g
      else emitLogger [IsLoggingChanged]
             ((put (endLine (lg_disconnectCount g) (lg_reconnectCount g)) g)\<lparr>lg_stream := None\<rparr>))"

definition communicationLine :: "string \<Rightarrow> int \<Rightarrow> string \<Rightarrow> string" where
  "communicationLine clock direction summary = clock @ '' '' @ directionTag direction @ '' '' @ summary @ newline"

definition logCommunication :: "string \<Rightarrow> int \<Rightarrow> string \<Rightarrow> logger \<Rightarrow> logger" where
  "logCommunication clock direction summary g =
     (if \<not> isLogging g then g else put (communicationLine clock direction summary) g)"

definition disconnectLine :: "string \<Rightarrow> int \<Rightarrow> string" where
  "disconnectLine clock n = clock @ '' [EVENT] Connection lost (disconnect #'' @ number n @ '')'' @ newline"

definition recordDisconnect :: "string \<Rightarrow> logger \<Rightarrow> logger" where
  "recordDisconnect clock g =
     (if \<not> isLogging g then g
      else let g = g\<lparr>lg_disconnectCount := lg_disconnectCount g + 1\<rparr>
           in emitLogger [DisconnectCountChanged] (put (disconnectLine clock (lg_disconnectCount g)) g))"

definition reconnectLine :: "string \<Rightarrow> int \<Rightarrow> string" where
  "reconnectLine clock n = clock @ '' [EVENT] Reconnected (reconnect #'' @ number n @ '')'' @ newline"

definition recordReconnect :: "string \<Rightarrow> logger \<Rightarrow> logger" where
  "recordReconnect clock g =
     (if \<not> isLogging g then g
      else let g = g\<lparr>lg_reconnectCount := lg_reconnectCount g + 1\<rparr>
           in emitLogger [ReconnectCountChanged] (put (reconnectLine clock (lg_reconnectCount g)) g))"

text \<open>What happened, and its rendering.\<close>

datatype sessionEvent = Communication string int string | Loss string | Restored string

fun applyEvent :: "sessionEvent \<Rightarrow> logger \<Rightarrow> logger" where
  "applyEvent (Communication clock direction summary) g = logCommunication clock direction summary g"
| "applyEvent (Loss clock) g = recordDisconnect clock g"
| "applyEvent (Restored clock) g = recordReconnect clock g"

definition losses :: "sessionEvent list \<Rightarrow> int" where
  "losses es = int (length (filter (\<lambda>e. case e of Loss _ \<Rightarrow> True | _ \<Rightarrow> False) es))"

definition restorals :: "sessionEvent list \<Rightarrow> int" where
  "restorals es = int (length (filter (\<lambda>e. case e of Restored _ \<Rightarrow> True | _ \<Rightarrow> False) es))"

text \<open>The line of event \<open>i\<close>: losses and reconnects carry their number among those up to it.\<close>

definition lineOf :: "sessionEvent list \<Rightarrow> nat \<Rightarrow> string" where
  "lineOf es i =
     (case es ! i of
        Communication clock direction summary \<Rightarrow> communicationLine clock direction summary
      | Loss clock \<Rightarrow> disconnectLine clock (losses (take (i + 1) es))
      | Restored clock \<Rightarrow> reconnectLine clock (restorals (take (i + 1) es)))"

definition rendering :: "sessionEvent list \<Rightarrow> string" where
  "rendering es = concat (map (lineOf es) [0..<length es])"

lemma rendering_snoc:
  "rendering (es @ [e]) = rendering es @ lineOf (es @ [e]) (length es)"
proof -
  have "lineOf (es @ [e]) x = lineOf es x" if "x < length es" for x
    using that by (simp add: lineOf_def nth_append split: sessionEvent.splits)
  then have "map (lineOf (es @ [e])) [0..<length es] = map (lineOf es) [0..<length es]" by simp
  then show ?thesis by (simp add: rendering_def del: map_eq_conv)
qed

lemma counts_snoc [simp]:
  "losses (es @ [Loss c]) = losses es + 1" "losses (es @ [Restored c]) = losses es"
  "losses (es @ [Communication c d s]) = losses es"
  "restorals (es @ [Restored c]) = restorals es + 1" "restorals (es @ [Loss c]) = restorals es"
  "restorals (es @ [Communication c d s]) = restorals es"
  by (simp_all add: losses_def restorals_def)

text \<open>The open file is the rendering of the events so far; \<open>before\<close> holds the files as they were.\<close>

definition logs :: "(string \<rightharpoonup> string) \<Rightarrow> string \<Rightarrow> string \<Rightarrow> sessionEvent list \<Rightarrow> logger \<Rightarrow> bool" where
  "logs before path date es g \<longleftrightarrow> lg_stream g = Some path \<and>
     lg_files g = before(path \<mapsto> startLine date @ rendering es) \<and>
     lg_disconnectCount g = losses es \<and> lg_reconnectCount g = restorals es"

lemma logs_step: "logs before path date es g \<Longrightarrow> logs before path date (es @ [e]) (applyEvent e g)"
  by (cases e)
    (auto simp: logs_def rendering_snoc lineOf_def logCommunication_def recordDisconnect_def recordReconnect_def
      isLogging_def put_def emitLogger_def Let_def)

lemma logs_run:
  "logs before path date es0 g \<Longrightarrow> logs before path date (es0 @ es) (foldl (\<lambda>g e. applyEvent e g) g es)"
proof (induction es arbitrary: es0 g)
  case (Cons e es)
  from Cons.IH [OF logs_step [OF Cons.prems]] show ?case by simp
qed simp

lemma startLogging_logs: "logs (lg_files g) path date [] (fst (startLogging path True date g))"
  by (simp add: logs_def startLogging_def Let_def put_def emitLogger_def rendering_def losses_def restorals_def)

text \<open>C13: a session log refines the history of the session: from a successful start, over any sequence
  of frames, losses and reconnects, to the end, the file is the header, one line per event in order (the
  losses and reconnects numbered from one) and the footer with the exact counts; nothing of an earlier
  session is left in it, and no other file changes.\<close>

theorem session_log_refines_history:
  "\<exists>g1. startLogging path True date g = (g1, True) \<and>
     (let g2 = foldl (\<lambda>g e. applyEvent e g) g1 es; g3 = stopLogging g2
      in lg_disconnectCount g2 = losses es \<and> lg_reconnectCount g2 = restorals es \<and> \<not> isLogging g3 \<and>
         lg_files g3 = (lg_files g)(path \<mapsto> startLine date @ rendering es @ endLine (losses es) (restorals es)))"
proof -
  let ?g1 = "fst (startLogging path True date g)"
  from logs_run [OF startLogging_logs, where es = es] have l: "logs (lg_files g) path date es (foldl (\<lambda>g e. applyEvent e g) ?g1 es)" by simp
  have "startLogging path True date g = (?g1, True)" by (simp add: startLogging_def Let_def)
  then show ?thesis
    by (rule exI [of _ ?g1, OF conjI])
      (use l in \<open>simp add: Let_def logs_def stopLogging_def isLogging_def put_def emitLogger_def\<close>)
qed

text \<open>A file that cannot be opened leaves the logger, and what it is logging, as it was.\<close>

lemma start_fails: "startLogging path False date g = (g, False)"
  by (simp add: startLogging_def)

end
