(* ===== verification/Settings.thy ===== *)
theory Settings
  imports Register_Model Qt_Text
begin

text \<open>
  The settings the screens bind to (\<open>DisplaySettings\<close>, \<open>PollModeController\<close> and \<open>ThemeSettings\<close> of
  \<open>app-lib\<close>) and \<open>app-lib/serial/SerialPortListModel\<close>.

  \<^item> Every setter changes its property and emits its signal only when the value differs; a screen reads the
    property again when the signal comes. The locale \<open>notifying_property\<close> states that contract and shows
    that such a screen is never behind.
  \<^item> The settings file is a map from keys to texts; the ports found are an argument of \<open>rescan\<close>.
\<close>

section \<open>Properties with a change signal\<close>

text \<open>\<open>told s\<close> counts the signals emitted so far.\<close>

locale notifying_property =
  fixes current :: "'s \<Rightarrow> 'v"
    and assign :: "'v \<Rightarrow> 's \<Rightarrow> 's"
    and told :: "'s \<Rightarrow> nat"
  assumes current_assign: "current (assign v s) = v"
    and told_assign: "told (assign v s) = told s + (if current s = v then 0 else 1)"
begin

text \<open>A screen that shows \<open>seen\<close> and reads the property again whenever it was told.\<close>

definition watch :: "'v \<Rightarrow> 's \<times> 'v \<Rightarrow> 's \<times> 'v" where
  "watch v = (\<lambda>(s, seen). let s' = assign v s in (s', if told s < told s' then current s' else seen))"

lemma watch_current: "current s = seen \<Longrightarrow> watch v (s, seen) = (assign v s, v)"
  by (auto simp: watch_def Let_def current_assign told_assign)

lemma watched: "foldl (\<lambda>x v. watch v x) (s, current s) vs =
    (foldl (\<lambda>s v. assign v s) s vs, last (current s # vs))"
proof (induction vs arbitrary: s)
  case (Cons v vs)
  from Cons.IH [of "assign v s"] show ?case by (simp add: watch_current current_assign)
qed simp

lemma never_behind: "snd (foldl (\<lambda>x v. watch v x) (s, current s) vs) = current (foldl (\<lambda>s v. assign v s) s vs)"
proof -
  have "current (foldl (\<lambda>s v. assign v s) s vs) = last (current s # vs)"
    by (induction vs rule: rev_induct) (simp_all add: current_assign)
  then show ?thesis by (simp add: watched)
qed

end

section \<open>Display settings\<close>

datatype FavoritesViewMode = ListMode | CardsMode

datatype DisplaySignal = ConventionChanged | FlashChanged | ViewModeChanged

record displaySettings =
  ds_addressConvention :: AddressConvention
  ds_flashOnUpdateEnabled :: bool
  ds_favoritesViewMode :: FavoritesViewMode
  ds_signals :: "DisplaySignal list"

definition newDisplaySettings :: displaySettings where
  "newDisplaySettings = \<lparr>ds_addressConvention = Pdu, ds_flashOnUpdateEnabled = True,
     ds_favoritesViewMode = ListMode, ds_signals = []\<rparr>"

definition dsSetAddressConvention :: "AddressConvention \<Rightarrow> displaySettings \<Rightarrow> displaySettings" where
  "dsSetAddressConvention convention d =
     (if ds_addressConvention d = convention then d
      else d\<lparr>ds_addressConvention := convention, ds_signals := ds_signals d @ [ConventionChanged]\<rparr>)"

definition setFlashOnUpdateEnabled :: "bool \<Rightarrow> displaySettings \<Rightarrow> displaySettings" where
  "setFlashOnUpdateEnabled enabled d =
     (if ds_flashOnUpdateEnabled d = enabled then d
      else d\<lparr>ds_flashOnUpdateEnabled := enabled, ds_signals := ds_signals d @ [FlashChanged]\<rparr>)"

definition setFavoritesViewMode :: "FavoritesViewMode \<Rightarrow> displaySettings \<Rightarrow> displaySettings" where
  "setFavoritesViewMode mode d =
     (if ds_favoritesViewMode d = mode then d
      else d\<lparr>ds_favoritesViewMode := mode, ds_signals := ds_signals d @ [ViewModeChanged]\<rparr>)"

definition toDisplayAddress :: "displaySettings \<Rightarrow> RegisterType \<Rightarrow> int \<Rightarrow> int" where
  "toDisplayAddress d registerType pduAddr = displayAddress registerType pduAddr (ds_addressConvention d)"

definition toPduAddress :: "displaySettings \<Rightarrow> RegisterType \<Rightarrow> int \<Rightarrow> int" where
  "toPduAddress d registerType shown = pduAddress registerType shown (ds_addressConvention d)"

text \<open>How often a property was told of.\<close>

definition times :: "'e \<Rightarrow> 'e list \<Rightarrow> nat" where
  "times e es = length (filter ((=) e) es)"

lemma times_snoc [simp]: "times e (es @ [f]) = times e es + (if e = f then 1 else 0)"
  by (simp add: times_def)

interpretation convention:
  notifying_property ds_addressConvention dsSetAddressConvention "\<lambda>d. times ConventionChanged (ds_signals d)"
  by unfold_locales (simp_all add: dsSetAddressConvention_def)

interpretation flash:
  notifying_property ds_flashOnUpdateEnabled setFlashOnUpdateEnabled "\<lambda>d. times FlashChanged (ds_signals d)"
  by unfold_locales (simp_all add: setFlashOnUpdateEnabled_def)

interpretation view_mode:
  notifying_property ds_favoritesViewMode setFavoritesViewMode "\<lambda>d. times ViewModeChanged (ds_signals d)"
  by unfold_locales (simp_all add: setFavoritesViewMode_def)

text \<open>An address typed as it is displayed is the address it was displayed for, whatever was set in
  between as long as the convention is the same at both ends.\<close>

lemma display_address_roundtrip:
  "ds_addressConvention d' = ds_addressConvention d \<Longrightarrow> toPduAddress d' ty (toDisplayAddress d ty a) = a"
  by (simp add: toPduAddress_def toDisplayAddress_def displayAddress_def pduAddress_def)

section \<open>Poll mode\<close>

datatype Mode = NormalMode | FavoritesMode

record pollMode =
  pm_mode :: Mode
  pm_changes :: nat

definition newPollMode :: pollMode where "newPollMode = \<lparr>pm_mode = NormalMode, pm_changes = 0\<rparr>"

definition setMode :: "Mode \<Rightarrow> pollMode \<Rightarrow> pollMode" where
  "setMode mode c = (if pm_mode c = mode then c else c\<lparr>pm_mode := mode, pm_changes := pm_changes c + 1\<rparr>)"

interpretation poll_mode: notifying_property pm_mode setMode pm_changes
  by unfold_locales (simp_all add: setMode_def)

section \<open>Theme\<close>

record theme =
  th_settings :: "string \<rightharpoonup> string"
  th_themeId :: string
  th_changes :: nat

definition kThemeIdKey :: string where "kThemeIdKey = ''ui/themeId''"

definition loadTheme :: "(string \<rightharpoonup> string) \<Rightarrow> theme" where
  "loadTheme settings =
     \<lparr>th_settings = settings,
      th_themeId = (case settings kThemeIdKey of None \<Rightarrow> [] | Some i \<Rightarrow> i), th_changes = 0\<rparr>"

definition setThemeId :: "string \<Rightarrow> theme \<Rightarrow> theme" where
  "setThemeId i t =
     (if th_themeId t = i then t
      else t\<lparr>th_themeId := i, th_settings := (th_settings t)(kThemeIdKey \<mapsto> i), th_changes := th_changes t + 1\<rparr>)"

interpretation theme: notifying_property th_themeId setThemeId th_changes
  by unfold_locales (simp_all add: setThemeId_def)

text \<open>The theme chosen last is the theme after a restart, and no other setting is touched.\<close>

lemma theme_survives_restart:
  assumes "t = foldl (\<lambda>t i. setThemeId i t) (loadTheme settings) ids"
  shows "th_themeId (loadTheme (th_settings t)) = last (th_themeId (loadTheme settings) # ids)"
    and "key \<noteq> kThemeIdKey \<Longrightarrow> th_settings t key = settings key"
proof -
  have "th_themeId (loadTheme (th_settings t)) = th_themeId t \<and>
      (key \<noteq> kThemeIdKey \<longrightarrow> th_settings t key = settings key) \<and>
      th_themeId t = last (th_themeId (loadTheme settings) # ids)"
    unfolding assms
    by (induction ids rule: rev_induct) (auto simp: setThemeId_def loadTheme_def)
  then show "th_themeId (loadTheme (th_settings t)) = last (th_themeId (loadTheme settings) # ids)"
    and "key \<noteq> kThemeIdKey \<Longrightarrow> th_settings t key = settings key" by simp_all
qed

section \<open>Serial ports\<close>

datatype PortRole = PortNameRole | PortDescriptionRole | DisplayLabelRole

record PortInfo =
  pi_portName :: string
  pi_description :: string

record portList =
  pl_ports :: "PortInfo list"
  pl_resets :: nat

definition rescan :: "PortInfo list \<Rightarrow> portList \<Rightarrow> portList" where
  "rescan available l = l\<lparr>pl_ports := available, pl_resets := pl_resets l + 1\<rparr>"

definition newPortList :: "PortInfo list \<Rightarrow> portList" where
  "newPortList available = rescan available \<lparr>pl_ports = [], pl_resets = 0\<rparr>"

definition portData :: "portList \<Rightarrow> int \<Rightarrow> PortRole \<Rightarrow> string option" where
  "portData l row role =
     map_option (\<lambda>port. case role of
         PortNameRole \<Rightarrow> pi_portName port
       | PortDescriptionRole \<Rightarrow> pi_description port
       | DisplayLabelRole \<Rightarrow>
           (if pi_description port = [] then pi_portName port
            else pi_portName port @ '' - '' @ pi_description port))
       (list_at (pl_ports l) row)"

definition portNameAt :: "portList \<Rightarrow> int \<Rightarrow> string" where
  "portNameAt l row = (case list_at (pl_ports l) row of None \<Rightarrow> [] | Some port \<Rightarrow> pi_portName port)"

text \<open>The port opened for a row is the one the row's label begins with.\<close>

lemma port_label_names_port:
  "portData l row DisplayLabelRole = Some label \<Longrightarrow> take (length (portNameAt l row)) label = portNameAt l row"
  by (auto simp: portData_def portNameAt_def split: if_splits)

end
