(* ===== verification/Main_Screen.thy ===== *)
theory Main_Screen
  imports Connection_Reports Register_Table Logs Settings
begin

text \<open>
  \<open>app/qml/screens/MainScreen.qml\<close>: what the main screen does with the signals of the controller, and the
  lines of the communication log the controller makes of the manager's frames.

  \<^item> \<open>screen\<close> holds the models the screen owns, the poll mode, and the start address and quantity it asks for.
    The favorites are the controller's \<open>cc_favorites\<close>.
  \<^item> The manager's frames and the controller's signals are two lists. The screen hears both, so it sees some
    interleaving of the two; what is proved holds for each.
\<close>

section \<open>State\<close>

record 'd screen =
  sc_mode :: pollMode
  sc_table :: "'d table"
  sc_startAddressPdu :: int
  sc_quantity :: int
  sc_status :: string
  sc_log :: commLog
  sc_logger :: logger

definition newScreen :: "pollMode \<Rightarrow> 'd screen" where
  "newScreen mode = \<lparr>sc_mode = mode, sc_table = newTable, sc_startAddressPdu = 0, sc_quantity = 10,
     sc_status = [], sc_log = newLog, sc_logger = newLogger\<rparr>"

section \<open>Slots\<close>

text \<open>\<open>QString::fromLatin1(frame.toHex(' ')).toUpper()\<close>\<close>

definition hexDump :: "bytes \<Rightarrow> string" where
  "hexDump frame = toUpper (joinWith '' '' (map hex2 frame))"

text \<open>The controller's slots of \<open>frameSent\<close> and \<open>frameReceived\<close>.\<close>

fun frameLine :: "ManagerEvent \<Rightarrow> ConnSignal option" where
  "frameLine (FrameSent frame) = Some (CommunicationLogged 0 (''Tx: '' @ hexDump frame))"
| "frameLine (FrameReceived frame) = Some (CommunicationLogged 1 (''Rx: '' @ hexDump frame))"
| "frameLine _ = None"

definition status :: "string \<Rightarrow> 'd screen \<Rightarrow> 'd screen" where
  "status s sc = sc\<lparr>sc_status := s\<rparr>"

definition readStatus :: "nat \<Rightarrow> string \<Rightarrow> int \<Rightarrow> string" where
  "readStatus n what startAddress =
     ''Read '' @ number (int n) @ '' '' @ what @ ''(s) starting at '' @ number startAddress"

text \<open>The screen's slots; \<open>clock\<close> is the time of day. \<open>None\<close> is the table's read outside its index.\<close>

fun screenSlot :: "'d numerics \<Rightarrow> string \<Rightarrow> ConnSignal \<Rightarrow> 'd screen \<Rightarrow> 'd screen option" where
  "screenSlot N clock (HoldingRegistersRead startAddress vals) sc =
     map_option (\<lambda>t. status (readStatus (length vals) ''register'' startAddress) (sc\<lparr>sc_table := t\<rparr>))
       (setRegisters N startAddress vals (sc_table sc))"
| "screenSlot N clock (BitsRead startAddress vals) sc =
     Some (status (readStatus (length vals) ''bit'' startAddress)
       (sc\<lparr>sc_table := setBits N startAddress vals (sc_table sc)\<rparr>))"
| "screenSlot N clock (OperationFailed reason) sc = Some (status (''Error: '' @ reason) sc)"
| "screenSlot N clock (SingleRegisterWritten address v) sc =
     Some (status (''Wrote '' @ number v @ '' to register '' @ number address) sc)"
| "screenSlot N clock (SingleCoilWritten address v) sc =
     Some (status (''Wrote '' @ (if v then ''ON'' else ''OFF'') @ '' to coil '' @ number address) sc)"
| "screenSlot N clock (CommunicationLogged direction summary) sc =
     Some (sc\<lparr>sc_log := logAppend clock direction summary (sc_log sc),
              sc_logger := logCommunication clock direction summary (sc_logger sc)\<rparr>)"
| "screenSlot N clock (RegisterReadFailed reason) sc = Some (sc\<lparr>sc_table := tableMarkStale (sc_table sc)\<rparr>)"
| "screenSlot N clock SigConnectionLost sc = Some (sc\<lparr>sc_logger := recordDisconnect clock (sc_logger sc)\<rparr>)"
| "screenSlot N clock SigConnectionRestored sc = Some (sc\<lparr>sc_logger := recordReconnect clock (sc_logger sc)\<rparr>)"
| "screenSlot N clock _ sc = Some sc"

fun screenSlots :: "'d numerics \<Rightarrow> (string \<times> ConnSignal) list \<Rightarrow> 'd screen \<Rightarrow> 'd screen option" where
  "screenSlots N [] sc = Some sc"
| "screenSlots N ((clock, e) # es) sc = Option.bind (screenSlot N clock e sc) (screenSlots N es)"

text \<open>
  The call the screen makes of the controller from inside the slot of a confirmed write: to read again
  what it shows.
\<close>

definition readAgain :: "surroundings \<Rightarrow> int \<Rightarrow> 'd screen \<Rightarrow> 'd conn app \<Rightarrow> 'd conn app option" where
  "readAgain E now sc s =
     readRegisters E now (tb_registerType (sc_table sc)) (sc_startAddressPdu sc) (sc_quantity sc) s"

fun screenCall :: "surroundings \<Rightarrow> int \<Rightarrow> 'd screen \<Rightarrow> ConnSignal \<Rightarrow> 'd conn app \<Rightarrow> 'd conn app option" where
  "screenCall E now sc (SingleRegisterWritten address v) s = readAgain E now sc s"
| "screenCall E now sc (SingleCoilWritten address v) s = readAgain E now sc s"
| "screenCall E now sc _ s = Some s"

fun screenCalls :: "surroundings \<Rightarrow> int \<Rightarrow> 'd screen \<Rightarrow> ConnSignal list \<Rightarrow> 'd conn app \<Rightarrow> 'd conn app option" where
  "screenCalls E now sc [] s = Some s"
| "screenCalls E now sc (e # es) s = Option.bind (screenCall E now sc e s) (screenCalls E now sc es)"

section \<open>Reading frames back from their lines\<close>

definition hexDigit :: "char \<Rightarrow> nat" where
  "hexDigit c = (let n = of_char c in if n < 65 then n - 48 else n - 55)"

definition readByte :: "string \<Rightarrow> u8" where
  "readByte s = word_of_nat (foldl (\<lambda>n c. 16 * n + hexDigit c) 0 s)"

definition readBytes :: "string \<Rightarrow> bytes" where
  "readBytes s = (if s = [] then [] else map readByte (splitOn CHR '' '' s))"

lemma upper_digit:
  assumes "d < 16"
  shows "hexDigit (upper_char (digit_char d)) = d" "upper_char (digit_char d) \<noteq> CHR '' ''"
proof -
  have c: "upper_char (digit_char d) = (char_of (if d < 10 then 48 + d else 55 + d) :: char)"
    using assms by (auto simp: upper_char_def digit_char_def Let_def)
  have v: "(of_char (upper_char (digit_char d)) :: nat) = (if d < 10 then 48 + d else 55 + d)"
    unfolding c using assms by simp
  then show "hexDigit (upper_char (digit_char d)) = d" using assms by (auto simp: hexDigit_def Let_def)
  show "upper_char (digit_char d) \<noteq> CHR '' ''"
  proof
    assume "upper_char (digit_char d) = CHR '' ''"
    with v have "(if d < 10 then 48 + d else 55 + d) = 32" by simp
    then show False by (simp split: if_splits)
  qed
qed

lemma byte_digits: "unat (b :: u8) div 16 < 16"
  using u8_lt [of b] by simp

lemma hex2_digits: "hex2 b = [digit_char (unat b div 16), digit_char (unat b mod 16)]"
proof -
  have one: "nat_digits 16 n = [digit_char n]" if "n < 16" for n
    using that by (simp add: nat_digits.simps)
  show ?thesis
  proof (cases "unat b < 16")
    case True
    moreover have "digit_char 0 = CHR ''0''" by code_simp
    ultimately show ?thesis by (simp add: hex2_def one rightJustified_def)
  next
    case False
    then have "nat_digits 16 (unat b) = [digit_char (unat b div 16), digit_char (unat b mod 16)]"
      using one [OF byte_digits [of b]] by (subst nat_digits.simps) simp
    then show ?thesis by (simp add: hex2_def rightJustified_def)
  qed
qed

lemma readByte_hex2: "readByte (toUpper (hex2 b)) = b"
  by (simp add: readByte_def toUpper_def hex2_digits upper_digit byte_digits)

lemma toUpper_joinWith: "toUpper (joinWith '' '' fs) = joinWith '' '' (map toUpper fs)"
proof (induction "'' ''" fs rule: joinWith.induct)
  case (3 s t ts)
  have "upper_char CHR '' '' = CHR '' ''" by code_simp
  with 3 show ?case by (simp add: toUpper_def)
qed (simp_all add: toUpper_def)

lemma readBytes_hexDump: "readBytes (hexDump frame) = frame"
proof (cases "frame = []")
  case False
  have no_space: "CHR '' '' \<notin> set (toUpper (hex2 b))" for b
    using upper_digit(2) [OF byte_digits [of b]] upper_digit(2) [of "unat b mod 16"]
    by (auto simp: hex2_digits toUpper_def)
  let ?fs = "map (\<lambda>b. toUpper (hex2 b)) frame"
  have dump: "hexDump frame = joinWith '' '' ?fs" by (simp add: hexDump_def toUpper_joinWith comp_def)
  obtain b bs where b: "frame = b # bs" using False by (cases frame) auto
  have "joinWith '' '' ?fs \<noteq> []"
    by (cases bs) (simp_all add: b hex2_digits toUpper_def)
  moreover have "splitOn CHR '' '' (joinWith '' '' ?fs) = ?fs"
    using no_space False by (intro splitOn_joinWith) auto
  ultimately show ?thesis by (simp add: readBytes_def dump comp_def readByte_hex2)
qed (simp add: readBytes_def hexDump_def toUpper_def)

section \<open>The two logs and the history they share\<close>

text \<open>What a signal adds to the history of the log on the screen, and to that of the log file.\<close>

fun historyEntry :: "string \<times> ConnSignal \<Rightarrow> logEntry option" where
  "historyEntry (clock, CommunicationLogged direction summary) =
     Some \<lparr>le_timestamp = clock, le_direction = direction, le_summary = summary\<rparr>"
| "historyEntry _ = None"

fun sessionEntry :: "string \<times> ConnSignal \<Rightarrow> sessionEvent option" where
  "sessionEntry (clock, CommunicationLogged direction summary) = Some (Communication clock direction summary)"
| "sessionEntry (clock, SigConnectionLost) = Some (Loss clock)"
| "sessionEntry (clock, SigConnectionRestored) = Some (Restored clock)"
| "sessionEntry _ = None"

lemma slot_log:
  assumes "screenSlot N clock e sc = Some sc'" and "cl_entries (sc_log sc) = lastEntries MaxEntries h"
  shows "cl_entries (sc_log sc') = lastEntries MaxEntries (h @ List.map_filter historyEntry [(clock, e)])"
proof (cases e)
  case (CommunicationLogged direction summary)
  with assms(1) log_step [OF assms(2), of "LogAppend clock direction summary"] show ?thesis
    by (auto simp: List.map_filter_def)
qed (use assms in \<open>auto simp: List.map_filter_def status_def\<close>)

lemma slot_logger:
  assumes "screenSlot N clock e sc = Some sc'" and "logs before path date h (sc_logger sc)"
  shows "logs before path date (h @ List.map_filter sessionEntry [(clock, e)]) (sc_logger sc')"
proof (cases "sessionEntry (clock, e)")
  case (Some x)
  then have "sc_logger sc' = applyEvent x (sc_logger sc)"
    using assms(1) by (cases e) auto
  with logs_step [OF assms(2)] Some show ?thesis by (simp add: List.map_filter_def)
next
  case None
  then have "sc_logger sc' = sc_logger sc" using assms(1) by (cases e) (auto simp: status_def)
  with assms(2) None show ?thesis by (simp add: List.map_filter_def)
qed

lemma map_filter_step: "List.map_filter f (x # xs) = List.map_filter f [x] @ List.map_filter f xs"
  by (simp add: List.map_filter_def)

lemma slots_logs:
  assumes "screenSlots N es sc = Some sc'" and "cl_entries (sc_log sc) = lastEntries MaxEntries h"
    and "logs before path date h' (sc_logger sc)"
  shows "cl_entries (sc_log sc') = lastEntries MaxEntries (h @ List.map_filter historyEntry es) \<and>
    logs before path date (h' @ List.map_filter sessionEntry es) (sc_logger sc')"
  using assms
proof (induction es arbitrary: sc h h')
  case Nil
  then show ?case by (simp add: List.map_filter_def)
next
  case (Cons x es)
  obtain clock e where x: "x = (clock, e)" by (cases x)
  from Cons.prems(1) obtain sc1 where s1: "screenSlot N clock e sc = Some sc1" "screenSlots N es sc1 = Some sc'"
    by (auto simp: x bind_eq_Some_conv)
  from Cons.IH [OF s1(2) slot_log [OF s1(1) Cons.prems(2)] slot_logger [OF s1(1) Cons.prems(3)]]
  show ?case unfolding x map_filter_step [of _ "(clock, e)" es] by simp
qed

text \<open>The losses and reconnects in the history are those the controller reported.\<close>

lemma counts_map_filter:
  "losses (List.map_filter sessionEntry es) = int (length (filter ((=) SigConnectionLost) (map snd es)))"
  "restorals (List.map_filter sessionEntry es) = int (length (filter ((=) SigConnectionRestored) (map snd es)))"
proof -
  have "losses (List.map_filter sessionEntry es) = int (length (filter ((=) SigConnectionLost) (map snd es))) \<and>
    restorals (List.map_filter sessionEntry es) = int (length (filter ((=) SigConnectionRestored) (map snd es)))"
  proof (induction es)
    case (Cons x es)
    obtain clock e where x: "x = (clock, e)" by (cases x)
    show ?case using Cons by (cases e) (simp_all add: x List.map_filter_def losses_def restorals_def)
  qed (simp add: List.map_filter_def losses_def restorals_def)
  then show "losses (List.map_filter sessionEntry es) = int (length (filter ((=) SigConnectionLost) (map snd es)))"
    "restorals (List.map_filter sessionEntry es) = int (length (filter ((=) SigConnectionRestored) (map snd es)))"
    by blast+
qed

section \<open>The frames in the logs\<close>

text \<open>Reading a line of the log as the frame it shows.\<close>

definition readFrame :: "logEntry \<Rightarrow> ManagerEvent option" where
  "readFrame e =
     (if le_direction e = 0 then Some (FrameSent (readBytes (drop 4 (le_summary e))))
      else if le_direction e = 1 then Some (FrameReceived (readBytes (drop 4 (le_summary e)))) else None)"

fun isFrame :: "ManagerEvent \<Rightarrow> bool" where
  "isFrame (FrameSent _) \<longleftrightarrow> True"
| "isFrame (FrameReceived _) \<longleftrightarrow> True"
| "isFrame _ \<longleftrightarrow> False"

definition shownFrame :: "ConnSignal \<Rightarrow> ManagerEvent option" where
  "shownFrame e = Option.bind (historyEntry ([], e)) readFrame"

lemma frames_of_history:
  "List.map_filter readFrame (List.map_filter historyEntry es) = List.map_filter shownFrame (map snd es)"
proof (induction es)
  case (Cons x es)
  obtain clock e where x: "x = (clock, e)" by (cases x)
  have "Option.bind (historyEntry (clock, e)) readFrame = shownFrame e"
    by (cases e) (simp_all add: shownFrame_def readFrame_def)
  with Cons show ?case by (cases e) (auto simp: x List.map_filter_def split: option.splits)
qed (simp add: List.map_filter_def)

lemma shown_frames: "List.map_filter shownFrame (List.map_filter frameLine evs) = filter isFrame evs"
proof (induction evs)
  case (Cons ev evs)
  then show ?case
    by (cases ev) (simp_all add: List.map_filter_def shownFrame_def readFrame_def readBytes_hexDump)
qed (simp add: List.map_filter_def)

lemma map_filter_shuffles:
  assumes "zs \<in> shuffles xs ys" and "\<forall>y \<in> set ys. f y = None"
  shows "List.map_filter f zs = List.map_filter f xs"
  using assms
  by (induction xs ys arbitrary: zs rule: shuffles.induct) (auto simp: List.map_filter_def filter_empty_conv)

lemma filter_shuffled:
  assumes "zs \<in> shuffles xs ys" and "\<forall>x \<in> set xs. \<not> P x"
  shows "filter P zs = filter P ys"
  using assms by (induction xs ys arbitrary: zs rule: shuffles.induct) (auto simp: filter_empty_conv)

text \<open>C14: both logs tell the session as it was: whatever the interleaving of frames and reports the screen
  hears once the log file is started, the log on the screen holds the last 500 of its lines and the file is
  the rendering of all of it, with the losses and reconnects the controller reported counted exactly; and
  from the lines the frames that went over the wire can be read back, every byte, in their order.\<close>

theorem logs_tell_the_session:
  assumes "app_reachable N (now, s)"
    and "events (snd s) = evs0 @ evs" and "cc_signals (conn_of s) = sigs0 @ sigs"
    and "map snd es \<in> shuffles (List.map_filter frameLine evs) sigs"
    and "startLogging path True date g = (sc_logger sc, True)" and "cl_entries (sc_log sc) = []"
    and "screenSlots N es sc = Some sc'"
  shows "cl_entries (sc_log sc') = lastEntries MaxEntries (List.map_filter historyEntry es) \<and>
    lg_files (sc_logger sc') =
      (lg_files g)(path \<mapsto> startLine date @ rendering (List.map_filter sessionEntry es)) \<and>
    lg_disconnectCount (sc_logger sc') = int (length (filter ((=) SigConnectionLost) sigs)) \<and>
    lg_reconnectCount (sc_logger sc') = int (length (filter ((=) SigConnectionRestored) sigs)) \<and>
    List.map_filter readFrame (List.map_filter historyEntry es) = filter isFrame evs"
proof -
  have "logs (lg_files g) path date [] (sc_logger sc)"
    using startLogging_logs [of g path date] assms(5) by simp
  from slots_logs [OF assms(7) _ this, of "[]"] assms(6)
  have l: "cl_entries (sc_log sc') = lastEntries MaxEntries (List.map_filter historyEntry es)"
    "logs (lg_files g) path date (List.map_filter sessionEntry es) (sc_logger sc')"
    by (simp_all add: lastEntries_def)
  obtain lost where "foldl tally (Some False) (cc_signals (conn_of s)) = Some lost"
    using reachable_accounted [OF assms(1)] by (auto simp: accounted_def lossAccount_def)
  then have errors: "d = 2" if "CommunicationLogged d line \<in> set sigs" for d line
    using account_lines that unfolding assms(3) by (metis in_set_conv_decomp append.assoc)
  have "shownFrame e = None" if "e \<in> set sigs" for e
    by (cases e) (use that in \<open>auto simp: shownFrame_def readFrame_def dest: errors\<close>)
  then have "\<forall>e \<in> set sigs. shownFrame e = None" by blast
  from map_filter_shuffles [OF assms(4) this] shown_frames
  have frames: "List.map_filter readFrame (List.map_filter historyEntry es) = filter isFrame evs"
    by (simp add: frames_of_history)
  have "SigConnectionLost \<noteq> e \<and> SigConnectionRestored \<noteq> e" if "frameLine ev = Some e" for ev e
    by (cases ev) (use that in auto)
  then have none: "SigConnectionLost \<noteq> e" "SigConnectionRestored \<noteq> e"
    if "e \<in> set (List.map_filter frameLine evs)" for e
    using that unfolding List.map_filter_def by force+
  have "filter ((=) SigConnectionLost) (map snd es) = filter ((=) SigConnectionLost) sigs"
    "filter ((=) SigConnectionRestored) (map snd es) = filter ((=) SigConnectionRestored) sigs"
    by (intro filter_shuffled [OF assms(4)] ballI none, assumption)+
  with l frames show ?thesis by (simp add: logs_def counts_map_filter)
qed

end
