(* ===== verification/Connection_Samples.thy ===== *)
theory Connection_Samples
  imports Connection_Reports
begin

text \<open>
  A sample session over TCP, run from the start of the program through the controller's own calls, on
  which the theorems about runs of the application are applied.
\<close>

declare split_paired_Ex [simp del]

definition calm :: surroundings where
  "calm = \<lparr>su_tcpOpen = \<lambda>_ _. [], su_tcpClose = [], su_serialOpen = \<lambda>_ _. ([], None), su_writeError = \<lambda>_ _. None\<rparr>"

lemma reach_start: "app_reachable N (0, startApp)"
  unfolding app_reachable_def by blast

lemma reach_step: "app_reachable N x \<Longrightarrow> app_step N x y \<Longrightarrow> app_reachable N y"
  unfolding app_reachable_def by (meson rtranclp.rtrancl_into_rtrancl)

lemma reach_event: "app_reachable N x \<Longrightarrow> event_step N x y \<Longrightarrow> app_reachable N y"
  by (blast intro: reach_step app_step.event)

text \<open>The TCP form is filled in, the user connects, the socket connects.\<close>

definition chosen :: "'d conn app" where
  "chosen = onConn (\<lambda>_. setConnectionType ConnTcp newConnection) startApp"

definition dialling :: "'d conn app" where
  "dialling = prepared calm (onConn (\<lambda>c. setState Connecting (c\<lparr>cc_resumePolling := False\<rparr>)) chosen)"

definition established :: "'d conn app" where
  "established = onConn (\<lambda>c. setState Connected (c\<lparr>cc_reconnectTimer := None\<rparr>)) dialling"

lemma chosen_facts: "conn_of chosen = setConnectionType ConnTcp newConnection" "poll_of chosen = newPollEngine"
  "ready chosen"
  using startApp_ready by (simp_all add: chosen_def startApp_def)

lemma chosen_conn: "cc_connectionType (conn_of chosen) = ConnTcp" "\<not> cc_resumePolling (conn_of chosen)"
  "cc_state (conn_of chosen) = Disconnected"
  by (simp_all add: chosen_facts setConnectionType_def newConnection_def emitConn_def)

lemma connect_chosen: "connectToDevice calm 0 chosen = Some dialling"
  by (simp add: connectToDevice_def openActiveTransport_eq dialling_def openSignals_def tcpOpen_def calm_def setState_def
      emitConn_def chosen_conn)

lemma dialling_facts: "cc_state (conn_of dialling) = Connecting" "\<not> cc_resumePolling (conn_of dialling)"
  "poll_of dialling = newPollEngine" "ready dialling" "cc_connectionType (conn_of dialling) = ConnTcp"
  by (simp_all add: dialling_def chosen_facts prepared_ready)
    (simp_all add: prepared_def Let_def setState_def emitConn_def chosen_conn)

lemma dial: "transportSignal calm 0 (ConnectionStateChanged True) dialling = Some established"
  by (simp add: transportConnected_def established_def Let_def dialling_facts)

lemma established_facts: "cc_state (conn_of established) = Connected" "\<not> cc_resumePolling (conn_of established)"
  "poll_of established = newPollEngine" "\<not> m_running (poll_of established)" "ready established"
  "room 1 established" "cc_connectionType (conn_of established) = ConnTcp"
  by (simp_all add: established_def newPollEngine_def room_def setState_def emitConn_def dialling_facts)

lemma established_reachable: "app_reachable N (0, established)"
proof -
  have "app_reachable N (0, chosen)"
    unfolding chosen_def
    by (rule reach_step [OF reach_start], rule app_step.setting)
      (simp add: startApp_def setting_step.intros)
  moreover have "app_step N (0, chosen) (0, dialling)"
    by (rule app_step.connect [OF _ connect_chosen])
      (simp add: room_def chosen_facts newPollEngine_def openSignals_def tcpOpen_def calm_def chosen_conn setConnectionType_def
        emitConn_def newConnection_def)
  moreover have "event_step N (0, dialling) (0, established)"
    by (rule event_step.signal [OF _ dial]) (simp add: room_def dialling_facts newPollEngine_def)
  ultimately show ?thesis using reach_step reach_event by blast
qed

section \<open>Polling over a calm connection\<close>

lemma calm_send: "sendRequest (appWrite calm now) now uid pdu cid s = Some s' \<Longrightarrow> fst s' = fst s"
  by (cases s) (auto simp: sendRequest_def writeFrame_def appWrite_def calm_def Let_def split: option.splits)

lemma calm_pump:
  assumes "pumpLoop (appWrite calm now) now window s = Some s'"
  shows "m_running (poll_of s') = m_running (poll_of s) \<and> m_plans (poll_of s') = m_plans (poll_of s) \<and> conn_of s' = conn_of s"
  by (rule pumpLoop_preserves [where Q = "\<lambda>t. m_running (poll_of t) = m_running (poll_of s) \<and>
        m_plans (poll_of t) = m_plans (poll_of s) \<and> conn_of t = conn_of s", OF assms])
    (auto dest: calm_send)

lemma calm_cycle:
  "beginCycle (appWrite calm now) now s = Some s' \<Longrightarrow>
   m_running (poll_of s') = m_running (poll_of s) \<and> m_plans (poll_of s') = m_plans (poll_of s) \<and> conn_of s' = conn_of s"
  by (auto simp: beginCycle_def pumpRequests_def Let_def dest!: calm_pump split: if_splits)

lemma established_target:
  "normalTarget ((conn_of established)\<lparr>cc_pollRegisterType := Coil, cc_pollStartAddress := 0, cc_pollQuantity := 8\<rparr>) =
     \<lparr>pt_unitId = 1, pt_registerType = Coil, pt_startAddress = 0, pt_quantity = 8\<rparr>"
  by (simp add: normalTarget_def established_def dialling_def prepared_def Let_def chosen_facts setState_def
      setConnectionType_def newConnection_def emitConn_def)

lemma polling_started:
  obtains s where "startPolling calm 0 Coil 0 8 established = Some s" "m_running (poll_of s)" "m_plans (poll_of s) \<noteq> []"
proof -
  let ?t = "\<lparr>pt_unitId = 1, pt_registerType = Coil, pt_startAddress = 0, pt_quantity = 8\<rparr> :: PollTarget"
  obtain s where s: "startPolling calm 0 Coil 0 8 (established :: 'a conn app) = Some s"
    using startPolling_returns(1) [OF established_facts(5)] by blast
  define s0 where "s0 = onConn (\<lambda>c. c\<lparr>cc_favoritesActive := False\<rparr>)
    (onConn (\<lambda>c. c\<lparr>cc_pollRegisterType := Coil, cc_pollStartAddress := 0, cc_pollQuantity := 8\<rparr>) (established :: 'a conn app))"
  obtain s1 s2 where s1: "setTargets (appWrite calm 0) 0 [?t] s0 = Some s1"
    and s2: "startPoll (appWrite calm 0) 0 (onPoll (setIntervalMs 0 (cc_pollIntervalMs (conn_of s1))) s1) = Some s2"
    and s': "s = onConn (emitConn PollingChanged) s2"
    using s by (auto simp: startPolling_def beginPolling_def Let_def s0_def established_target bind_eq_Some_conv)
  have p0: "poll_of s0 = newPollEngine" by (simp add: s0_def established_facts)
  obtain plans where plans: "coalesce [?t] defaultCoalescingOptions = Some plans"
    using coalescer.plans_exist [OF default_options_valid] by blast
  have ne: "plans \<noteq> []"
    using coalescer.value_carried [OF default_options_valid plans, of 0 0] by auto
  have "m_plans (poll_of s1) = plans" "\<not> m_running (poll_of s1)"
    using s1 p0 plans
    by (cases s0; cases "fst s0"; auto simp: setTargets_def rebuildPlans_def Let_def newPollEngine_def)+
  with s2 ne have "m_running (poll_of s2)" "m_plans (poll_of s2) \<noteq> []"
    using calm_cycle [of 0 "onPoll (\<lambda>p. p\<lparr>m_running := True\<rparr>) (onPoll (setIntervalMs 0 (cc_pollIntervalMs (conn_of s1))) s1)" s2]
    by (simp_all add: startPoll_def)
  then show thesis using that [OF s] by (simp add: s')
qed

theorem app_polling_never_stalls_witness:
  "\<forall>N :: 'd numerics. \<exists>s. app_reachable N (0, s) \<and> m_running (poll_of s) \<and> m_plans (poll_of s) \<noteq> [] \<and>
     (m_requestsOutstanding (poll_of s) = 0 \<longrightarrow> m_intervalTimer (poll_of s) \<noteq> None)"
proof
  fix N :: "'d numerics"
  obtain s :: "'d conn app" where s: "startPolling calm 0 Coil 0 8 established = Some s"
    "m_running (poll_of s)" "m_plans (poll_of s) \<noteq> []" by (rule polling_started)
  have "app_reachable N (0, s)"
    by (rule reach_step [OF established_reachable]) (rule app_step.start [OF established_facts(6) s(1)])
  with app_polling_never_stalls [OF this s(2,3)] s(2,3)
  show "\<exists>s. app_reachable N (0, s) \<and> m_running (poll_of s) \<and> m_plans (poll_of s) \<noteq> [] \<and>
     (m_requestsOutstanding (poll_of s) = 0 \<longrightarrow> m_intervalTimer (poll_of s) \<noteq> None)" by auto
qed

text \<open>The connection is lost while polling; the poll waits for it.\<close>

theorem polling_survives_losses_witness:
  "\<forall>N :: 'd numerics. \<exists>s1 s2 :: 'd conn app. startPolling calm 0 Coil 0 8 established = Some s1 \<and>
     event_step N (0, s1) (0, s2) \<and> \<not> m_running (poll_of s2) \<and> m_targets (poll_of s2) = m_targets (poll_of s1) \<and>
     cc_state (conn_of s2) = ConnectionLost \<and> cc_resumePolling (conn_of s2)"
proof
  fix N :: "'d numerics"
  obtain s1 :: "'d conn app" where s1: "startPolling calm 0 Coil 0 8 established = Some s1"
    "m_running (poll_of s1)" by (rule polling_started)
  note survive = polling_survives_losses [OF established_reachable [of N] established_facts(4,1,2) disjI1 [OF s1(1)]]
  have up: "cc_state (conn_of s1) = Connected" using survive [OF rtranclp.rtrancl_refl] s1(2) by simp
  let ?s2 = "transportDropped 0 s1"
  have "agrees pollRel {#} 0 (established :: 'd conn app)" using app_reachable_agrees established_reachable by blast
  moreover have "room (Suc 1) (established :: 'd conn app)"
    by (simp add: room_def established_facts newPollEngine_def)
  ultimately have room: "room 1 s1" using startPolling_keeps s1(1) by blast
  have step: "event_step N (0, s1) (0, ?s2)"
    by (rule event_step.signal [OF room, where e = "ConnectionStateChanged False"]) simp
  have "\<not> m_running (poll_of ?s2)" using up by (simp add: loss_effect)
  with survive [OF r_into_rtranclp [of "event_step N", OF step]] s1(1) step
  show "\<exists>s1 s2 :: 'd conn app. startPolling calm 0 Coil 0 8 established = Some s1 \<and>
     event_step N (0, s1) (0, s2) \<and> \<not> m_running (poll_of s2) \<and> m_targets (poll_of s2) = m_targets (poll_of s1) \<and>
     cc_state (conn_of s2) = ConnectionLost \<and> cc_resumePolling (conn_of s2)" by auto
qed



text \<open>A loss and the reconnect after it.\<close>

theorem reconnects_follow_losses_witness:
  "\<forall>N :: 'd numerics. \<exists>(s :: 'd conn app) xs us vs. app_reachable N (0, s) \<and>
     cc_signals (conn_of s) = xs @ [SigConnectionRestored] \<and> xs = us @ SigConnectionLost # vs"
proof
  fix N :: "'d numerics"
  let ?s = "transportDropped 0 established :: 'd conn app"
  have "event_step N (0, established) (0, ?s)"
    by (rule event_step.signal [OF established_facts(6), where e = "ConnectionStateChanged False"]) simp
  then have r: "app_reachable N (0, ?s)" by (rule reach_event [OF established_reachable])
  have lost: "cc_state (conn_of ?s) = ConnectionLost" "\<not> cc_resumePolling (conn_of ?s)" "room 1 ?s"
    using established_facts(6) by (simp_all add: loss_effect established_facts(1,2,4) room_def)
  define s2 where "s2 = onConn (emitConn SigConnectionRestored)
    (onConn (\<lambda>c. setState Connected (c\<lparr>cc_reconnectTimer := None\<rparr>)) ?s)"
  have "transportSignal calm 0 (ConnectionStateChanged True) ?s = Some s2"
    using lost by (simp add: transportConnected_def s2_def Let_def setState_def)
  with lost(3) have "event_step N (0, ?s) (0, s2)" by (rule event_step.signal)
  then have r2: "app_reachable N (0, s2)" by (rule reach_event [OF r])
  obtain xs where xs: "cc_signals (conn_of s2) = xs @ SigConnectionRestored # []"
    by (simp add: s2_def emitConn_def)
  with reconnects_follow_losses [OF r2] r2
  show "\<exists>(s :: 'd conn app) xs us vs. app_reachable N (0, s) \<and>
     cc_signals (conn_of s) = xs @ [SigConnectionRestored] \<and> xs = us @ SigConnectionLost # vs" by blast
qed

end
