(* ===== verification/Connection_Requests.thy ===== *)
theory Connection_Requests
  imports Connection_Samples
begin

text \<open>
  One-shot requests among the engine's, and the controller on a serial port.
\<close>

declare split_paired_Ex [simp del]

section \<open>One-shot requests\<close>

text \<open>Sending leaves what the controller remembers of the request alone, even when the write fails.\<close>

definition pendingOf :: "'d conn \<Rightarrow> PendingOperation \<times> int \<times> int \<times> u64" where
  "pendingOf c = (cc_pendingOperation c, cc_pendingStartAddress c, cc_pendingQuantity c, cc_pendingCorrelationId c)"

lemma pendingOf_simps [simp]:
  "pendingOf (emitConn e c) = pendingOf c" "pendingOf (setState st c) = pendingOf c"
  "pendingOf (c\<lparr>cc_errorMessage := msg\<rparr>) = pendingOf c" "pendingOf (c\<lparr>cc_resumePolling := r\<rparr>) = pendingOf c"
  "pendingOf (c\<lparr>cc_reconnectTimer := t\<rparr>) = pendingOf c"
  by (simp_all add: pendingOf_def emitConn_def setState_def)

lemma error_pending [simp]: "pendingOf (conn_of (handleTransportError t msg s)) = pendingOf (conn_of s)"
  by (simp add: handleTransportError_def transportDropped_def stopPolling_def Let_def)

lemma send_pending:
  "sendRequest (appWrite E now) now uid pdu cid s = Some s' \<Longrightarrow> pendingOf (conn_of s') = pendingOf (conn_of s)"
  by (cases s) (auto simp: sendRequest_def writeFrame_def appWrite_def Let_def split: option.splits)

lemma sendOneShot_pending:
  assumes "sendOneShot E now pdu s = Some s'"
  shows "pendingOf (conn_of s') = pendingOf ((conn_of s)\<lparr>cc_pendingCorrelationId := cc_pendingCorrelationId (conn_of s) + 1\<rparr>)"
  using assms by (auto simp: sendOneShot_def Let_def dest: send_pending)

text \<open>No answer to the engine is taken for the answer to a one-shot request.\<close>

lemma engine_answers_ignored:
  assumes "uint (cc_pendingCorrelationId c) < 4294967296" and "m_generation p \<noteq> 0"
  shows "handleResponseReceived (makeCorrelationId p i) pdu c = Some c"
    "handleRequestFailed (makeCorrelationId p i) reason c = c"
proof -
  have "makeCorrelationId p i \<noteq> cc_pendingCorrelationId c"
    using one_shot_generation [OF assms(1), of p] assms(2) isCurrentGeneration_make [of p p i] by metis
  then show "handleResponseReceived (makeCorrelationId p i) pdu c = Some c"
    "handleRequestFailed (makeCorrelationId p i) reason c = c"
    by (simp_all add: handleResponseReceived_def handleRequestFailed_def)
qed



section \<open>On a serial port\<close>

text \<open>\<open>QSerialPort::open\<close> on a port that is open fails (\<open>QSerialPort::OpenError\<close>).\<close>

definition refusesOpenPort :: "surroundings \<Rightarrow> bool" where
  "refusesOpenPort E \<longleftrightarrow> (\<forall>settings. snd (su_serialOpen E True settings) \<noteq> None)"

fun reconnectAttempts :: "(surroundings \<times> int) list \<Rightarrow> 'd conn app \<Rightarrow> 'd conn app option" where
  "reconnectAttempts [] s = Some s"
| "reconnectAttempts ((E, now) # rest) s = Option.bind (reconnectTimerFires E now s) (reconnectAttempts rest)"

definition stuck :: "'d conn \<Rightarrow> bool" where
  "stuck c \<longleftrightarrow> cc_connectionType c = ConnRtu \<and> cc_portName c \<noteq> [] \<and> se_isOpen (cc_serial c) \<and> cc_state c = ConnectionLost"

lemma stuck_error: "stuck (conn_of s) \<Longrightarrow> stuck (conn_of (handleTransportError t msg s))"
  by (simp add: stuck_def handleTransportError_def transportDropped_def Let_def emitConn_def)

lemma stuck_errors:
  "stuck (conn_of s) \<Longrightarrow> \<exists>s'. transportSignals E now (map ErrorOccurred msgs) s = Some s' \<and> stuck (conn_of s')"
proof (induction msgs arbitrary: s)
  case (Cons m msgs)
  from Cons.IH [OF stuck_error [OF Cons.prems]] show ?case by simp
qed simp

lemma stuck_attempt:
  assumes "stuck (conn_of s)" and "refusesOpenPort E"
  shows "\<exists>s'. reconnectTimerFires E now s = Some s' \<and> stuck (conn_of s')"
proof -
  let ?s = "onConn (\<lambda>c. c\<lparr>cc_reconnectTimer := None\<rparr>) s" and ?c = "conn_of s"
  let ?port = "serialSetSettings (serialSettingsOf ?c) (cc_serial ?c)"
  have open': "se_isOpen ?port" "ps_portName (se_settings ?port) \<noteq> []"
    using assms(1) by (simp_all add: stuck_def serialSetSettings_def serialSettingsOf_def)
  obtain errs e where port: "su_serialOpen E True (se_settings ?port) = (errs, Some e)"
    using assms(2) by (metis refusesOpenPort_def option.exhaust prod.exhaust snd_conv)
  have refused: "serialOpen (su_serialOpen E) ?port = (?port, map ErrorOccurred
      (errs @ [''Could not open '' @ ps_portName (se_settings ?port) @ '': '' @ e]), False)"
    using open' port by (simp add: serialOpen_def)
  have settings: "serialSettingsOf (?c\<lparr>cc_reconnectTimer := None\<rparr>) = serialSettingsOf ?c"
    by (simp add: serialSettingsOf_def)
  have "openSignals E (conn_of ?s) = map ErrorOccurred (errs @ [''Could not open '' @ ps_portName (se_settings ?port) @ '': '' @ e])"
    using assms(1) refused settings by (simp add: openSignals_def stuck_def)
  moreover have "stuck (conn_of (prepared E ?s))"
    using assms(1) refused settings by (simp add: prepared_def Let_def stuck_def serialSetSettings_def)
  moreover have "reconnectTimerFires E now s = openActiveTransport E now ?s"
    using assms(1) by (simp add: reconnectTimerFires_def beginReconnectAttempt_def stuck_def)
  ultimately show ?thesis using stuck_errors by (simp only: openActiveTransport_eq) blast
qed

lemma stuck_attempts:
  "stuck (conn_of s) \<Longrightarrow> \<forall>(E, now) \<in> set attempts. refusesOpenPort E \<Longrightarrow>
   \<exists>s'. reconnectAttempts attempts s = Some s' \<and> stuck (conn_of s')"
proof (induction attempts arbitrary: s)
  case (Cons x attempts)
  obtain E now where x: "x = (E, now)" by (cases x)
  obtain s1 where "reconnectTimerFires E now s = Some s1" "stuck (conn_of s1)"
    using stuck_attempt [OF Cons.prems(1)] Cons.prems(2) x by fastforce
  with Cons.IH [of s1] Cons.prems(2) show ?case by (simp add: x)
qed simp

text \<open>C34: over a serial port a lost connection never comes back by itself: an error on the open port
  starts the reconnect loop without closing the port, and every attempt tries to open the port that is
  still open, which \<open>QSerialPort\<close> refuses; so after any number of attempts the connection is still
  lost, although the port is open all the time.\<close>

theorem serial_reconnect_never_succeeds:
  assumes "cc_connectionType (conn_of s) = ConnRtu" and "cc_portName (conn_of s) \<noteq> []"
    and "se_isOpen (cc_serial (conn_of s))" and "cc_state (conn_of s) = Connected"
    and "\<forall>(E, now) \<in> set attempts. refusesOpenPort E"
  shows "\<exists>s'. reconnectAttempts attempts (handleTransportError now msg s) = Some s' \<and>
    cc_state (conn_of s') = ConnectionLost \<and> se_isOpen (cc_serial (conn_of s'))"
proof -
  have "stuck (conn_of (handleTransportError now msg s))"
    using assms(1-4) by (simp add: stuck_def handleTransportError_def transportDropped_def stopPolling_def Let_def
        setState_def emitConn_def)
  from stuck_attempts [OF this assms(5)] show ?thesis by (auto simp: stuck_def)
qed

text \<open>A port that opens once and refuses to be opened twice, unplugged and retried twice.\<close>

definition portOnce :: surroundings where
  "portOnce = calm\<lparr>su_serialOpen := \<lambda>isOpen _. ([], if isOpen then Some ''Device is already open'' else None)\<rparr>"

definition plugged :: "'d conn app" where
  "plugged = onConn (\<lambda>c. c\<lparr>cc_portName := ''COM3'', cc_state := Connected,
     cc_serial := (cc_serial c)\<lparr>se_isOpen := True\<rparr>\<rparr>) startApp"

lemma plugged_facts: "cc_connectionType (conn_of plugged) = ConnRtu" "cc_portName (conn_of plugged) \<noteq> []"
  "se_isOpen (cc_serial (conn_of plugged))" "cc_state (conn_of plugged) = Connected"
  by (simp_all add: plugged_def startApp_def newConnection_def)

theorem serial_reconnect_never_succeeds_witness:
  "\<exists>s' :: 'd conn app. reconnectAttempts [(portOnce, 5000), (portOnce, 10000)]
       (handleTransportError 0 ''Resource error'' plugged) = Some s' \<and> cc_state (conn_of s') = ConnectionLost"
proof -
  have "\<forall>(E, now) \<in> set [(portOnce, 5000), (portOnce, 10000 :: int)]. refusesOpenPort E"
    by (simp add: refusesOpenPort_def portOnce_def)
  from serial_reconnect_never_succeeds [OF plugged_facts this] show ?thesis by blast
qed

text \<open>C35: disconnecting from a serial port is reported as a lost connection: the port reports that it
  closed while the controller is still connected, so before it becomes disconnected the screen gets
  \<open>connectionLost\<close>, and the reconnect timer is left running (where it finds nothing to do).\<close>

theorem serial_disconnect_reported_as_loss:
  assumes "cc_connectionType (conn_of s) = ConnRtu" and "se_isOpen (cc_serial (conn_of s))"
    and "cc_state (conn_of s) = Connected"
  shows "\<exists>s' news. disconnectFromDevice E now s = Some s' \<and>
    cc_signals (conn_of s') = cc_signals (conn_of s) @ news @ [StateChanged, SigConnectionLost, StateChanged] \<and>
    cc_state (conn_of s') = Disconnected \<and> cc_reconnectTimer (conn_of s') \<noteq> None"
proof -
  let ?s = "onConn (\<lambda>c. c\<lparr>cc_favoritesActive := False\<rparr>)
      (stopPolling (onConn (\<lambda>c. c\<lparr>cc_reconnectTimer := None, cc_resumePolling := False\<rparr>) s))"
  have s: "cc_connectionType (conn_of ?s) = ConnRtu" "se_isOpen (cc_serial (conn_of ?s))" "cc_state (conn_of ?s) = Connected"
    "\<not> m_running (poll_of ?s)"
    and news: "\<exists>news. cc_signals (conn_of ?s) = cc_signals (conn_of s) @ news"
    using assms by (auto simp: stopPolling_def emitConn_def)
  have "disconnectFromDevice E now s =
      Some (onConn (setState Disconnected) (transportDropped now (onConn closed ?s)))"
    using s by (simp add: disconnectFromDevice_def Let_def closeActiveTransport_eq closeSignals_def serialClose_def
        del: onConn_onConn)
  moreover obtain news where "cc_signals (conn_of ?s) = cc_signals (conn_of s) @ news" using news ..
  ultimately show ?thesis
    using s by (intro exI [of _ news] exI conjI)
      (auto simp: transportDropped_def closed_def setState_def emitConn_def Let_def)
qed

theorem serial_disconnect_reported_as_loss_witness:
  "\<exists>s' :: 'd conn app. disconnectFromDevice calm 0 plugged = Some s' \<and> SigConnectionLost \<in> set (cc_signals (conn_of s'))"
  using serial_disconnect_reported_as_loss [OF plugged_facts(1,3,4), of calm 0] by force

end
