(* ===== verification/Screen_Runs.thy ===== *)
theory Screen_Runs
  imports Main_Screen Connection_Requests
begin

text \<open>
  Runs of the program with its main screen: the controls of \<open>app/qml/screens/MainScreen.qml\<close> and
  \<open>app/qml/Main.qml\<close> as steps beside the events of \<open>Connection_Runs\<close>, and the screen's slot of a confirmed
  write, which calls the controller from inside the report.

  \<^item> While the connection is lost, \<open>DisconnectedWatermark\<close> covers every control but its own two; while there is
    none, the main screen does not exist.
  \<^item> Controls of the favorites are only there in Favorites mode.
\<close>

declare split_paired_Ex [simp del] split_paired_All [simp del]

section \<open>A confirmed write\<close>

text \<open>\<open>handleResponseReceived\<close> with the slots of the screen where they run: inside the report.\<close>

definition responseShown :: "surroundings \<Rightarrow> int \<Rightarrow> 'd screen \<Rightarrow> u64 \<Rightarrow> bytes \<Rightarrow> 'd conn app \<Rightarrow> 'd conn app option" where
  "responseShown E now sc cid pdu s =
     (if cid \<noteq> cc_pendingCorrelationId (conn_of s) then Some s
      else do { c \<leftarrow> reportPending pdu (conn_of s);
                s1 \<leftarrow> screenCalls E now sc (drop (length (cc_signals (conn_of s))) (cc_signals c)) (onConn (\<lambda>_. c) s);
                Some (onConn (\<lambda>c. c\<lparr>cc_pendingOperation := NoOperation\<rparr>) s1) })"

text \<open>Either no call is made, or the one to read again, after what \<open>handleResponseReceived\<close> does alone.\<close>

lemma report_signals: "\<exists>es. cc_signals (report signal r c) = cc_signals c @ es \<and> length es \<le> Suc 0"
  by (cases r) (simp_all add: report_def emitConn_def)

lemma reportPending_signals:
  assumes "reportPending pdu c = Some c'"
  shows "\<exists>es. cc_signals c' = cc_signals c @ es \<and> length es \<le> Suc 0"
  using assms by (auto simp: reportPending_def Let_def report_signals split: PendingOperation.splits)

lemma onConn_same: "onConn (\<lambda>_. conn_of s) s = s"
  by (cases s; cases "fst s") (simp add: onConn_def)

lemma readAgain_forgets: "readAgain E now sc (onConn (\<lambda>c. c\<lparr>cc_pendingOperation := op\<rparr>) s) = readAgain E now sc s"
  by (cases s; cases "fst s") (simp add: readAgain_def readRegisters_def onConn_def)

lemma screenCalls_single:
  assumes "screenCalls E now sc es s = Some s'" and "length es \<le> 1"
  shows "s' = s \<or> readAgain E now sc s = Some s'"
proof (cases es)
  case (Cons e es')
  then have "screenCall E now sc e s = Some s'" using assms by (auto simp: bind_eq_Some_conv)
  then show ?thesis by (cases e) auto
qed (use assms in simp)

text \<open>So as steps of the application, what the screen does inside the slot is a call after it, and then the
  slot's last line.\<close>

lemma shown_is_a_later_call:
  assumes "responseShown E now sc cid pdu s = Some s'"
  shows "\<exists>c. handleResponseReceived cid pdu (conn_of s) = Some c \<and>
    (s' = onConn (\<lambda>_. c) s \<or> (\<exists>s1. readAgain E now sc (onConn (\<lambda>_. c) s) = Some s1 \<and>
      s' = onConn (\<lambda>c. c\<lparr>cc_pendingOperation := NoOperation\<rparr>) s1))"
proof (cases "cid = cc_pendingCorrelationId (conn_of s)")
  case True
  let ?forget = "\<lambda>c :: 'a conn. c\<lparr>cc_pendingOperation := NoOperation\<rparr>"
  from True assms obtain c s1 where c: "reportPending pdu (conn_of s) = Some c"
    and s1: "screenCalls E now sc (drop (length (cc_signals (conn_of s))) (cc_signals c)) (onConn (\<lambda>_. c) s) = Some s1"
    and s': "s' = onConn ?forget s1"
    by (auto simp: responseShown_def bind_eq_Some_conv)
  have "length (drop (length (cc_signals (conn_of s))) (cc_signals c)) \<le> 1"
    using reportPending_signals [OF c] by auto
  from screenCalls_single [OF s1 this] readAgain_forgets [of E now sc NoOperation "onConn (\<lambda>_. c) s"]
  have "s' = onConn (\<lambda>_. ?forget c) s \<or> readAgain E now sc (onConn (\<lambda>_. ?forget c) s) = Some s1"
    unfolding s' by (auto simp: comp_def)
  moreover have "handleResponseReceived cid pdu (conn_of s) = Some (?forget c)"
    using True c by (simp add: handleResponseReceived_def)
  ultimately show ?thesis using s' by blast
next
  case False
  then show ?thesis using assms
    by (intro exI [of _ "conn_of s"]) (simp add: responseShown_def handleResponseReceived_def onConn_same)
qed

text \<open>Signals and events are only ever added.\<close>

lemma error_adds:
  "\<exists>es. cc_signals (conn_of (handleTransportError t msg s)) = cc_signals (conn_of s) @ es"
  "\<exists>es. events (snd (handleTransportError t msg s)) = events (snd s) @ es"
  by (auto simp: handleTransportError_def transportDropped_def stopPolling_def setState_def emitConn_def Let_def
      stopPoll_def cancelAll_def emitSignal_def onPoll_def onManager_def onConn_def split: prod.splits)

lemma send_adds:
  assumes "sendRequest (appWrite E now) now uid pdu cid s = Some s'"
  shows "\<exists>es. cc_signals (conn_of s') = cc_signals (conn_of s) @ es"
    and "\<exists>frame es. events (snd s') = events (snd s) @ RequestQueued cid # FrameSent frame # es"
proof -
  obtain m t frame where w: "appWrite E now t frame (fst s, m) = Some s'"
    and m: "\<exists>es. events m = events (snd s) @ RequestQueued cid # FrameSent frame # es"
    using assms by (cases s) (auto simp: sendRequest_def writeFrame_def emitSignal_def Let_def split: option.splits)
  from w have "s' = (fst s, m) \<or> (\<exists>e. s' = handleTransportError now e (fst s, m))"
    by (auto simp: appWrite_def split: option.splits)
  with m error_adds [of now _ "(fst s, m)"]
  show "\<exists>es. cc_signals (conn_of s') = cc_signals (conn_of s) @ es"
    and "\<exists>frame es. events (snd s') = events (snd s) @ RequestQueued cid # FrameSent frame # es" by fastforce+
qed

lemma one_shot_sends:
  assumes "sendOneShot E now pdu s = Some s'"
  shows "cc_pendingCorrelationId (conn_of s') = cc_pendingCorrelationId (conn_of s) + 1"
    and "\<exists>es. cc_signals (conn_of s') = cc_signals (conn_of s) @ es"
    and "\<exists>frame es. events (snd s') = events (snd s) @
      RequestQueued (cc_pendingCorrelationId (conn_of s) + 1) # FrameSent frame # es"
proof -
  from sendOneShot_pending [OF assms]
  show "cc_pendingCorrelationId (conn_of s') = cc_pendingCorrelationId (conn_of s) + 1" by (simp add: pendingOf_def)
  let ?s = "onConn (\<lambda>c. c\<lparr>cc_pendingCorrelationId := cc_pendingCorrelationId c + 1\<rparr>) s"
  obtain uid where "sendRequest (appWrite E now) now uid pdu (cc_pendingCorrelationId (conn_of s) + 1) ?s = Some s'"
    using assms by (auto simp: sendOneShot_def Let_def)
  from send_adds [OF this]
  show "\<exists>es. cc_signals (conn_of s') = cc_signals (conn_of s) @ es"
    and "\<exists>frame es. events (snd s') = events (snd s) @
      RequestQueued (cc_pendingCorrelationId (conn_of s) + 1) # FrameSent frame # es" by simp_all
qed

lemma readAgain_sends:
  assumes "readAgain E now sc s = Some s'"
  shows "cc_pendingCorrelationId (conn_of s') = cc_pendingCorrelationId (conn_of s) + 1"
    and "\<exists>es. cc_signals (conn_of s') = cc_signals (conn_of s) @ es"
    and "\<exists>frame es. events (snd s') = events (snd s) @
      RequestQueued (cc_pendingCorrelationId (conn_of s) + 1) # FrameSent frame # es"
  using one_shot_sends [OF assms [unfolded readAgain_def readRegisters_def]] by simp_all

text \<open>C36: after a confirmed write the screen asks the device for the registers it shows, and never shows the
  answer: the request is queued from inside the report of the write, whose last line then forgets what the
  request was for, so whatever the device answers to it changes nothing, neither values nor status.\<close>

theorem reread_answer_is_dropped:
  assumes "cc_pendingOperation (conn_of s) = OpWriteSingleRegister"
    and "responseShown E now sc (cc_pendingCorrelationId (conn_of s)) (encodeWriteSingleRegisterRequest a v) s = Some s'"
  shows "SingleRegisterWritten (uint a) (uint v) \<in> set (cc_signals (conn_of s')) \<and>
    cc_pendingCorrelationId (conn_of s') = cc_pendingCorrelationId (conn_of s) + 1 \<and>
    (\<exists>frame es. events (snd s') = events (snd s) @
      RequestQueued (cc_pendingCorrelationId (conn_of s')) # FrameSent frame # es) \<and>
    (\<forall>answer. handleResponseReceived (cc_pendingCorrelationId (conn_of s')) answer (conn_of s') = Some (conn_of s'))"
proof -
  let ?c = "emitConn (SingleRegisterWritten (uint a) (uint v)) (conn_of s)"
  have "decodeWriteSingleRegisterResponse (encodeWriteSingleRegisterRequest a v) = Some (Ok \<lparr>ws_address = a, ws_value = v\<rparr>)"
    using write_echo_roundtrip by blast
  then have report: "reportPending (encodeWriteSingleRegisterRequest a v) (conn_of s) = Some ?c"
    by (simp add: reportPending_def assms(1) report_def)
  have new: "drop (length (cc_signals (conn_of s))) (cc_signals ?c) = [SingleRegisterWritten (uint a) (uint v)]"
    by (simp add: emitConn_def)
  from assms(2) obtain s1 where s1: "readAgain E now sc (onConn (\<lambda>_. ?c) s) = Some s1"
    and s': "s' = onConn (\<lambda>c. c\<lparr>cc_pendingOperation := NoOperation\<rparr>) s1"
    by (auto simp: responseShown_def report new bind_eq_Some_conv)
  from readAgain_sends [OF s1] have id: "cc_pendingCorrelationId (conn_of s1) = cc_pendingCorrelationId (conn_of s) + 1"
    and "\<exists>es. cc_signals (conn_of s1) = cc_signals ?c @ es"
    and "\<exists>frame es. events (snd s1) = events (snd s) @
      RequestQueued (cc_pendingCorrelationId (conn_of s) + 1) # FrameSent frame # es"
    by (simp_all add: emitConn_def)
  then show ?thesis
    by (auto simp: s' emitConn_def handleResponseReceived_def reportPending_def)
qed

section \<open>An edited cell\<close>

text \<open>The screen relays what the table asks for; \<open>sent\<close> are the signals of one edit.\<close>

fun relayEdit :: "surroundings \<Rightarrow> int \<Rightarrow> TableSignal \<Rightarrow> 'd conn app \<Rightarrow> 'd conn app option" where
  "relayEdit E now (WriteRequested address v) s = writeSingleRegister E now address v s"
| "relayEdit E now (CoilWriteRequested address v) s = writeSingleCoil E now address v s"
| "relayEdit E now _ s = Some s"

fun relayEdits :: "surroundings \<Rightarrow> int \<Rightarrow> TableSignal list \<Rightarrow> 'd conn app \<Rightarrow> 'd conn app option" where
  "relayEdits E now [] s = Some s"
| "relayEdits E now (e # es) s = Option.bind (relayEdit E now e s) (relayEdits E now es)"

definition cellEdited ::
    "'d numerics \<Rightarrow> surroundings \<Rightarrow> int \<Rightarrow> int \<Rightarrow> string \<Rightarrow> 'd screen \<Rightarrow> 'd conn app \<Rightarrow> ('d screen \<times> 'd conn app) option" where
  "cellEdited N E now r input sc s =
     (let t = setValueAt N r input (sc_table sc);
          sent = drop (length (tb_signals (sc_table sc))) (tb_signals t)
      in map_option (Pair (sc\<lparr>sc_table := t\<rparr>)) (relayEdits E now sent s))"

lemma emitWrites_signals:
  "tb_signals (emitWrites a raw t) =
     tb_signals t @ map (\<lambda>k. WriteRequested (a + int k) (uint (raw ! k))) [0..<length raw]"
proof -
  have "tb_signals (foldl (\<lambda>t k. emitTable (f k) t) t ks) = tb_signals t @ map f ks" for f ks
    by (induction ks arbitrary: t) (simp_all add: emitTable_def)
  then show ?thesis by (simp add: emitWrites_def)
qed

lemma pair_parsed:
  assumes "registerSpanFor (fs_format settings) = 2" and "snd (parseValue N settings input)"
  obtains hi lo where "parseValue N settings input = ([hi, lo], True)"
proof (cases "toDouble N (stripUnit settings input)")
  case (Some d)
  with assms that show thesis
    by (cases "fs_format settings"; cases "fs_byteOrder settings") (auto simp: parseValue_def unpackToRegisters_def Let_def)
qed (use assms in \<open>cases "fs_format settings"; simp add: parseValue_def Let_def\<close>)

lemma write_sends:
  assumes "writeSingleRegister E now a v s = Some s'"
  shows "cc_pendingCorrelationId (conn_of s') = cc_pendingCorrelationId (conn_of s) + 1"
    and "\<exists>frame es. events (snd s') = events (snd s) @
      RequestQueued (cc_pendingCorrelationId (conn_of s) + 1) # FrameSent frame # es"
  using one_shot_sends [OF assms [unfolded writeSingleRegister_def]] by simp_all


section \<open>Controls\<close>

definition retargetFavoritesPollingIfActive ::
    "surroundings \<Rightarrow> int \<Rightarrow> 'd screen \<Rightarrow> 'd conn app \<Rightarrow> 'd conn app option" where
  "retargetFavoritesPollingIfActive E now sc s =
     (if m_running (poll_of s) \<and> pm_mode (sc_mode sc) = FavoritesMode
      then startPollingFavorites E now True s else Some s)"

text \<open>A control that edits the favorites, and then calls the function above.\<close>

definition favoritesEdited ::
    "'d numerics \<Rightarrow> surroundings \<Rightarrow> int \<Rightarrow> 'd favOp \<Rightarrow> 'd screen \<Rightarrow> 'd conn app \<Rightarrow> 'd conn app option" where
  "favoritesEdited N E now op sc s =
     do { f \<leftarrow> applyFavOp N op (cc_favorites (conn_of s));
          retargetFavoritesPollingIfActive E now sc (onConn (\<lambda>c. c\<lparr>cc_favorites := f\<rparr>) s) }"

text \<open>Polling what the screen shows.\<close>

definition startShown :: "surroundings \<Rightarrow> int \<Rightarrow> 'd screen \<Rightarrow> 'd conn app \<Rightarrow> 'd conn app option" where
  "startShown E now sc s =
     (if pm_mode (sc_mode sc) = FavoritesMode then startPollingFavorites E now True s
      else startPolling E now (tb_registerType (sc_table sc)) (sc_startAddressPdu sc) (sc_quantity sc) s)"

text \<open>The poll button, the mode box with the slot of \<open>modeChanged\<close>, and the register type box. The field for
  the quantity bounds its value when the type changes.\<close>

definition pollClicked :: "surroundings \<Rightarrow> int \<Rightarrow> 'd screen \<Rightarrow> 'd conn app \<Rightarrow> 'd conn app option" where
  "pollClicked E now sc s = (if m_running (poll_of s) then Some (stopPolling s) else startShown E now sc s)"

definition modeActivated ::
    "surroundings \<Rightarrow> int \<Rightarrow> Mode \<Rightarrow> 'd screen \<Rightarrow> 'd conn app \<Rightarrow> ('d screen \<times> 'd conn app) option" where
  "modeActivated E now mode sc s =
     (let sc' = sc\<lparr>sc_mode := setMode mode (sc_mode sc)\<rparr>
      in if pm_mode (sc_mode sc) = mode \<or> \<not> m_running (poll_of s) then Some (sc', s)
         else map_option (Pair sc') (startShown E now sc' s))"

definition typeActivated ::
    "'d numerics \<Rightarrow> surroundings \<Rightarrow> int \<Rightarrow> RegisterType \<Rightarrow> 'd screen \<Rightarrow> 'd conn app \<Rightarrow>
      ('d screen \<times> 'd conn app) option" where
  "typeActivated N E now ty sc s =
     (let t = setRegisterType N ty (sc_table sc);
          sc' = sc\<lparr>sc_table := t, sc_quantity := min (sc_quantity sc) (tableMaxReadCount t)\<rparr>
      in if m_running (poll_of s) \<and> pm_mode (sc_mode sc) = NormalMode
         then map_option (Pair sc') (startShown E now sc' s) else Some (sc', s))"

section \<open>Runs with the screen\<close>

text \<open>The controls of the main screen can be used.\<close>

abbreviation usable :: "'d conn app \<Rightarrow> bool" where
  "usable s \<equiv> cc_state (conn_of s) \<noteq> Disconnected \<and> cc_state (conn_of s) \<noteq> ConnectionLost"

inductive screen_step ::
    "'d numerics \<Rightarrow> int \<times> 'd screen \<times> 'd conn app \<Rightarrow> int \<times> 'd screen \<times> 'd conn app \<Rightarrow> bool" for N where
  event: "event_step N (now, s) (now', s') \<Longrightarrow> screen_step N (now, sc, s) (now', sc, s')"
| slot: "e \<in> set (cc_signals (conn_of s)) \<or> (\<exists>ev \<in> set (events (snd s)). frameLine ev = Some e) \<Longrightarrow>
    screenSlot N clock e sc = Some sc' \<Longrightarrow> screen_step N (now, sc, s) (now, sc', s)"
| setting: "setting_step N (conn_of s) c \<Longrightarrow> cc_favorites c = cc_favorites (conn_of s) \<Longrightarrow>
    screen_step N (now, sc, s) (now, sc, onConn (\<lambda>_. c) s)"
| poll_interval: "screen_step N (now, sc, s) (now, sc, setPollIntervalMs now ms s)"
| connect: "room (length (openSignals E (conn_of s))) s \<Longrightarrow> connectToDevice E now s = Some s' \<Longrightarrow>
    screen_step N (now, sc, s) (now, sc, s')"
| disconnect: "room (length (closeSignals E (conn_of s))) s \<Longrightarrow> disconnectFromDevice E now s = Some s' \<Longrightarrow>
    screen_step N (now, sc, s) (now, sc, s')"
| new_screen: "cc_state (conn_of s) = Disconnected \<Longrightarrow>
    screen_step N (now, sc, s) (now, newScreen (sc_mode sc), onConn (\<lambda>c. c\<lparr>cc_favorites := newFavorites\<rparr>) s)"
| poll: "usable s \<Longrightarrow> room 1 s \<Longrightarrow> pollClicked E now sc s = Some s' \<Longrightarrow> screen_step N (now, sc, s) (now, sc, s')"
| mode: "usable s \<Longrightarrow> room 1 s \<Longrightarrow> modeActivated E now m sc s = Some (sc', s') \<Longrightarrow>
    screen_step N (now, sc, s) (now, sc', s')"
| register_type: "usable s \<Longrightarrow> room 1 s \<Longrightarrow> typeActivated N E now ty sc s = Some (sc', s') \<Longrightarrow>
    screen_step N (now, sc, s) (now, sc', s')"
| edit: "usable s \<Longrightarrow> room 1 s \<Longrightarrow> pm_mode (sc_mode sc) = FavoritesMode \<Longrightarrow>
    favoritesEdited N E now op sc s = Some s' \<Longrightarrow> screen_step N (now, sc, s) (now, sc, s')"
| range: "screen_step N (now, sc, s) (now, sc\<lparr>sc_startAddressPdu := a, sc_quantity := q\<rparr>, s)"
| table: "(\<And>ty. op \<noteq> SetRegisterType ty) \<Longrightarrow> applyTableOp N op (sc_table sc) = Some t \<Longrightarrow>
    screen_step N (now, sc, s) (now, sc\<lparr>sc_table := t\<rparr>, s)"
| logging: "screen_step N (now, sc, s) (now, sc\<lparr>sc_log := l, sc_logger := g\<rparr>, s)"
| one_shot: "uint (cc_pendingCorrelationId (conn_of s) + 1) < 4294967296 \<Longrightarrow>
    readRegisters E now ty a q s = Some s' \<or> writeSingleRegister E now a v s = Some s' \<or>
    writeSingleCoil E now a b s = Some s' \<Longrightarrow> screen_step N (now, sc, s) (now, sc, s')"

definition screen_reachable :: "'d numerics \<Rightarrow> int \<times> 'd screen \<times> 'd conn app \<Rightarrow> bool" where
  "screen_reachable N x \<longleftrightarrow> (\<exists>start. (screen_step N)\<^sup>*\<^sup>* (start, newScreen newPollMode, startApp) x)"

text \<open>Such a run is a run of the application, with the screen left out.\<close>

lemma onConn_const: "onConn (\<lambda>_. g (conn_of s)) s = onConn g s"
  by (cases s; cases "fst s") (simp add: onConn_def)

lemma favorites_step: "applyFavOp N op (cc_favorites (conn_of s)) = Some f \<Longrightarrow>
    app_step N (now, s) (now, onConn (\<lambda>c. c\<lparr>cc_favorites := f\<rparr>) s)"
  using app_step.setting [OF setting_step.intros(13), of N op s f now] onConn_const [of "\<lambda>c. c\<lparr>cc_favorites := f\<rparr>" s]
  by simp

lemma startShown_step: "room 1 s \<Longrightarrow> startShown E now sc s = Some s' \<Longrightarrow> app_step N (now, s) (now, s')"
  by (auto simp: startShown_def intro: app_step.start app_step.favorites split: if_splits)

lemma screen_step_app:
  assumes "screen_step N (now, sc, s) (now', sc', s')"
  shows "(app_step N)\<^sup>*\<^sup>* (now, s) (now', s')"
  using assms
proof cases
  case event
  then show ?thesis by (blast intro: app_step.event)
next
  case (setting c)
  then show ?thesis by (blast intro: app_step.setting)
next
  case (poll_interval ms)
  then show ?thesis by (blast intro: app_step.poll_interval)
next
  case (connect E)
  then show ?thesis by (blast intro: app_step.connect)
next
  case (disconnect E)
  then show ?thesis by (blast intro: app_step.disconnect)
next
  case new_screen
  have "app_step N (now, s) (now, onConn (\<lambda>_. (conn_of s)\<lparr>cc_favorites := newFavorites\<rparr>) s)"
    by (rule app_step.setting) (rule setting_step.intros)
  then show ?thesis using new_screen onConn_const [of "\<lambda>c. c\<lparr>cc_favorites := newFavorites\<rparr>" s] by auto
next
  case (poll E)
  then have "app_step N (now, s) (now, s')"
    using app_step.stop startShown_step by (simp add: pollClicked_def split: if_splits) blast
  then show ?thesis using poll by blast
next
  case (mode E m)
  then have "s' = s \<or> app_step N (now, s) (now, s')"
    using startShown_step [where s = s and s' = s'] by (auto simp: modeActivated_def Let_def split: if_splits)
  then show ?thesis using mode by blast
next
  case (register_type E ty)
  then have "s' = s \<or> app_step N (now, s) (now, s')"
    using startShown_step [where s = s and s' = s'] by (auto simp: typeActivated_def Let_def split: if_splits)
  then show ?thesis using register_type by blast
next
  case (edit E op)
  then obtain f where f: "applyFavOp N op (cc_favorites (conn_of s)) = Some f"
    and r: "retargetFavoritesPollingIfActive E now sc (onConn (\<lambda>c. c\<lparr>cc_favorites := f\<rparr>) s) = Some s'"
    by (auto simp: favoritesEdited_def bind_eq_Some_conv)
  let ?s = "onConn (\<lambda>c. c\<lparr>cc_favorites := f\<rparr>) s"
  have "room 1 ?s" using edit by (simp add: room_def)
  then have "s' = ?s \<or> app_step N (now, ?s) (now, s')"
    using r by (auto simp: retargetFavoritesPollingIfActive_def intro: app_step.favorites split: if_splits)
  then show ?thesis using favorites_step [OF f, of now] edit(1)
    by (auto intro: converse_rtranclp_into_rtranclp)
next
  case (one_shot E ty a q v b)
  then show ?thesis by (blast intro: app_step.one_shot)
qed auto

lemma screen_reachable_app:
  assumes "screen_reachable N (now, sc, s)"
  shows "app_reachable N (now, s)"
proof -
  obtain start where run: "(screen_step N)\<^sup>*\<^sup>* (start, newScreen newPollMode, startApp) (now, sc, s)"
    using assms by (auto simp: screen_reachable_def)
  have "(app_step N)\<^sup>*\<^sup>* (start, startApp) (fst y, snd (snd y))"
    if "(screen_step N)\<^sup>*\<^sup>* (start, newScreen newPollMode, startApp) y" for y
    using that
  proof (induction rule: rtranclp_induct)
    case (step y z)
    then show ?case
      using screen_step_app [of N "fst y" "fst (snd y)" "snd (snd y)" "fst z" "fst (snd z)" "snd (snd z)"] by simp
  qed simp
  from this [OF run] show ?thesis by (auto simp: app_reachable_def)
qed

end
