(* ===== verification/Screen_Polling.thy ===== *)
theory Screen_Polling
  imports Screen_Runs
begin

text \<open>
  The engine polls what the screen shows. \<open>aimed\<close> is what holds while polling is being started, whatever the
  writes raise; \<open>follows\<close> what holds of a screen in between. Both fulfil the contracts of
  \<open>Connection_Session\<close>.
\<close>

declare split_paired_Ex [simp del] split_paired_All [simp del]

section \<open>Starting\<close>

lemma pollMembers_eq: "pollMembers c' = pollMembers c \<longleftrightarrow> cc_favoritesActive c' = cc_favoritesActive c \<and>
    cc_pollRegisterType c' = cc_pollRegisterType c \<and> (\<forall>u. targetsFor u c' = targetsFor u c)"
  by (simp add: pollMembers_def fun_eq_iff)

definition shownBy :: "Mode \<Rightarrow> RegisterType \<Rightarrow> 'd conn \<Rightarrow> bool" where
  "shownBy mode ty c \<longleftrightarrow> (cc_favoritesActive c \<longleftrightarrow> mode = FavoritesMode) \<and>
     (\<not> cc_favoritesActive c \<longrightarrow> cc_pollRegisterType c = ty)"

lemma shownBy_members: "pollMembers c' = pollMembers c \<Longrightarrow> shownBy mode ty c' = shownBy mode ty c"
  by (simp add: pollMembers_eq shownBy_def)

lemma loss_shows [simp]:
  "cc_favoritesActive (conn_of (handleTransportError t msg s)) = cc_favoritesActive (conn_of s)"
  "cc_favoritesActive (conn_of (transportDropped t s)) = cc_favoritesActive (conn_of s)"
  "targetsFor u (conn_of (handleTransportError t msg s)) = targetsFor u (conn_of s)"
  "targetsFor u (conn_of (transportDropped t s)) = targetsFor u (conn_of s)"
  "shownBy mode ty (conn_of (handleTransportError t msg s)) = shownBy mode ty (conn_of s)"
  "shownBy mode ty (conn_of (transportDropped t s)) = shownBy mode ty (conn_of s)"
  using error_effect(4) [of t msg s] loss_effect(4) [of t s] by (simp_all add: pollMembers_eq shownBy_def)

lemma timer_shows [simp]:
  "targetsFor u (c\<lparr>cc_reconnectTimer := t\<rparr>) = targetsFor u c"
  "shownBy mode ty (c\<lparr>cc_reconnectTimer := t\<rparr>) = shownBy mode ty c"
  by (simp_all add: targetsFor_def normalTarget_def shownBy_def cong: if_cong)

definition aimed :: "Mode \<Rightarrow> RegisterType \<Rightarrow> u8 \<Rightarrow> poll \<times> 'd conn \<Rightarrow> bool" where
  "aimed mode ty u pc \<longleftrightarrow> (cc_resumePolling (snd pc) \<longrightarrow> cc_state (snd pc) = ConnectionLost) \<and>
     cc_state (snd pc) \<noteq> Disconnected \<and> shownBy mode ty (snd pc) \<and> m_targets (fst pc) = targetsFor u (snd pc)"

lemma members_same: "sameSession c c' \<Longrightarrow> pollMembers c' = pollMembers c"
  by (simp add: sameSession_def)

interpretation aimed: session_contract "aimed mode ty u" for mode ty u
proof
  show "aimed mode ty u (p, c) \<Longrightarrow> sameSession c c' \<Longrightarrow> aimed mode ty u (p, c')" for p and c c' :: "'a conn"
    using shownBy_members [OF members_same, of c c'] members_same [of c c']
    by (simp add: aimed_def sameSession_def pollMembers_eq)
  show "aimed mode ty u (fst s) \<Longrightarrow> aimed mode ty u (fst (handleTransportError t msg s))" for s :: "'a conn app" and t msg
    by (auto simp: aimed_def error_effect)
qed (simp add: aimed_def)

lemma beginPolling_aims:
  assumes "beginPolling E now ts fav s = Some s'" and "sound {#} now (snd s)"
    and "cc_resumePolling (conn_of s) \<longrightarrow> cc_state (conn_of s) = ConnectionLost"
    and "cc_state (conn_of s) \<noteq> Disconnected"
    and "shownBy mode ty ((conn_of s)\<lparr>cc_favoritesActive := fav\<rparr>)"
    and "ts = targetsFor u ((conn_of s)\<lparr>cc_favoritesActive := fav\<rparr>)"
  shows "agrees (\<lambda>_ _. aimed mode ty u) {#} now s'"
proof -
  define s0 where "s0 = onConn (\<lambda>c. c\<lparr>cc_favoritesActive := fav\<rparr>) s"
  have s0: "sound {#} now (snd s0)" using assms(2) by (simp add: s0_def)
  obtain s1 s2 where s1: "setTargets (appWrite E now) now ts s0 = Some s1"
    and s2: "startPoll (appWrite E now) now (onPoll (setIntervalMs now (cc_pollIntervalMs (conn_of s1))) s1) = Some s2"
    and s': "s' = onConn (emitConn PollingChanged) s2"
    using assms(1) by (auto simp: beginPolling_def s0_def bind_eq_Some_conv)
  obtain t where t: "conn_of t = conn_of s0" "m_targets (poll_of t) = ts" "sound {#} now (snd t)"
      "s1 = t \<or> beginCycle (appWrite E now) now t = Some s1"
    using setTargets_conn [OF s1 s0] by blast
  have "agrees (\<lambda>_ _. aimed mode ty u) {#} now t"
    using t(1-3) assms(3-6) by (simp add: agrees_def aimed_def s0_def)
  with t(4) aimed.beginCycle_agrees have K1: "agrees (\<lambda>_ _. aimed mode ty u) {#} now s1" by blast
  let ?s1 = "onPoll (setIntervalMs now (cc_pollIntervalMs (conn_of s1))) s1"
  have "s2 = ?s1 \<or> beginCycle (appWrite E now) now (onPoll (\<lambda>p. p\<lparr>m_running := True\<rparr>) ?s1) = Some s2"
    using s2 by (simp add: startPoll_def split: if_splits)
  moreover have "agrees (\<lambda>_ _. aimed mode ty u) {#} now ?s1"
    "agrees (\<lambda>_ _. aimed mode ty u) {#} now (onPoll (\<lambda>p. p\<lparr>m_running := True\<rparr>) ?s1)"
    using K1 by (simp_all add: agrees_def aimed_def)
  ultimately have "agrees (\<lambda>_ _. aimed mode ty u) {#} now s2" using aimed.beginCycle_agrees by blast
  then show ?thesis unfolding s' by (rule aimed.on_controller) simp
qed

section \<open>In between\<close>

definition follows :: "Mode \<Rightarrow> RegisterType \<Rightarrow> poll \<times> 'd conn \<Rightarrow> bool" where
  "follows mode ty pc \<longleftrightarrow> (cc_resumePolling (snd pc) \<longrightarrow> cc_state (snd pc) = ConnectionLost) \<and>
     (cc_state (snd pc) = Disconnected \<longrightarrow> \<not> m_running (fst pc) \<and> \<not> cc_favoritesActive (snd pc)) \<and>
     (m_running (fst pc) \<or> cc_resumePolling (snd pc) \<longrightarrow> shownBy mode ty (snd pc)) \<and>
     (m_running (fst pc) \<longrightarrow> (\<exists>u. m_targets (fst pc) = targetsFor u (snd pc)))"

lemma aimed_follows: "agrees (\<lambda>_ _. aimed mode ty u) X now s \<Longrightarrow> agrees (\<lambda>_ _. follows mode ty) X now s"
  by (auto simp: agrees_def aimed_def follows_def)

lemma startShown_follows:
  assumes "startShown E now sc s = Some s'" and "sound {#} now (snd s)"
    and "cc_resumePolling (conn_of s) \<longrightarrow> cc_state (conn_of s) = ConnectionLost"
    and "cc_state (conn_of s) \<noteq> Disconnected"
  shows "agrees (\<lambda>_ _. follows (pm_mode (sc_mode sc)) (tb_registerType (sc_table sc))) {#} now s'"
proof (cases "pm_mode (sc_mode sc) = FavoritesMode")
  case True
  let ?u = "word_of_int (cc_unitId (conn_of s)) :: u8"
  have "beginPolling E now (buildPollTargets ?u (cc_favorites (conn_of s))) True s = Some s'"
    using assms(1) True by (simp add: startShown_def startPollingFavorites_def)
  from beginPolling_aims [OF this assms(2-4), where mode = FavoritesMode and u = ?u] True
  show ?thesis by (intro aimed_follows) (simp add: shownBy_def targetsFor_def)
next
  case False
  define g where "g = (\<lambda>c :: 'a conn. c\<lparr>cc_pollRegisterType := tb_registerType (sc_table sc),
      cc_pollStartAddress := sc_startAddressPdu sc, cc_pollQuantity := sc_quantity sc\<rparr>)"
  let ?u = "word_of_int (cc_unitId (conn_of s)) :: u8"
  have mode: "pm_mode (sc_mode sc) = NormalMode" using False by (cases "pm_mode (sc_mode sc)") simp_all
  have "beginPolling E now [normalTarget (g (conn_of s))] False (onConn g s) = Some s'"
    using assms(1) False by (simp add: startShown_def startPolling_def g_def Let_def)
  from beginPolling_aims [OF this, where mode = NormalMode and u = ?u and ty = "tb_registerType (sc_table sc)"] assms(2-4)
  show ?thesis unfolding mode by (intro aimed_follows) (simp add: shownBy_def targetsFor_def g_def normalTarget_def)
qed

text \<open>Polling that resumes is started as it was.\<close>

lemma resumed_follows:
  assumes "cc_favoritesActive (conn_of s) \<and> startPollingFavorites E now True s = Some s' \<or>
      \<not> cc_favoritesActive (conn_of s) \<and> startPolling E now (cc_pollRegisterType (conn_of s))
        (cc_pollStartAddress (conn_of s)) (cc_pollQuantity (conn_of s)) s = Some s'"
    and "sound {#} now (snd s)" and "\<not> cc_resumePolling (conn_of s)" and "cc_state (conn_of s) \<noteq> Disconnected"
    and "shownBy mode ty (conn_of s)"
  shows "agrees (\<lambda>_ _. follows mode ty) {#} now s'"
proof -
  let ?c = "conn_of s" and ?u = "word_of_int (cc_unitId (conn_of s)) :: u8"
  have same: "?c\<lparr>cc_favoritesActive := cc_favoritesActive ?c\<rparr> = ?c" by simp
  have "beginPolling E now (polledTargets ?c) (cc_favoritesActive ?c) s = Some s'"
    using assms(1) restart_eq [of s E now] by (cases "cc_favoritesActive ?c") simp_all
  from beginPolling_aims [OF this assms(2) _ assms(4), where mode = mode and ty = ty and u = ?u] assms(3,5)
  show ?thesis unfolding same polledTargets_for by (intro aimed_follows) simp
qed

lemma transportConnected_follows:
  assumes "transportConnected E now s = Some s'" and K: "agrees (\<lambda>_ _. follows mode ty) {#} now s"
  shows "agrees (\<lambda>_ _. follows mode ty) {#} now s'"
proof -
  define g where "g = (\<lambda>c :: 'a conn. (if cc_state (conn_of s) = ConnectionLost then emitConn SigConnectionRestored else id)
      (setState Connected (c\<lparr>cc_reconnectTimer := None\<rparr>)))"
  define h where "h = (\<lambda>c. (g c)\<lparr>cc_resumePolling := False\<rparr>)"
  have g: "cc_state (g c) = Connected" "pollMembers (g c) = pollMembers c" "cc_resumePolling (g c) = cc_resumePolling c"
    and h: "cc_state (h c) = Connected" "pollMembers (h c) = pollMembers c" "\<not> cc_resumePolling (h c)" for c
    by (simp_all add: g_def h_def)
  show ?thesis
  proof (cases "cc_resumePolling (conn_of s)")
    case True
    have "cc_favoritesActive (conn_of (onConn h s)) \<and> startPollingFavorites E now True (onConn h s) = Some s' \<or>
      \<not> cc_favoritesActive (conn_of (onConn h s)) \<and> startPolling E now (cc_pollRegisterType (conn_of (onConn h s)))
        (cc_pollStartAddress (conn_of (onConn h s))) (cc_pollQuantity (conn_of (onConn h s))) (onConn h s) = Some s'"
      using assms(1) True by (cases "cc_state (conn_of s) = ConnectionLost")
        (simp_all add: transportConnected_def Let_def g_def h_def comp_def split: if_splits)
    from resumed_follows [OF this, of mode ty] show ?thesis
      using K True h shownBy_members [OF h(2) [of "conn_of s"]] by (simp add: agrees_def follows_def)
  next
    case False
    then have s': "s' = onConn g s"
      using assms(1) by (cases "cc_state (conn_of s) = ConnectionLost")
        (simp_all add: transportConnected_def Let_def g_def comp_def)
    from K False show ?thesis
      using g(2) [of "conn_of s"] shownBy_members [OF g(2) [of "conn_of s"]] unfolding s'
      by (simp add: agrees_def follows_def g(1,3) pollMembers_eq)
  qed
qed

interpretation following: unattended_session "follows mode ty" for mode ty
proof
  show "follows mode ty (p, c) \<Longrightarrow> sameSession c c' \<Longrightarrow> follows mode ty (p, c')" for p and c c' :: "'a conn"
    using shownBy_members [OF members_same, of c c'] members_same [of c c']
    by (simp add: follows_def sameSession_def pollMembers_eq)
  show "follows mode ty (fst s) \<Longrightarrow> follows mode ty (fst (handleTransportError t msg s))" for s :: "'a conn app" and t msg
    by (auto simp: follows_def error_effect)
  show "follows mode ty (fst s) \<Longrightarrow> follows mode ty (fst (transportDropped t s))" for s :: "'a conn app" and t
    by (auto simp: follows_def loss_effect split: if_splits)
  show "follows mode ty (p, c) \<Longrightarrow> follows mode ty (p, c\<lparr>cc_reconnectTimer := None\<rparr>)" for p and c :: "'a conn"
    by (simp add: follows_def)
qed (auto simp: follows_def intro: transportConnected_follows)

section \<open>Disconnected by the user\<close>

text \<open>Nothing refers to the favorites any more, whatever the transports report.\<close>

definition released :: "poll \<times> 'd conn \<Rightarrow> bool" where
  "released pc \<longleftrightarrow> ended pc \<and> \<not> cc_favoritesActive (snd pc)"

lemma released_connected:
  assumes "agrees (\<lambda>_ _. released) {#} now s" and "transportConnected E now s = Some s'"
  shows "agrees (\<lambda>_ _. released) {#} now s'"
proof -
  have "\<not> cc_resumePolling (conn_of s)" using assms(1) by (simp add: agrees_def released_def ended_def)
  then have "s' = onConn (\<lambda>c. (if cc_state (conn_of s) = ConnectionLost then emitConn SigConnectionRestored else id)
      (setState Connected (c\<lparr>cc_reconnectTimer := None\<rparr>))) s"
    using assms(2) by (cases "cc_state (conn_of s) = ConnectionLost")
      (simp_all add: transportConnected_def Let_def comp_def)
  with assms(1) show ?thesis by (simp add: agrees_def released_def ended_def setState_def)
qed

interpretation released: unattended_session released
  by unfold_locales
    (auto simp: released_def ended_def sameSession_def pollMembers_eq error_effect loss_effect intro: released_connected)

lemma disconnect_releases:
  assumes "disconnectFromDevice E now s = Some s'" and "sound {#} now (snd s)"
  shows "agrees (\<lambda>_ _. released) {#} now s'" and "cc_state (conn_of s') = Disconnected"
proof -
  let ?s = "onConn (\<lambda>c. c\<lparr>cc_favoritesActive := False\<rparr>)
      (stopPolling (onConn (\<lambda>c. c\<lparr>cc_reconnectTimer := None, cc_resumePolling := False\<rparr>) s))"
  have s: "agrees (\<lambda>_ _. released) {#} now ?s"
    using assms(2) by (simp add: agrees_def released_def ended_def stopPolling_def stopPoll_sound)
  obtain s1 where s1: "transportSignals E now (closeSignals E (conn_of ?s)) (onConn closed ?s) = Some s1"
    and s': "s' = onConn (setState Disconnected) s1"
    using assms(1) by (auto simp: disconnectFromDevice_def closeActiveTransport_eq Let_def simp del: onConn_onConn)
  have "agrees (\<lambda>_ _. released) {#} now s1"
    by (rule released.signals_agree [OF s1]) (rule released.on_controller [OF s], simp)
  then show "agrees (\<lambda>_ _. released) {#} now s'" "cc_state (conn_of s') = Disconnected"
    by (simp_all add: s' agrees_def released_def ended_def setState_def)
qed

section \<open>Every step of the screen\<close>

lemma members_settings [simp]:
  "pollMembers (c\<lparr>cc_host := v1\<rparr>) = pollMembers c" "pollMembers (c\<lparr>cc_port := v2\<rparr>) = pollMembers c"
  "pollMembers (c\<lparr>cc_unitId := v3\<rparr>) = pollMembers c" "pollMembers (c\<lparr>cc_timeoutMs := v4\<rparr>) = pollMembers c"
  "pollMembers (c\<lparr>cc_retryCount := v5\<rparr>) = pollMembers c" "pollMembers (c\<lparr>cc_pollIntervalMs := v6\<rparr>) = pollMembers c"
  "pollMembers (c\<lparr>cc_reconnectIntervalMs := v7\<rparr>) = pollMembers c" "pollMembers (c\<lparr>cc_connectionType := v8\<rparr>) = pollMembers c"
  "pollMembers (c\<lparr>cc_portName := v9\<rparr>) = pollMembers c" "pollMembers (c\<lparr>cc_baudRate := v10\<rparr>) = pollMembers c"
  "pollMembers (c\<lparr>cc_dataBits := v11\<rparr>) = pollMembers c" "pollMembers (c\<lparr>cc_parity := v12\<rparr>) = pollMembers c"
  "pollMembers (c\<lparr>cc_stopBits := v13\<rparr>) = pollMembers c" "pollMembers (c\<lparr>cc_pendingOperation := v14\<rparr>) = pollMembers c"
  "pollMembers (c\<lparr>cc_pendingStartAddress := v15\<rparr>) = pollMembers c" "pollMembers (c\<lparr>cc_pendingQuantity := v16\<rparr>) = pollMembers c"
  "pollMembers (c\<lparr>cc_pendingCorrelationId := v17\<rparr>) = pollMembers c"
  by (simp_all add: pollMembers_def targetsFor_def normalTarget_def cong: if_cong)

lemma settings_follow:
  assumes "setting_step N c c'" and "cc_favorites c' = cc_favorites c"
  shows "cc_state c' = cc_state c \<and> cc_resumePolling c' = cc_resumePolling c \<and> pollMembers c' = pollMembers c"
  using assms(1)
proof cases
  case (13 op f)
  with assms(2) have "c' = c" by simp
  then show ?thesis by simp
next
  case 14
  with assms(2) have "c' = c" by simp
  then show ?thesis by simp
qed (auto simp: setHost_def setPort_def setUnitId_def setConnTimeoutMs_def setConnRetryCount_def
      setReconnectIntervalMs_def setConnectionType_def setPortName_def setBaudRate_def setDataBits_def
      setParity_def setStopBits_def)

lemma follows_same:
  "follows mode ty (p, c) \<Longrightarrow> cc_state c' = cc_state c \<Longrightarrow> cc_resumePolling c' = cc_resumePolling c \<Longrightarrow>
   pollMembers c' = pollMembers c \<Longrightarrow> follows mode ty (p, c')"
  by (simp add: follows_def pollMembers_eq shownBy_def)

lemma follows_controller:
  assumes "agrees (\<lambda>_ _. follows mode ty) {#} now s" and "cc_state (g (conn_of s)) = cc_state (conn_of s)"
    and "cc_resumePolling (g (conn_of s)) = cc_resumePolling (conn_of s)"
    and "pollMembers (g (conn_of s)) = pollMembers (conn_of s)"
  shows "agrees (\<lambda>_ _. follows mode ty) {#} now (onConn g s)"
  using assms follows_same [of mode ty "poll_of s" "conn_of s" "g (conn_of s)"]
  by (cases s; cases "fst s") (simp add: agrees_def onConn_def)

lemma one_shot_follows:
  assumes "readRegisters E now ty' a q s = Some s' \<or> writeSingleRegister E now a v s = Some s' \<or>
      writeSingleCoil E now a b s = Some s'"
    and K: "agrees (\<lambda>_ _. follows mode ty) {#} now s"
  shows "agrees (\<lambda>_ _. follows mode ty) {#} now s'"
proof -
  from assms(1) obtain g pdu where one: "sendOneShot E now pdu (onConn g s) = Some s'"
    and g: "cc_state (g (conn_of s)) = cc_state (conn_of s)" "cc_resumePolling (g (conn_of s)) = cc_resumePolling (conn_of s)"
      "pollMembers (g (conn_of s)) = pollMembers (conn_of s)"
    unfolding readRegisters_def writeSingleRegister_def writeSingleCoil_def
    using that by (elim disjE) simp_all
  let ?s = "onConn (\<lambda>c. c\<lparr>cc_pendingCorrelationId := cc_pendingCorrelationId c + 1\<rparr>) (onConn g s)"
  have "agrees (\<lambda>_ _. follows mode ty) {#} now (onConn g s)" by (rule follows_controller [where g = g, OF K g])
  then have "agrees (\<lambda>_ _. follows mode ty) {#} now ?s" by (rule follows_controller) simp_all
  with one show ?thesis unfolding sendOneShot_def Let_def by (rule following.send_agrees)
qed

text \<open>What the table is, and that slots and edits leave its type alone.\<close>

definition builtTable :: "'d numerics \<Rightarrow> 'd table \<Rightarrow> bool" where
  "builtTable N t \<longleftrightarrow> (\<exists>ops. runTable N ops newTable = Some t)"

lemma runTable_append: "runTable N (ops @ ops') t = Option.bind (runTable N ops t) (runTable N ops')"
  by (induction ops arbitrary: t) (simp_all split: bind_split)

lemma builtTable_step: "builtTable N t \<Longrightarrow> applyTableOp N op t = Some t' \<Longrightarrow> builtTable N t'"
  unfolding builtTable_def by (metis bind.bind_lunit runTable.simps runTable_append)

lemma tableOp_type:
  "applyTableOp N op t = Some t' \<Longrightarrow> (\<And>ty. op \<noteq> SetRegisterType ty) \<Longrightarrow> tb_registerType t' = tb_registerType t"
proof (cases op)
  case (SetValueAt r input)
  have "tb_registerType (emitWrites a raw t) = tb_registerType t" for a raw
  proof -
    have "tb_registerType (foldl (\<lambda>t k. emitTable (f k) t) t ks) = tb_registerType t" for f ks
      by (induction ks rule: rev_induct) (simp_all add: emitTable_def)
    then show ?thesis by (simp add: emitWrites_def)
  qed
  with SetValueAt show "applyTableOp N op t = Some t' \<Longrightarrow> tb_registerType t' = tb_registerType t"
    by (auto simp: setValueAt_def split: option.splits if_splits prod.splits)
qed (auto simp: setRegisters_def setBits_def setBitAt_def setFormatAt_def tableMarkStale_def setAddressConvention_def
    emitTable_def clearStale_def rebuild_eq Let_def bind_eq_Some_conv split: option.splits if_splits prod.splits)

lemma slot_table:
  assumes "screenSlot N clock e sc = Some sc'"
  shows "sc_mode sc' = sc_mode sc \<and> (sc_table sc' = sc_table sc \<or>
    (\<exists>op. (\<forall>ty. op \<noteq> SetRegisterType ty) \<and> applyTableOp N op (sc_table sc) = Some (sc_table sc')))"
proof (cases e)
  case (HoldingRegistersRead a vals)
  with assms show ?thesis by (auto simp: status_def intro!: exI [of _ "SetRegisters a vals"])
next
  case (BitsRead a vals)
  with assms show ?thesis by (auto simp: status_def intro!: exI [of _ "SetBits a vals"])
next
  case (RegisterReadFailed reason)
  with assms show ?thesis by (auto intro!: exI [of _ MarkStale])
qed (use assms in \<open>auto simp: status_def\<close>)

definition screenOk :: "'d numerics \<Rightarrow> int \<Rightarrow> 'd screen \<Rightarrow> 'd conn app \<Rightarrow> bool" where
  "screenOk N now sc s \<longleftrightarrow> builtTable N (sc_table sc) \<and>
     agrees (\<lambda>_ _. follows (pm_mode (sc_mode sc)) (tb_registerType (sc_table sc))) {#} now s"

text \<open>With usable controls nothing waits to resume, so a stopped engine follows any screen.\<close>

lemma stopped_follows:
  assumes "agrees (\<lambda>_ _. follows mode ty) {#} now s" and "usable s" and "\<not> m_running (poll_of s)"
  shows "agrees (\<lambda>_ _. follows mode' ty') {#} now s"
  using assms by (auto simp: agrees_def follows_def)

lemma usable_starts:
  assumes "agrees (\<lambda>_ _. follows mode ty) {#} now s" and "usable s" and "startShown E now sc s = Some s'"
  shows "agrees (\<lambda>_ _. follows (pm_mode (sc_mode sc)) (tb_registerType (sc_table sc))) {#} now s'"
  by (rule startShown_follows [OF assms(3)]) (use assms(1,2) in \<open>auto simp: agrees_def follows_def\<close>)

lemma connect_follows:
  assumes "connectToDevice E now s = Some s'" and K: "agrees (\<lambda>_ _. follows mode ty) {#} now s"
  shows "agrees (\<lambda>_ _. follows mode ty) {#} now s'"
proof -
  let ?g = "\<lambda>c :: 'a conn. setState Connecting (c\<lparr>cc_resumePolling := False\<rparr>)"
  have m: "pollMembers (?g c) = pollMembers c" for c by simp
  have "agrees (\<lambda>_ _. follows mode ty) {#} now (onConn ?g s)"
    using K m [of "conn_of s"] shownBy_members [OF m, of mode ty] unfolding pollMembers_eq
    by (simp add: agrees_def follows_def)
  then have "agrees (\<lambda>_ _. follows mode ty) {#} now (prepared E (onConn ?g s))" by (rule following.prepared_agrees)
  moreover from assms(1) have "transportSignals E now (openSignals E (conn_of (onConn ?g s))) (prepared E (onConn ?g s)) = Some s'"
    by (simp add: connectToDevice_def openActiveTransport_eq del: onConn_onConn)
  ultimately show ?thesis by (blast intro: following.signals_agree)
qed

lemma disconnect_follows:
  assumes "disconnectFromDevice E now s = Some s'" and "agrees (\<lambda>_ _. follows mode ty) {#} now s"
  shows "agrees (\<lambda>_ _. follows mode' ty') {#} now s'"
  using disconnect_releases [OF assms(1)] assms(2) by (auto simp: agrees_def released_def ended_def follows_def)

lemma edit_follows:
  assumes "favoritesEdited N E now op sc s = Some s'" and "usable s" and "pm_mode (sc_mode sc) = FavoritesMode"
    and K: "agrees (\<lambda>_ _. follows FavoritesMode ty) {#} now s"
  shows "agrees (\<lambda>_ _. follows FavoritesMode ty') {#} now s'"
proof -
  obtain f where r: "retargetFavoritesPollingIfActive E now sc (onConn (\<lambda>c. c\<lparr>cc_favorites := f\<rparr>) s) = Some s'"
    using assms(1) by (auto simp: favoritesEdited_def bind_eq_Some_conv)
  let ?s = "onConn (\<lambda>c. c\<lparr>cc_favorites := f\<rparr>) s"
  show ?thesis
  proof (cases "m_running (poll_of s)")
    case True
    let ?sc = "sc\<lparr>sc_table := (sc_table sc)\<lparr>tb_registerType := ty'\<rparr>\<rparr>"
    have "startShown E now ?sc ?s = Some s'"
      using r True assms(3) by (simp add: retargetFavoritesPollingIfActive_def startShown_def)
    from startShown_follows [OF this] K assms(2,3) show ?thesis by (auto simp: agrees_def follows_def)
  next
    case False
    then have "s' = ?s" using r by (simp add: retargetFavoritesPollingIfActive_def)
    then show ?thesis using K assms(2) False by (auto simp: agrees_def follows_def)
  qed
qed

lemma modeActivated_cases:
  assumes "modeActivated E now mode sc s = Some (sc', s')"
  shows "sc' = sc\<lparr>sc_mode := setMode mode (sc_mode sc)\<rparr>"
    and "pm_mode (sc_mode sc) = mode \<and> s' = s \<or> \<not> m_running (poll_of s) \<and> s' = s \<or> startShown E now sc' s = Some s'"
  using assms
  by (cases "pm_mode (sc_mode sc) = mode \<or> \<not> m_running (poll_of s)";
      fastforce simp: modeActivated_def Let_def)+

lemma typeActivated_cases:
  assumes "typeActivated N E now ty sc s = Some (sc', s')"
  shows "sc_table sc' = setRegisterType N ty (sc_table sc)" and "sc_mode sc' = sc_mode sc"
    and "\<not> m_running (poll_of s) \<and> s' = s \<or> pm_mode (sc_mode sc) = FavoritesMode \<and> s' = s \<or>
      startShown E now sc' s = Some s'"
proof -
  have "sc_table sc' = setRegisterType N ty (sc_table sc) \<and> sc_mode sc' = sc_mode sc \<and>
    (\<not> m_running (poll_of s) \<and> s' = s \<or> pm_mode (sc_mode sc) = FavoritesMode \<and> s' = s \<or>
      startShown E now sc' s = Some s')"
    using assms by (cases "m_running (poll_of s)"; cases "pm_mode (sc_mode sc)")
      (fastforce simp: typeActivated_def Let_def)+
  then show "sc_table sc' = setRegisterType N ty (sc_table sc)" and "sc_mode sc' = sc_mode sc"
    and "\<not> m_running (poll_of s) \<and> s' = s \<or> pm_mode (sc_mode sc) = FavoritesMode \<and> s' = s \<or>
      startShown E now sc' s = Some s'" by blast+
qed

lemma screen_step_ok:
  assumes "screen_step N (now, sc, s) (now', sc', s')" and ok: "screenOk N now sc s"
  shows "screenOk N now' sc' s'"
proof -
  have built: "builtTable N (sc_table sc)"
    and K: "agrees (\<lambda>_ _. follows (pm_mode (sc_mode sc)) (tb_registerType (sc_table sc))) {#} now s"
    using ok by (simp_all add: screenOk_def)
  show ?thesis using assms(1)
  proof cases
    case event
    then show ?thesis using following.event_agrees [OF event(2) K] built by (simp add: screenOk_def)
  next
    case (slot e clock)
    have "builtTable N (sc_table sc') \<and> tb_registerType (sc_table sc') = tb_registerType (sc_table sc) \<and> sc_mode sc' = sc_mode sc"
      using slot_table [OF slot(4)] built builtTable_step tableOp_type by metis
    then show ?thesis using K slot by (simp add: screenOk_def)
  next
    case (setting c)
    have "agrees (\<lambda>_ _. follows (pm_mode (sc_mode sc)) (tb_registerType (sc_table sc))) {#} now (onConn (\<lambda>_. c) s)"
      by (rule follows_controller [OF K]) (use settings_follow [OF setting(4,5)] in simp_all)
    then show ?thesis using setting built by (simp add: screenOk_def)
  next
    case (poll_interval ms)
    let ?s = "onPoll (setIntervalMs now ms) (onConn (\<lambda>c. c\<lparr>cc_pollIntervalMs := ms\<rparr>) s)"
    have "agrees (\<lambda>_ _. follows (pm_mode (sc_mode sc)) (tb_registerType (sc_table sc))) {#} now ?s"
      by (rule following.on_engine, rule follows_controller [OF K]) simp_all
    then have "agrees (\<lambda>_ _. follows (pm_mode (sc_mode sc)) (tb_registerType (sc_table sc))) {#} now
        (onConn (emitConn (SettingChanged ''pollIntervalMs'')) ?s)"
      by (rule follows_controller) simp_all
    then show ?thesis using K poll_interval built by (simp add: screenOk_def setPollIntervalMs_def)
  next
    case (connect E)
    then show ?thesis using connect_follows [OF connect(4) K] built by (simp add: screenOk_def)
  next
    case (disconnect E)
    then show ?thesis using disconnect_follows [OF disconnect(4) K] built by (simp add: screenOk_def)
  next
    case new_screen
    have "builtTable N newTable" unfolding builtTable_def by (rule exI [of _ "[]"]) simp
    then show ?thesis using K new_screen by (auto simp: screenOk_def newScreen_def agrees_def follows_def)
  next
    case (poll E)
    then have "agrees (\<lambda>_ _. follows (pm_mode (sc_mode sc)) (tb_registerType (sc_table sc))) {#} now s'"
      using usable_starts [OF K] K
      by (cases "m_running (poll_of s)")
        (auto simp: pollClicked_def stopPolling_def agrees_def follows_def stopPoll_sound)
    then show ?thesis using poll built by (simp add: screenOk_def)
  next
    case (mode E m)
    note m = modeActivated_cases [OF mode(4)]
    from m(2) have "agrees (\<lambda>_ _. follows m (tb_registerType (sc_table sc))) {#} now s'"
      using usable_starts [OF K mode(2), of E sc' s'] stopped_follows [OF K mode(2)] K m(1)
      by (elim disjE conjE) (simp_all add: setMode_def split: if_splits)
    then show ?thesis using mode built m(1) by (simp add: screenOk_def setMode_def)
  next
    case (register_type E ty)
    let ?t = "setRegisterType N ty (sc_table sc)"
    note sc' = typeActivated_cases [OF register_type(4)]
    have t: "builtTable N ?t" by (rule builtTable_step [OF built, of "SetRegisterType ty"]) simp
    consider "\<not> m_running (poll_of s)" "s' = s" | "pm_mode (sc_mode sc) = FavoritesMode" "s' = s"
      | "startShown E now sc' s = Some s'" using sc'(3) by blast
    then have "agrees (\<lambda>_ _. follows (pm_mode (sc_mode sc)) (tb_registerType ?t)) {#} now s'"
    proof cases
      case 1
      then show ?thesis using stopped_follows [OF K register_type(2)] by simp
    next
      case 2
      then show ?thesis using K by (auto simp: agrees_def follows_def shownBy_def)
    next
      case 3
      then show ?thesis using usable_starts [OF K register_type(2) 3] sc' by simp
    qed
    then show ?thesis using register_type t sc' by (simp add: screenOk_def)
  next
    case (edit E op)
    then show ?thesis using edit_follows [OF edit(6,3,5)] K built by (simp add: screenOk_def)
  next
    case (table op t)
    then show ?thesis
      using builtTable_step [OF built table(5)] tableOp_type [OF table(5,4)] K by (simp add: screenOk_def)
  next
    case (one_shot E ty a q v b)
    then show ?thesis using one_shot_follows [OF one_shot(4) K] built by (simp add: screenOk_def)
  qed (use K built in \<open>simp_all add: screenOk_def\<close>)
qed

lemma screen_reachable_ok:
  assumes "screen_reachable N (now, sc, s)"
  shows "screenOk N now sc s"
proof -
  obtain start where run: "(screen_step N)\<^sup>*\<^sup>* (start, newScreen newPollMode, startApp) (now, sc, s)"
    using assms by (auto simp: screen_reachable_def)
  have "screenOk N (fst y) (fst (snd y)) (snd (snd y))"
    if "(screen_step N)\<^sup>*\<^sup>* (start, newScreen newPollMode, startApp) y" for y
    using that
  proof (induction rule: rtranclp_induct)
    case base
    have "builtTable N newTable" unfolding builtTable_def by (rule exI [of _ "[]"]) simp
    moreover have "sound {#} start (snd startApp)" using startApp_agrees [of start] unfolding agrees_def by blast
    moreover have "follows m ty (fst (startApp :: 'a conn app))" for m ty
      by (simp add: follows_def startApp_def newConnection_def newPollEngine_def)
    ultimately show ?case by (simp add: screenOk_def newScreen_def agrees_def)
  next
    case (step y z)
    then show ?case
      using screen_step_ok [of N "fst y" "fst (snd y)" "snd (snd y)" "fst z" "fst (snd z)" "snd (snd z)"] by simp
  qed
  from this [OF run] show ?thesis by simp
qed


end
