(* ===== verification/Live_Values.thy ===== *)
theory Live_Values
  imports Connection
begin

text \<open>
  From the device to the screen: what a conforming device answers to the requests of a poll cycle passes
  the engine's caches, its flush and the controller's relay, and is what the favorites list shows.
\<close>

section \<open>Every target of a cycle is due for the next flush\<close>

lemma device_answer_dirty:
  assumes "slices_within (m_targets p) options plan" and "protocol_limits options"
    and "applyPlanResponse now plan (deviceAnswer regs bts plan) p = Some p'"
    and "tc_dirty (m_caches p ! i) \<or> i \<in> targetIndex ` set (covered plan)"
  shows "tc_dirty (m_caches p' ! i)"
  using assms(3,4) unfolding device_answer_copied [OF assms(1,2)]
  by (auto simp: applyBits_slices applyRegisters_slices
      intro: bits.applySlices_dirty registers.applySlices_dirty split: if_splits)

lemma answer_keeps_engine:
  assumes "applyPlanResponse now plan (deviceAnswer regs bts plan) p = Some p'"
    and "slices_within (m_targets p) options plan" and "protocol_limits options"
  shows "onlyCachesChanged p p'"
  using assms(1) unfolding device_answer_copied [OF assms(2,3)]
  by (auto simp: applyBits_slices applyRegisters_slices bits.same_shape_def registers.same_shape_def
      dest!: bits.applySlices_shape registers.applySlices_shape split: if_splits)

lemma answers_dirty:
  assumes "valid_options options" and "protocol_limits options" and "coalesce (m_targets p) options = Some plans"
    and "set answers \<subseteq> set plans" and "applyAnswers now regs bts answers p = Some p'"
    and "tc_dirty (m_caches p ! i) \<or> (\<exists>plan \<in> set answers. i \<in> targetIndex ` set (covered plan))"
  shows "tc_dirty (m_caches p' ! i)"
  using assms(3-6)
proof (induction answers arbitrary: p)
  case (Cons plan answers)
  from Cons.prems(3) obtain q where q: "applyPlanResponse now plan (deviceAnswer regs bts plan) p = Some q"
    and rest: "applyAnswers now regs bts answers q = Some p'" by (auto simp: bind_eq_Some_conv)
  have "plan \<in> set plans" using Cons.prems(2) by simp
  then have within: "slices_within (m_targets p) options plan"
    by (rule coalescer.plans_within [OF assms(1) Cons.prems(1)])
  have "m_targets q = m_targets p"
    using onlyCachesChanged_fields [OF answer_keeps_engine [OF q within assms(2)]] by simp
  with Cons.prems(1,2) have "coalesce (m_targets q) options = Some plans" "set answers \<subseteq> set plans" by simp_all
  moreover have "tc_dirty (m_caches q ! i) \<or> (\<exists>plan \<in> set answers. i \<in> targetIndex ` set (covered plan))"
    using device_answer_dirty [OF within assms(2) q] Cons.prems(4) by auto
  ultimately show ?case using Cons.IH rest by blast
qed simp

lemma answers_keep_engine:
  assumes "valid_options options" and "protocol_limits options" and "coalesce (m_targets p) options = Some plans"
    and "set answers \<subseteq> set plans" and "applyAnswers now regs bts answers p = Some p'"
  shows "onlyCachesChanged p p'"
  using assms(3-5)
proof (induction answers arbitrary: p)
  case Nil
  then show ?case by (simp add: onlyCachesChanged_def)
next
  case (Cons plan answers)
  from Cons.prems(3) obtain q where q: "applyPlanResponse now plan (deviceAnswer regs bts plan) p = Some q"
    and rest: "applyAnswers now regs bts answers q = Some p'" by (auto simp: bind_eq_Some_conv)
  have "plan \<in> set plans" using Cons.prems(2) by simp
  then have only: "onlyCachesChanged p q"
    using answer_keeps_engine [OF q coalescer.plans_within [OF assms(1) Cons.prems(1)] assms(2)] by blast
  have "coalesce (m_targets q) options = Some plans" "set answers \<subseteq> set plans"
    using onlyCachesChanged_fields [OF only] Cons.prems(1,2) by simp_all
  from Cons.IH [OF this rest] show ?case by (rule onlyCachesChanged_trans [OF only])
qed

text \<open>So a whole cycle leaves every cache equal to the device and due.\<close>

lemma cycle_fills:
  assumes "protocol_limits options" and "in_address_space (m_targets p0)"
    and plans: "coalesce (m_targets p0) options = Some plans" and "set answers = set plans" and "cachesMatch p0"
    and pos: "\<And>i. i < length (m_targets p0) \<Longrightarrow> 0 < unat (pt_quantity (m_targets p0 ! i))"
  shows "\<exists>p. applyAnswers now regs bts answers p0 = Some p \<and> m_targets p = m_targets p0 \<and>
    length (m_caches p) = length (m_targets p0) \<and>
    (\<forall>i < length (m_targets p0). cacheHolds regs bts (m_targets p0 ! i) (m_caches p ! i)) \<and>
    (\<forall>i < length (m_targets p0). tc_dirty (m_caches p ! i))"
proof -
  have valid: "valid_options options" using assms(1) by (simp add: protocol_limits_def)
  from coalescer.cycle_reads_device [OF valid assms(1-5), of now regs bts] obtain p where
    p: "applyAnswers now regs bts answers p0 = Some p" "length (m_caches p) = length (m_targets p0)"
      "\<forall>i < length (m_targets p0). cacheHolds regs bts (m_targets p0 ! i) (m_caches p ! i)" by blast
  have sub: "set answers \<subseteq> set plans" using assms(4) by simp
  have "m_targets p = m_targets p0"
    using onlyCachesChanged_fields [OF answers_keep_engine [OF valid assms(1) plans sub p(1)]] by simp
  moreover have "tc_dirty (m_caches p ! i)" if i: "i < length (m_targets p0)" for i
  proof -
    have "0 < uint (pt_quantity (m_targets p0 ! i))" using pos [OF i] by (metis of_nat_0_less_iff uint_nat)
    from coalescer.value_carried [OF valid plans i order_refl this] obtain plan cov where
      "plan \<in> set plans" "cov \<in> set (covered plan)" "carries i 0 cov" by auto
    then have "\<exists>plan \<in> set answers. i \<in> targetIndex ` set (covered plan)"
      using assms(4) by (force simp: carries_def)
    then show ?thesis using answers_dirty [OF valid assms(1) plans sub p(1)] by blast
  qed
  ultimately show ?thesis using p by blast
qed

section \<open>The flush\<close>

definition updateSignal :: "poll \<Rightarrow> nat \<Rightarrow> PollSignal" where
  "updateSignal p i =
     (let t = m_targets p ! i; cache = m_caches p ! i
      in if isBitRegisterType (pt_registerType t) then TargetBitsUpdated i (pt_startAddress t) (tc_bitValues cache)
         else TargetRegistersUpdated i (pt_startAddress t) (tc_registerValues cache))"

lemma flushFrom_dirty:
  assumes "i + n = length (m_caches p)" and "length (m_targets p) = length (m_caches p)"
    and "\<forall>j. i \<le> j \<longrightarrow> j < i + n \<longrightarrow> tc_dirty (m_caches p ! j)"
  shows "\<exists>p'. flushFrom i n p = Some p' \<and> signals p' = signals p @ map (updateSignal p) [i..<i + n]"
  using assms
proof (induction n arbitrary: i p)
  case (Suc n)
  let ?cache = "m_caches p ! i" and ?t = "m_targets p ! i"
  define q where "q = emitPoll (updateSignal p i) (p\<lparr>m_caches := (m_caches p)[i := ?cache\<lparr>tc_dirty := False\<rparr>]\<rparr>)"
  have step: "flushFrom i (Suc n) p = flushFrom (i + 1) n q"
    using Suc.prems by (simp add: q_def updateSignal_def Let_def)
  have same: "updateSignal q j = updateSignal p j" if "i < j" for j
    using that by (simp add: updateSignal_def q_def emitPoll_def)
  obtain p' where p': "flushFrom (i + 1) n q = Some p'" "signals p' = signals q @ map (updateSignal q) [i + 1..<i + 1 + n]"
    using Suc.IH [of "i + 1" q] Suc.prems by (auto simp: q_def emitPoll_def)
  have "map (updateSignal q) [i + 1..<i + 1 + n] = map (updateSignal p) [i + 1..<i + 1 + n]"
    by (intro map_cong refl same) auto
  then have "signals p' = signals p @ map (updateSignal p) (i # [i + 1..<i + 1 + n])"
    unfolding p'(2) by (simp add: q_def emitPoll_def)
  moreover have "i # [i + 1..<i + 1 + n] = [i..<i + Suc n]" by (simp add: upt_conv_Cons)
  ultimately show ?case unfolding step using p'(1) by metis
qed simp

section \<open>The relay\<close>

text \<open>What entry \<open>e\<close> is to hold after an update signal.\<close>

fun shows_update :: "PollSignal \<Rightarrow> 'd Entry \<Rightarrow> bool" where
  "shows_update (TargetRegistersUpdated i start vals) e \<longleftrightarrow> fe_rawValues e = vals \<and> \<not> fe_stale e"
| "shows_update (TargetBitsUpdated i start vals) e \<longleftrightarrow> fe_bitValue e = hd vals \<and> \<not> fe_stale e"
| "shows_update _ e \<longleftrightarrow> False"

fun update_fits :: "nat \<Rightarrow> 'd Entry \<Rightarrow> PollSignal \<Rightarrow> bool" where
  "update_fits k e (TargetRegistersUpdated i start vals) \<longleftrightarrow> i = k \<and> length vals = registerSpan (fe_definition e)"
| "update_fits k e (TargetBitsUpdated i start vals) \<longleftrightarrow> i = k \<and> vals \<noteq> []"
| "update_fits k e _ \<longleftrightarrow> False"

lemma relay_update:
  assumes "cc_favoritesActive c" and "wfFavorites (cc_favorites c)" and "k < length (fv_entries (cc_favorites c))"
    and "update_fits k (fv_entries (cc_favorites c) ! k) e"
  shows "\<exists>f x. relaySignal N e c = Some (c\<lparr>cc_favorites := f\<rparr>) \<and> wfFavorites f \<and>
    fv_entries f = (fv_entries (cc_favorites c))[k := x] \<and>
    fe_definition x = fe_definition (fv_entries (cc_favorites c) ! k) \<and> shows_update e x"
proof (cases "(k, fv_entries (cc_favorites c) ! k, e)" rule: update_fits.cases)
  case (1 k' x i start vals)
  obtain f where f: "applyRegisterUpdate N (int k) vals (cc_favorites c) = Some f" "wfFavorites f"
    using registerUpdate_wf [OF assms(2)] by blast
  with 1 assms(3,4) obtain y where "fv_entries f = (fv_entries (cc_favorites c))[k := y]"
    "fe_definition y = fe_definition (fv_entries (cc_favorites c) ! k)" "fe_rawValues y = vals" "\<not> fe_stale y"
    by (auto simp: applyRegisterUpdate_def Let_def split: if_splits)
  with f 1 assms(1,4) show ?thesis by auto
next
  case (2 k' x i start vals)
  let ?f = "applyBitUpdate (int k) vals (cc_favorites c)"
  let ?y = "(fv_entries (cc_favorites c) ! k)\<lparr>fe_bitValue := hd vals, fe_stale := False\<rparr>"
  have "wfEntry (fv_entries (cc_favorites c) ! k)" using assms(2,3) by (simp add: wfFavorites_def)
  then have "wfEntry ?y" by (simp add: wfEntry_def)
  with 2 assms have "wfFavorites ?f" "fv_entries ?f = (fv_entries (cc_favorites c))[k := ?y]"
    by (auto simp: applyBitUpdate_def wf_update)
  with 2 assms(1,4) show ?thesis by (intro exI [of _ ?f] exI [of _ ?y]) auto
qed (use assms(4) in auto)

lemma relaySignals_append:
  "relaySignals N (es @ es') c = Option.bind (relaySignals N es c) (relaySignals N es')"
  by (induction es arbitrary: c) (simp_all split: bind_split)

lemma relay_updates:
  assumes "cc_favoritesActive c" and "wfFavorites (cc_favorites c)" and "k \<le> length (fv_entries (cc_favorites c))"
    and "\<And>i. i < k \<Longrightarrow> update_fits i (fv_entries (cc_favorites c) ! i) (sig i)"
  shows "\<exists>f. relaySignals N (map sig [0..<k]) c = Some (c\<lparr>cc_favorites := f\<rparr>) \<and> wfFavorites f \<and>
    map fe_definition (fv_entries f) = map fe_definition (fv_entries (cc_favorites c)) \<and>
    (\<forall>i < k. shows_update (sig i) (fv_entries f ! i))"
  using assms(3,4)
proof (induction k)
  case 0
  then show ?case using assms(2) by (intro exI [of _ "cc_favorites c"]) simp
next
  case (Suc k)
  then obtain f where f: "relaySignals N (map sig [0..<k]) c = Some (c\<lparr>cc_favorites := f\<rparr>)" "wfFavorites f"
    "map fe_definition (fv_entries f) = map fe_definition (fv_entries (cc_favorites c))"
    "\<forall>i < k. shows_update (sig i) (fv_entries f ! i)" by force
  have len: "length (fv_entries f) = length (fv_entries (cc_favorites c))" by (rule map_eq_imp_length_eq [OF f(3)])
  then have k: "k < length (fv_entries f)" using Suc.prems(1) by simp
  have "fe_definition (fv_entries f ! k) = fe_definition (fv_entries (cc_favorites c) ! k)"
    using f(3) k len by (metis nth_map)
  then have "update_fits k (fv_entries f ! k) (sig k)"
    using Suc.prems(2) [of k] by (cases "sig k") simp_all
  from relay_update [of "c\<lparr>cc_favorites := f\<rparr>" k "sig k" N] this assms(1) f(2) k
  obtain g x where g: "relaySignal N (sig k) (c\<lparr>cc_favorites := f\<rparr>) = Some (c\<lparr>cc_favorites := g\<rparr>)" "wfFavorites g"
    "fv_entries g = (fv_entries f)[k := x]" "fe_definition x = fe_definition (fv_entries f ! k)"
    "shows_update (sig k) x"
    by auto
  have "map fe_definition (fv_entries g) = map fe_definition (fv_entries f)"
    using g(3,4) k by (metis list_update_id map_update)
  moreover have "\<forall>i < Suc k. shows_update (sig i) (fv_entries g ! i)"
    using f(4) g(3,5) k by (auto simp: less_Suc_eq nth_list_update)
  ultimately show ?case
    using f g(1,2) by (intro exI [of _ g]) (simp add: relaySignals_append)
qed

section \<open>What the favorites show\<close>

text \<open>What a device holds for an entry, as the entry and as its value on the screen.\<close>

definition device_registers :: "register_memory \<Rightarrow> u8 \<Rightarrow> 'd RegisterDefinition \<Rightarrow> u16 list" where
  "device_registers regs u def =
     map (\<lambda>k. regs u (rd_registerType def) (rd_address def mod 65536 + int k)) [0..<registerSpan def]"

definition device_text :: "'d numerics \<Rightarrow> register_memory \<Rightarrow> bit_memory \<Rightarrow> u8 \<Rightarrow> 'd RegisterDefinition \<Rightarrow> string option" where
  "device_text N regs bts u def =
     (if isBitRegisterType (rd_registerType def)
      then Some (if bts u (rd_registerType def) (rd_address def mod 65536) then ''ON'' else ''OFF'')
      else formatValue N (rd_format def) (device_registers regs u def))"

lemma target_fields:
  fixes u :: u8 and f :: "'d favorites"
  assumes "i < length (fv_entries f)"
  defines "def \<equiv> fe_definition (fv_entries f ! i)" and "t \<equiv> buildPollTargets u f ! i"
  shows "pt_unitId t = u" "pt_registerType t = rd_registerType def" "uint (pt_startAddress t) = rd_address def mod 65536"
    "unat (pt_quantity t) = registerSpan def"
proof -
  have "registerSpan def < 65536"
    by (cases "fs_format (rd_format def)") (simp_all add: registerSpan_def)
  then show "unat (pt_quantity t) = registerSpan def"
    using assms(1) by (simp add: t_def buildPollTargets_def def_def of_nat_u16_unat)
qed (use assms(1) in \<open>simp_all add: t_def def_def buildPollTargets_def uint_word_of_int\<close>)

lemma registerSpan_pos: "0 < registerSpan def"
  by (simp add: registerSpan_def split: DisplayFormat.split) (cases "fs_format (rd_format def)"; simp)

lemma cache_update_fits:
  assumes "i < length (fv_entries f)" and "m_targets p = buildPollTargets u f"
    and "cacheHolds regs bts (m_targets p ! i) (m_caches p ! i)"
  shows "update_fits i (fv_entries f ! i) (updateSignal p i)"
    and "shows_update (updateSignal p i) e \<Longrightarrow> fe_definition e = fe_definition (fv_entries f ! i) \<Longrightarrow>
      \<not> fe_stale e \<and>
      (if entryIsBit e then fe_bitValue e = bts u (rd_registerType (fe_definition e)) (rd_address (fe_definition e) mod 65536)
       else fe_rawValues e = device_registers regs u (fe_definition e))"
proof -
  note t = target_fields [OF assms(1), of u, folded assms(2)]
  have bit: "registerSpan d = 1" if "isBitRegisterType (rd_registerType d)" for d :: "'a RegisterDefinition"
    using that by (simp add: registerSpan_def)
  show "update_fits i (fv_entries f ! i) (updateSignal p i)"
    using assms(3) t registerSpan_pos [of "fe_definition (fv_entries f ! i)"]
    by (auto simp: updateSignal_def cacheHolds_def Let_def)
  show "shows_update (updateSignal p i) e \<Longrightarrow> fe_definition e = fe_definition (fv_entries f ! i) \<Longrightarrow>
      \<not> fe_stale e \<and>
      (if entryIsBit e then fe_bitValue e = bts u (rd_registerType (fe_definition e)) (rd_address (fe_definition e) mod 65536)
       else fe_rawValues e = device_registers regs u (fe_definition e))"
    using assms(3) t bit by (auto simp: updateSignal_def cacheHolds_def device_registers_def Let_def split: if_splits)
qed

lemma flush_relays:
  assumes dirty: "\<forall>i < length (m_caches p). tc_dirty (m_caches p ! i)" and len: "length (m_targets p) = length (m_caches p)"
    and fav: "cc_favoritesActive c" "wfFavorites (cc_favorites c)"
    and targets: "m_targets p = buildPollTargets u (cc_favorites c)"
    and holds: "\<forall>i < length (m_targets p). cacheHolds regs bts (m_targets p ! i) (m_caches p ! i)"
  shows "\<exists>s. appFlush N ((p, c), m) = Some s \<and> wfFavorites (cc_favorites (conn_of s)) \<and>
    map fe_definition (fv_entries (cc_favorites (conn_of s))) = map fe_definition (fv_entries (cc_favorites c)) \<and>
    (\<forall>i < length (fv_entries (cc_favorites c)). shows_update (updateSignal p i) (fv_entries (cc_favorites (conn_of s)) ! i))"
proof -
  let ?p = "p\<lparr>m_flushTimer := None\<rparr>" and ?n = "length (m_caches p)"
  have n: "?n = length (fv_entries (cc_favorites c))" using len targets by (simp add: buildPollTargets_def)
  have "updateSignal ?p = updateSignal p" by (simp add: fun_eq_iff updateSignal_def)
  with flushFrom_dirty [of 0 ?n ?p] dirty len obtain q where
    q: "flushTimerFires p = Some q" "signals q = signals p @ map (updateSignal p) [0..<?n]"
    by (auto simp: flushTimerFires_def flushPendingUpdates_def)
  have "update_fits i (fv_entries (cc_favorites c) ! i) (updateSignal p i)" if "i < ?n" for i
    by (rule cache_update_fits(1) [OF _ targets, where regs = regs and bts = bts]) (use that n holds len in simp_all)
  from relay_updates [OF fav _ this, of ?n N] n obtain f where
    f: "relaySignals N (map (updateSignal p) [0..<?n]) c = Some (c\<lparr>cc_favorites := f\<rparr>)" "wfFavorites f"
      "map fe_definition (fv_entries f) = map fe_definition (fv_entries (cc_favorites c))"
      "\<forall>i < ?n. shows_update (updateSignal p i) (fv_entries f ! i)" by auto
  with q n show ?thesis by (simp add: appFlush_def relayFrom_def onPoll_def onConn_def)
qed

text \<open>Two favorites, one register and one coil, being polled.\<close>

definition sampleFavorites :: "int favorites" where
  "sampleFavorites = addAdHoc int_numerics Coil 3 (addAdHoc int_numerics HoldingRegister 12 newFavorites)"

definition sampleApp :: "int conn app" where
  "sampleApp =
     ((newPollEngine\<lparr>m_targets := buildPollTargets 1 sampleFavorites,
         m_caches := map freshCache (buildPollTargets 1 sampleFavorites)\<rparr>,
       newConnection\<lparr>cc_favorites := sampleFavorites, cc_favoritesActive := True\<rparr>), newTransactionManager None)"

lemmas sample_entries = sampleFavorites_def addAdHoc_def appendEntry_def emitFav_def newFavorites_def freshEntry_def

lemma sample_wf: "wfFavorites sampleFavorites"
  unfolding sampleFavorites_def addAdHoc_def
  by (intro wf_append) (simp add: wfFavorites_def newFavorites_def)

lemma sample_space: "in_address_space (buildPollTargets 1 sampleFavorites)"
  by (simp add: in_address_space_def buildPollTargets_def sample_entries endAddressExclusive_def
      registerSpan_def emptyDefinition_def defaultFormat_def)

lemma sample_text:
  "device_text int_numerics (\<lambda>u t a. word_of_int a) bts u ((emptyDefinition int_numerics)\<lparr>rd_label := l,
     rd_registerType := HoldingRegister, rd_address := 12, rd_source := AdHoc\<rparr>) = Some ''12''"
  "device_text int_numerics regs (\<lambda>u t a. a = 3) u ((emptyDefinition int_numerics)\<lparr>rd_label := l,
     rd_registerType := Coil, rd_address := 3, rd_source := AdHoc\<rparr>) = Some ''ON''"
  by (simp_all add: device_text_def device_registers_def emptyDefinition_def defaultFormat_def registerSpan_def)
    code_simp

text \<open>C7: while the favorites are polled, what they show is what the device holds: after the answers of a
  conforming device to the requests of a cycle, in whatever order, the next flush succeeds and leaves
  every entry fresh, with exactly the device's registers or bit at the entry's address (modulo two to the
  16), and the screen shows them in the entry's format; the list itself stays as the user made it.\<close>

theorem favorites_show_the_device:
  assumes "cc_favoritesActive (conn_of s)" and "wfFavorites (cc_favorites (conn_of s))"
    and "m_targets (poll_of s) = buildPollTargets u (cc_favorites (conn_of s))"
    and "cachesMatch (poll_of s)" and "protocol_limits options" and "in_address_space (m_targets (poll_of s))"
    and "coalesce (m_targets (poll_of s)) options = Some plans" and "set answers = set plans"
  shows "\<exists>p s'. applyAnswers now regs bts answers (poll_of s) = Some p \<and> appFlush N (onPoll (\<lambda>_. p) s) = Some s' \<and>
    map fe_definition (fv_entries (cc_favorites (conn_of s'))) =
      map fe_definition (fv_entries (cc_favorites (conn_of s))) \<and>
    (\<forall>i < length (fv_entries (cc_favorites (conn_of s))).
       let e = fv_entries (cc_favorites (conn_of s')) ! i
       in \<not> fe_stale e \<and>
          favData N (cc_favorites (conn_of s')) i FavValue = map_option FavText (device_text N regs bts u (fe_definition e)) \<and>
          favData N (cc_favorites (conn_of s')) i FavValue \<noteq> None)"
proof -
  obtain p0 c m where s: "s = ((p0, c), m)" by (metis prod.exhaust)
  note prems = assms [unfolded s, simplified]
  have "0 < unat (pt_quantity (m_targets p0 ! i))" if "i < length (m_targets p0)" for i
    using that target_fields(4) [of i "cc_favorites c" u] registerSpan_pos prems(3) by (simp add: buildPollTargets_def)
  from cycle_fills [OF prems(5-8,4) this, of now regs bts] obtain p where
    p: "applyAnswers now regs bts answers p0 = Some p" and targets: "m_targets p = m_targets p0"
    and len: "length (m_caches p) = length (m_targets p0)"
    and holds: "\<forall>i < length (m_targets p0). cacheHolds regs bts (m_targets p0 ! i) (m_caches p ! i)"
    and dirty: "\<forall>i < length (m_targets p0). tc_dirty (m_caches p ! i)" by blast
  from flush_relays [OF _ _ prems(1,2), of p u regs bts N m] dirty len targets holds prems(3) obtain s' where
    s': "appFlush N ((p, c), m) = Some s'" "wfFavorites (cc_favorites (conn_of s'))"
      "map fe_definition (fv_entries (cc_favorites (conn_of s'))) = map fe_definition (fv_entries (cc_favorites c))"
      "\<forall>i < length (fv_entries (cc_favorites c)).
         shows_update (updateSignal p i) (fv_entries (cc_favorites (conn_of s')) ! i)" by auto
  have n: "length (fv_entries (cc_favorites (conn_of s'))) = length (fv_entries (cc_favorites c))"
    by (rule map_eq_imp_length_eq [OF s'(3)])
  have shown: "\<not> fe_stale e \<and> favData N (cc_favorites (conn_of s')) i FavValue =
      map_option FavText (device_text N regs bts u (fe_definition e))"
    if i: "i < length (fv_entries (cc_favorites c))" and e: "e = fv_entries (cc_favorites (conn_of s')) ! i" for i e
  proof -
    have def: "fe_definition e = fe_definition (fv_entries (cc_favorites c) ! i)"
      using s'(3) i n unfolding e by (metis nth_map)
    have "cacheHolds regs bts (m_targets p ! i) (m_caches p ! i)"
      using holds i targets prems(3) by (simp add: buildPollTargets_def)
    from cache_update_fits(2) [OF i targets [unfolded prems(3)] this _ def] s'(4) i
    have "\<not> fe_stale e \<and> (if entryIsBit e then fe_bitValue e = bts u (rd_registerType (fe_definition e)) (rd_address (fe_definition e) mod 65536)
       else fe_rawValues e = device_registers regs u (fe_definition e))" unfolding e by blast
    then show ?thesis using i n by (simp add: favData_def device_text_def Let_def flip: e split: if_splits)
  qed
  have flush: "appFlush N (onPoll (\<lambda>_. p) s) = Some s'" using s'(1) by (simp add: s onPoll_def)
  show ?thesis
    unfolding Let_def
  proof (rule exI [of _ p], rule exI [of _ s'], intro conjI allI impI)
    show "applyAnswers now regs bts answers (poll_of s) = Some p" using p by (simp add: s)
    show "appFlush N (onPoll (\<lambda>_. p) s) = Some s'" by (rule flush)
    show "map fe_definition (fv_entries (cc_favorites (conn_of s'))) =
        map fe_definition (fv_entries (cc_favorites (conn_of s)))" using s'(3) by (simp add: s)
    fix i assume "i < length (fv_entries (cc_favorites (conn_of s)))"
    then have "i < length (fv_entries (cc_favorites c))" by (simp add: s)
    from shown [OF this refl]
    show "\<not> fe_stale (fv_entries (cc_favorites (conn_of s')) ! i)"
      and "favData N (cc_favorites (conn_of s')) i FavValue =
        map_option FavText (device_text N regs bts u (fe_definition (fv_entries (cc_favorites (conn_of s')) ! i)))"
      by blast+
    show "favData N (cc_favorites (conn_of s')) i FavValue \<noteq> None" by (rule favData_defined [OF s'(2)])
  qed
qed

theorem favorites_show_the_device_witness:
  "\<exists>plans p s'. coalesce (buildPollTargets 1 sampleFavorites) defaultCoalescingOptions = Some plans \<and>
     applyAnswers 0 (\<lambda>u t a. word_of_int a) (\<lambda>u t a. a = 3) (rev plans) (poll_of sampleApp) = Some p \<and>
     appFlush int_numerics (onPoll (\<lambda>_. p) sampleApp) = Some s' \<and>
     favData int_numerics (cc_favorites (conn_of s')) 0 FavValue = Some (FavText ''12'') \<and>
     favData int_numerics (cc_favorites (conn_of s')) 1 FavValue = Some (FavText ''ON'')"
proof -
  have targets: "m_targets (poll_of sampleApp) = buildPollTargets 1 (cc_favorites (conn_of sampleApp))"
    by (simp add: sampleApp_def)
  obtain plans where plans: "coalesce (m_targets (poll_of sampleApp)) defaultCoalescingOptions = Some plans"
    using coalescer.plans_exist [OF default_options_valid] by blast
  have "cc_favoritesActive (conn_of sampleApp)" "wfFavorites (cc_favorites (conn_of sampleApp))"
    "cachesMatch (poll_of sampleApp)" "in_address_space (m_targets (poll_of sampleApp))"
    by (simp_all add: sampleApp_def sample_wf fresh_cachesMatch sample_space)
  from favorites_show_the_device [OF this(1,2) targets this(3) default_protocol_limits this(4) plans,
      of "rev plans" 0 "\<lambda>u t a. word_of_int a" "\<lambda>u t a. a = 3" int_numerics]
  obtain p s' where w: "applyAnswers 0 (\<lambda>u t a. word_of_int a) (\<lambda>u t a. a = 3) (rev plans) (poll_of sampleApp) = Some p"
      "appFlush int_numerics (onPoll (\<lambda>_. p) sampleApp) = Some s'"
    and defs: "map fe_definition (fv_entries (cc_favorites (conn_of s'))) = map fe_definition (fv_entries sampleFavorites)"
    and vals: "\<And>i. i < length (fv_entries sampleFavorites) \<Longrightarrow>
        favData int_numerics (cc_favorites (conn_of s')) i FavValue =
        map_option FavText (device_text int_numerics (\<lambda>u t a. word_of_int a) (\<lambda>u t a. a = 3) 1
          (fe_definition (fv_entries (cc_favorites (conn_of s')) ! i)))"
    by (auto simp: sampleApp_def Let_def)
  have two: "length (fv_entries (cc_favorites (conn_of s'))) = 2"
    using map_eq_imp_length_eq [OF defs] by (simp add: sample_entries)
  have def: "fe_definition (fv_entries (cc_favorites (conn_of s')) ! i) = fe_definition (fv_entries sampleFavorites ! i)"
    if "i < 2" for i
    using that two defs by (metis length_map nth_map)
  have "favData int_numerics (cc_favorites (conn_of s')) 0 FavValue = Some (FavText ''12'')"
    using vals [of 0] def [of 0] by (simp add: sample_entries sample_text)
  moreover have "favData int_numerics (cc_favorites (conn_of s')) 1 FavValue = Some (FavText ''ON'')"
    using vals [of 1] def [of 1] by (simp add: sample_entries sample_text)
  moreover have "coalesce (buildPollTargets 1 sampleFavorites) defaultCoalescingOptions = Some plans"
    using plans by (simp add: sampleApp_def)
  ultimately show ?thesis using w by blast
qed

end
