(* ===== verification/Live_Table.thy ===== *)
theory Live_Table
  imports Live_Values Main_Screen
begin

text \<open>
  From the device to the register table: in Normal mode the engine polls one target, and its flushed values
  pass the controller's relay and the screen's slot into the rows of the table.
\<close>

section \<open>New values in the table\<close>

lemma setRegisters_result:
  assumes "fresh N t" and "\<not> tableIsBits t"
  shows "\<exists>t'. setRegisters N a vals t = Some t' \<and> fresh N t' \<and> tb_startAddress t' = a \<and>
    tb_rawValues t' = map word_of_int vals \<and> tb_registerType t' = tb_registerType t \<and> \<not> tb_stale t'"
proof (cases "tb_startAddress t = a \<and> length (tb_rawValues t) = length vals")
  case True
  with in_place_update [OF assms, of a vals] obtain sigs where
    "setRegisters N a vals t = Some (t\<lparr>tb_stale := False, tb_rawValues := map word_of_int vals, tb_signals := sigs\<rparr>)"
    by blast
  with True setRegisters_fresh [OF assms(1) this] show ?thesis by simp
next
  case False
  let ?t = "emitTable ModelReset (rebuildLogicalRows N
      ((clearStale t)\<lparr>tb_startAddress := a, tb_rawValues := map word_of_int vals\<rparr>))"
  have "setRegisters N a vals t = Some ?t" using False by (auto simp: setRegisters_def Let_def)
  moreover have "fresh N ?t" by simp
  moreover have "\<not> tb_stale (clearStale t)" by (simp add: clearStale_def emitTable_def)
  then have "tb_startAddress ?t = a \<and> tb_rawValues ?t = map word_of_int vals \<and>
      tb_registerType ?t = tb_registerType t \<and> \<not> tb_stale ?t"
    by (simp add: rebuild_eq emitTable_def)
  ultimately show ?thesis by blast
qed

lemma setBits_result:
  assumes "fresh N t" and "tableIsBits t"
  shows "fresh N (setBits N a vals t)" "tb_startAddress (setBits N a vals t) = a"
    "tb_bitValues (setBits N a vals t) = vals" "tb_registerType (setBits N a vals t) = tb_registerType t"
    "\<not> tb_stale (setBits N a vals t)"
proof -
  show "fresh N (setBits N a vals t)" using applyTableOp_fresh [OF assms(1), of "SetBits a vals"] by simp
  have stale: "\<not> tb_stale (clearStale t)" by (simp add: clearStale_def emitTable_def)
  obtain changed where "length (tb_bitValues t) = length vals \<Longrightarrow> diffValues (tb_bitValues t) vals = (vals, changed)"
    using diffValues_spec [of "tb_bitValues t" vals] by blast
  with stale show "tb_startAddress (setBits N a vals t) = a" "tb_bitValues (setBits N a vals t) = vals"
    "tb_registerType (setBits N a vals t) = tb_registerType t" "\<not> tb_stale (setBits N a vals t)"
    by (auto simp: setBits_def Let_def rebuild_eq emitTable_def split: option.splits)
qed

section \<open>What the rows show\<close>

text \<open>The device's values for a row, and as text.\<close>

definition row_text ::
    "'d numerics \<Rightarrow> register_memory \<Rightarrow> bit_memory \<Rightarrow> u8 \<Rightarrow> RegisterType \<Rightarrow> 'd LogicalRow \<Rightarrow> string option" where
  "row_text N regs bts u ty row =
     (if isBitRegisterType ty then Some (if bts u ty (lr_address row) then ''ON'' else ''OFF'')
      else formatValue N (lr_settings row) (map (\<lambda>k. regs u ty (lr_address row + int k)) [0..<lr_span row]))"

definition rowAddresses :: "'d LogicalRow \<Rightarrow> int list" where
  "rowAddresses row = map (\<lambda>k. lr_address row + int k) [0..<lr_span row]"

text \<open>The table shows the target: not stale, its addresses in order, and the device's values in every row.\<close>

definition tableShows ::
    "'d numerics \<Rightarrow> register_memory \<Rightarrow> bit_memory \<Rightarrow> PollTarget \<Rightarrow> 'd table \<Rightarrow> bool" where
  "tableShows N regs bts tgt t \<longleftrightarrow> \<not> tb_stale t \<and>
     concat (map rowAddresses (tb_logicalRows t)) =
       map (\<lambda>k. uint (pt_startAddress tgt) + int k) [0..<unat (pt_quantity tgt)] \<and>
     (\<forall>r < length (tb_logicalRows t). \<exists>text. tableData N t r ValueRole = Some (CellText text) \<and>
        row_text N regs bts (pt_unitId tgt) (pt_registerType tgt) (tb_logicalRows t ! r) = Some text)"

lemma take_drop_upt: "i + n \<le> q \<Longrightarrow> take n (drop i (map f [0..<q])) = map (\<lambda>k. f (i + k)) [0..<n]"
  by (rule nth_equalityI) auto

lemma shown_registers:
  assumes "fresh N t" and "\<not> tableIsBits t" and "\<not> tb_stale t"
    and ty: "tb_registerType t = pt_registerType tgt" and start: "tb_startAddress t = uint (pt_startAddress tgt)"
    and vals: "tb_rawValues t = map (\<lambda>k. regs (pt_unitId tgt) (pt_registerType tgt) (uint (pt_startAddress tgt) + int k))
      [0..<unat (pt_quantity tgt)]"
  shows "tableShows N regs bts tgt t"
proof -
  define a where "a = uint (pt_startAddress tgt)"
  define q where "q = unat (pt_quantity tgt)"
  define mem where "mem = regs (pt_unitId tgt) (pt_registerType tgt)"
  let ?rows = "tb_logicalRows t"
  have raw: "tb_rawValues t = map (\<lambda>k. mem (a + int k)) [0..<q]" using vals by (simp add: mem_def a_def q_def)
  have rows: "rowsFrom a 0 q ?rows" using fresh_words(1) [OF assms(1,2)] start by (simp add: raw a_def)
  have slice: "take (lr_span row) (drop (nat (lr_address row - a)) (map (\<lambda>k. f (a + int k)) [0..<q])) =
      map (\<lambda>k. f (lr_address row + int k)) [0..<lr_span row]" if "row \<in> set ?rows" for row and f :: "int \<Rightarrow> 'v"
  proof -
    have "a \<le> lr_address row" "lr_address row + int (lr_span row) \<le> a + int q"
      using rowsFrom_mem [OF rows that] by simp_all
    then show ?thesis by (subst take_drop_upt [where f = "\<lambda>k. f (a + int k)"]) (simp_all add: algebra_simps)
  qed
  have "map (\<lambda>row. take (lr_span row) (drop (nat (lr_address row - a)) (map (\<lambda>k. a + int k) [0..<q]))) ?rows =
      map rowAddresses ?rows"
    using slice [where f1 = "\<lambda>a. a"] by (simp add: rowAddresses_def)
  with concat_rows [of a 0 "map (\<lambda>k. a + int k) [0..<q]" ?rows] rows
  have cover: "concat (map rowAddresses ?rows) = map (\<lambda>k. a + int k) [0..<q]" by simp
  have "\<exists>text. tableData N t r ValueRole = Some (CellText text) \<and>
      row_text N regs bts (pt_unitId tgt) (pt_registerType tgt) (?rows ! r) = Some text"
    if r: "r < length ?rows" for r
  proof -
    have row: "?rows ! r \<in> set ?rows" using r by simp
    have "rawRegistersFor t (?rows ! r) = map (\<lambda>k. mem (lr_address (?rows ! r) + int k)) [0..<lr_span (?rows ! r)]"
      unfolding rawRegistersFor_eq raw start a_def [symmetric] by (rule slice [OF row])
    moreover have "formatValue N (lr_settings (?rows ! r)) (rawRegistersFor t (?rows ! r)) \<noteq> None"
      by (rule formatValue_defined) (rule row_registers [OF assms(1,2) row])
    ultimately show ?thesis using r assms(2) ty by (auto simp: tableData_def row_text_def mem_def Let_def)
  qed
  with cover assms(3) show ?thesis by (simp add: tableShows_def a_def q_def)
qed

lemma list_at_map_upt: "r < q \<Longrightarrow> list_at (map f [0..<q]) (int r) = Some (f r)"
  by (simp add: list_at_def)

lemma shown_bits:
  assumes "fresh N t" and "tableIsBits t" and "\<not> tb_stale t"
    and ty: "tb_registerType t = pt_registerType tgt" and start: "tb_startAddress t = uint (pt_startAddress tgt)"
    and vals: "tb_bitValues t = map (\<lambda>k. bts (pt_unitId tgt) (pt_registerType tgt) (uint (pt_startAddress tgt) + int k))
      [0..<unat (pt_quantity tgt)]"
  shows "tableShows N regs bts tgt t"
proof -
  have rows: "tb_logicalRows t = bitRows N t" using assms(1,2) by (simp add: fresh_def layout_def)
  have n: "length (bitRows N t) = unat (pt_quantity tgt)" by (simp add: bitRows_def vals)
  have row: "bitRows N t ! r = \<lparr>lr_address = uint (pt_startAddress tgt) + int r, lr_span = 1, lr_settings = defaultFormat N\<rparr>"
    if "r < unat (pt_quantity tgt)" for r
    using that by (simp add: bitRows_def vals start)
  have "concat (map rowAddresses (bitRows N t)) = map (\<lambda>k. uint (pt_startAddress tgt) + int k) [0..<unat (pt_quantity tgt)]"
    unfolding bitRows_def vals start by (simp add: comp_def rowAddresses_def concat_map_singleton)
  moreover have "\<exists>text. tableData N t r ValueRole = Some (CellText text) \<and>
      row_text N regs bts (pt_unitId tgt) (pt_registerType tgt) (bitRows N t ! r) = Some text"
    if r: "r < unat (pt_quantity tgt)" for r
  proof -
    have "bitAt (tb_bitValues t) (int r) = bts (pt_unitId tgt) (pt_registerType tgt) (uint (pt_startAddress tgt) + int r)"
      unfolding bitAt_def vals by (simp only: list_at_map_upt [OF r] option.case)
    then show ?thesis
      using r assms(2) by (simp add: tableData_def row_text_def rows n row start ty [symmetric])
  qed
  ultimately show ?thesis using assms(3) by (simp add: tableShows_def rows n)
qed

section \<open>A poll cycle\<close>

text \<open>The signal of the flushed target and the screen's slot for it.\<close>

lemma relayed_to_table:
  assumes "\<not> cc_favoritesActive c" and "m_targets p ! 0 = tgt" and "cacheHolds regs bts tgt (m_caches p ! 0)"
    and "fresh N (sc_table sc)" and "tb_registerType (sc_table sc) = pt_registerType tgt"
  shows "\<exists>e sc'. relaySignal N (updateSignal p 0) c = Some (emitConn e c) \<and> screenSlot N clock e sc = Some sc' \<and>
    tableShows N regs bts tgt (sc_table sc')"
proof (cases "isBitRegisterType (pt_registerType tgt)")
  case True
  let ?vals = "tc_bitValues (m_caches p ! 0)" and ?a = "uint (pt_startAddress tgt)"
  have bits: "tableIsBits (sc_table sc)" using True assms(5) by simp
  note t = setBits_result [OF assms(4) bits, of ?a ?vals]
  have "tableShows N regs bts tgt (setBits N ?a ?vals (sc_table sc))"
    by (rule shown_bits [OF t(1)]) (use t True assms(3,5) in \<open>simp_all add: cacheHolds_def\<close>)
  moreover have "relaySignal N (updateSignal p 0) c = Some (emitConn (BitsRead ?a ?vals) c)"
    using True assms(1,2) by (simp add: updateSignal_def)
  ultimately show ?thesis
    by (intro exI [of _ "BitsRead ?a ?vals"]) (simp add: status_def)
next
  case False
  let ?vals = "map uint (tc_registerValues (m_caches p ! 0))" and ?a = "uint (pt_startAddress tgt)"
  have word: "\<not> tableIsBits (sc_table sc)" using False assms(5) by simp
  from setRegisters_result [OF assms(4) word, of ?a ?vals] obtain t where
    t: "setRegisters N ?a ?vals (sc_table sc) = Some t" "fresh N t" "tb_startAddress t = ?a"
      "tb_rawValues t = map word_of_int ?vals" "tb_registerType t = tb_registerType (sc_table sc)" "\<not> tb_stale t"
    by blast
  have "tableShows N regs bts tgt t"
    by (rule shown_registers [OF t(2)]) (use t False assms(3,5) in \<open>simp_all add: cacheHolds_def comp_def\<close>)
  moreover have "relaySignal N (updateSignal p 0) c = Some (emitConn (HoldingRegistersRead ?a ?vals) c)"
    using False assms(1,2) by (simp add: updateSignal_def)
  ultimately show ?thesis
    using t(1) by (intro exI [of _ "HoldingRegistersRead ?a ?vals"]) (simp add: status_def)
qed

text \<open>C8: in Normal mode the table shows what the device holds: after the answers of a conforming device to
  the requests of a cycle, in whatever order, the next flush succeeds, its signal reaches the screen's slot,
  and the table is fresh, its rows cover exactly the polled addresses in order, and every row shows the
  device's registers or bit at its addresses in the row's format.\<close>

theorem normal_view_shows_the_device:
  assumes "\<not> cc_favoritesActive (conn_of s)" and "m_targets (poll_of s) = [tgt]"
    and "0 < unat (pt_quantity tgt)" and "cachesMatch (poll_of s)" and "protocol_limits options"
    and "in_address_space [tgt]" and "coalesce [tgt] options = Some plans" and "set answers = set plans"
    and "runTable N ops newTable = Some (sc_table sc)" and "tb_registerType (sc_table sc) = pt_registerType tgt"
  shows "\<exists>p s' sc'. applyAnswers now regs bts answers (poll_of s) = Some p \<and> appFlush N (onPoll (\<lambda>_. p) s) = Some s' \<and>
    screenSlots N (map (Pair clock) (drop (length (cc_signals (conn_of s))) (cc_signals (conn_of s')))) sc = Some sc' \<and>
    tableShows N regs bts tgt (sc_table sc')"
proof -
  obtain p0 c m where s: "s = ((p0, c), m)" by (metis prod.exhaust)
  note prems = assms [unfolded s, simplified]
  have "0 < unat (pt_quantity (m_targets p0 ! i))" if "i < length (m_targets p0)" for i
    using that prems(2,3) by simp
  from cycle_fills [OF prems(5) _ _ prems(8,4) this, of now regs bts] prems(2,6,7) obtain p where
    p: "applyAnswers now regs bts answers p0 = Some p" "m_targets p = [tgt]" "length (m_caches p) = 1"
      "cacheHolds regs bts tgt (m_caches p ! 0)" "tc_dirty (m_caches p ! 0)" by auto
  let ?p = "p\<lparr>m_flushTimer := None\<rparr>"
  from flushFrom_dirty [of 0 1 ?p] p obtain q where
    q: "flushTimerFires p = Some q" "signals q = signals p @ [updateSignal ?p 0]"
    by (auto simp: flushTimerFires_def flushPendingUpdates_def)
  have "fresh N (sc_table sc)" by (rule runTable_fresh [OF prems(9) fresh_newTable])
  from relayed_to_table [OF prems(1) _ _ this prems(10), where p = ?p and clock = clock and regs = regs and bts = bts] p(2,4) obtain e sc' where
    e: "relaySignal N (updateSignal ?p 0) c = Some (emitConn e c)" "screenSlot N clock e sc = Some sc'"
    and shown: "tableShows N regs bts tgt (sc_table sc')" by auto
  have "appFlush N (onPoll (\<lambda>_. p) s) = Some ((q, emitConn e c), m)"
    using q e(1) by (simp add: s appFlush_def relayFrom_def onPoll_def onConn_def)
  moreover have "screenSlots N (map (Pair clock) (drop (length (cc_signals c)) (cc_signals (emitConn e c)))) sc = Some sc'"
    using e(2) by (simp add: emitConn_def)
  ultimately show ?thesis
    using p(1) shown by (intro exI [of _ p] exI [of _ "((q, emitConn e c), m)"] exI [of _ sc']) (simp add: s)
qed

end
