(* ===== verification/Screen_Samples.thy ===== *)
theory Screen_Samples
  imports Screen_Polling Live_Table
begin

text \<open>Concrete sessions at the main screen, for the witnesses of its theorems.\<close>

declare split_paired_Ex [simp del] split_paired_All [simp del]

section \<open>Over an established connection\<close>

lemma screen_reach_step: "screen_reachable N x \<Longrightarrow> screen_step N x y \<Longrightarrow> screen_reachable N y"
  unfolding screen_reachable_def by (blast intro: rtranclp.rtrancl_into_rtrancl)

abbreviation firstScreen :: "'d screen" where "firstScreen \<equiv> newScreen newPollMode"

lemma established_screen: "screen_reachable N (0, firstScreen, established)"
proof -
  have "screen_reachable N (0, firstScreen, startApp)" by (auto simp: screen_reachable_def)
  moreover have "setting_step N (conn_of startApp) (setConnectionType ConnTcp newConnection)"
    by (simp add: startApp_def setting_step.intros)
  then have "screen_step N (0, firstScreen, startApp) (0, firstScreen, chosen)"
    unfolding chosen_def
    by (rule screen_step.setting) (simp add: startApp_def setConnectionType_def emitConn_def)
  moreover have "screen_step N (0, firstScreen, chosen) (0, firstScreen, dialling)"
    by (rule screen_step.connect [OF _ connect_chosen])
      (simp add: room_def chosen_facts newPollEngine_def openSignals_def tcpOpen_def calm_def chosen_conn setConnectionType_def
        emitConn_def newConnection_def)
  moreover have "event_step N (0, dialling) (0, established)"
    by (rule event_step.signal [OF _ dial]) (simp add: room_def dialling_facts newPollEngine_def)
  then have "screen_step N (0, firstScreen, dialling) (0, firstScreen, established)" by (rule screen_step.event)
  ultimately show ?thesis using screen_reach_step by blast
qed

lemma established_id: "cc_pendingCorrelationId (conn_of established) = 0"
  by (simp add: established_def dialling_def prepared_def Let_def chosen_facts setState_def
    setConnectionType_def newConnection_def emitConn_def)

lemma calm_begin: "beginPolling calm now ts fav s = Some s' \<Longrightarrow> m_running (poll_of s')"
  by (auto simp: beginPolling_def bind_eq_Some_conv startPoll_def dest!: calm_cycle split: if_splits)


section \<open>A written register\<close>

definition written :: "'d conn app" where
  "written = the (writeSingleRegister calm 0 100 7 established)"

lemma written_facts: "writeSingleRegister calm 0 100 7 established = Some (written :: 'd conn app)"
  "ready (written :: 'd conn app)" "cc_pendingOperation (conn_of (written :: 'd conn app)) = OpWriteSingleRegister"
proof -
  let ?g = "\<lambda>c :: 'd conn. c\<lparr>cc_pendingOperation := OpWriteSingleRegister, cc_pendingStartAddress := 100\<rparr>"
  obtain s where s: "writeSingleRegister calm 0 100 7 (established :: 'd conn app) = Some s" "ready s"
    using sendOneShot_returns [of "onConn ?g established" calm 0 "encodeWriteSingleRegisterRequest 100 7"]
      established_facts(5) by (simp add: writeSingleRegister_def) blast
  then show w: "writeSingleRegister calm 0 100 7 established = Some (written :: 'd conn app)" "ready (written :: 'd conn app)"
    by (simp_all add: written_def)
  then show "cc_pendingOperation (conn_of (written :: 'd conn app)) = OpWriteSingleRegister"
    by (auto simp: writeSingleRegister_def pendingOf_def dest!: sendOneShot_pending)
qed

theorem reread_answer_is_dropped_witness:
  "\<exists>s' :: 'd conn app. responseShown calm 0 firstScreen (cc_pendingCorrelationId (conn_of (written :: 'd conn app)))
       (encodeWriteSingleRegisterRequest 100 7) written = Some s' \<and>
     SingleRegisterWritten 100 7 \<in> set (cc_signals (conn_of s')) \<and>
     handleResponseReceived (cc_pendingCorrelationId (conn_of s')) [3, 2, 0, 7] (conn_of s') = Some (conn_of s')"
proof -
  let ?c = "emitConn (SingleRegisterWritten 100 7) (conn_of written) :: 'd conn"
  have "decodeWriteSingleRegisterResponse (encodeWriteSingleRegisterRequest 100 7) = Some (Ok \<lparr>ws_address = 100, ws_value = 7\<rparr>)"
    using write_echo_roundtrip by blast
  then have report: "reportPending (encodeWriteSingleRegisterRequest 100 7) (conn_of written) = Some ?c"
    by (simp add: reportPending_def written_facts(3) report_def)
  have new: "drop (length (cc_signals (conn_of (written :: 'd conn app)))) (cc_signals ?c) = [SingleRegisterWritten 100 7]"
    by (simp add: emitConn_def)
  have "ready (onConn (\<lambda>_. ?c) written)" using written_facts(2) by simp
  then obtain s1 where "readAgain calm 0 firstScreen (onConn (\<lambda>_. ?c) written) = Some s1"
    using sendOneShot_returns unfolding readAgain_def readRegisters_def by (metis ready_updates(1))
  then have "\<exists>s' :: 'd conn app. responseShown calm 0 firstScreen (cc_pendingCorrelationId (conn_of (written :: 'd conn app)))
       (encodeWriteSingleRegisterRequest 100 7) written = Some s'"
    by (simp add: responseShown_def report new)
  then obtain s' :: "'d conn app" where
    s': "responseShown calm 0 firstScreen (cc_pendingCorrelationId (conn_of (written :: 'd conn app)))
       (encodeWriteSingleRegisterRequest 100 7) written = Some s'" by blast
  with reread_answer_is_dropped [OF written_facts(3) s'] show ?thesis by auto
qed

text \<open>A 32-bit value typed into the table.\<close>

definition pairRow :: "int LogicalRow" where
  "pairRow = \<lparr>lr_address = 10, lr_span = 2,
     lr_settings = \<lparr>fs_format = Int32Signed, fs_byteOrder = ABCD, fs_scale = 1, fs_offset = 0, fs_unit = []\<rparr>\<rparr>"

lemma pairRow_parses: "snd (parseValue int_numerics (lr_settings pairRow) (number 65543))"
proof -
  have "stripUnit (lr_settings pairRow) (number 65543) = number 65543"
    by (simp add: stripUnit_def pairRow_def)
  moreover have "toDouble int_numerics (number 65543) = Some 65543"
    by (simp add: int_numerics_def parse_int_number)
  ultimately show ?thesis by (simp add: parseValue_def pairRow_def)
qed


section \<open>Logging\<close>

lemma append_in_shuffles: "xs @ ys \<in> shuffles xs ys"
  by (induction xs) (simp_all add: Cons_in_shuffles_leftI)

text \<open>A register table takes every signal.\<close>

lemma slots_defined:
  assumes "fresh N (sc_table sc)" and "\<not> tableIsBits (sc_table sc)"
  shows "\<exists>sc'. screenSlots N es sc = Some sc'"
  using assms
proof (induction es arbitrary: sc)
  case (Cons x es)
  obtain clock e where x: "x = (clock, e)" by (cases x)
  obtain sc1 where sc1: "screenSlot N clock e sc = Some sc1"
    by (cases e) (use setRegisters_result [OF Cons.prems] in force)+
  have "fresh N (sc_table sc1) \<and> tb_registerType (sc_table sc1) = tb_registerType (sc_table sc)"
    using slot_table [OF sc1] applyTableOp_fresh [OF Cons.prems(1)] tableOp_type Cons.prems(1) by metis
  then show ?case using Cons sc1 by (simp add: x)
qed simp

theorem logs_tell_the_session_witness:
  "\<forall>N :: 'd numerics. \<exists>(s :: 'd conn app) es frame. app_reachable N (0, s) \<and> FrameSent frame \<in> set (events (snd s)) \<and>
     map snd es \<in> shuffles (List.map_filter frameLine (events (snd s))) (cc_signals (conn_of s)) \<and>
     List.map_filter readFrame (List.map_filter historyEntry es) = filter isFrame (events (snd s))"
proof
  fix N :: "'d numerics"
  let ?s = "written :: 'd conn app"
  have "cc_pendingCorrelationId (conn_of (established :: 'd conn app)) = 0" by (rule established_id)
  then have r: "app_reachable N (0, ?s)"
    using written_facts(1) by (intro reach_step [OF established_reachable app_step.one_shot]) auto
  define es where "es = map (Pair ''12:00:00.000'') (List.map_filter frameLine (events (snd ?s)) @ cc_signals (conn_of ?s))"
  have es: "map snd es \<in> shuffles (List.map_filter frameLine (events (snd ?s))) (cc_signals (conn_of ?s))"
    by (simp add: es_def comp_def append_in_shuffles)
  let ?g = "startLogging ''session.log'' True ''2026-01-01'' newLogger"
  let ?sc = "firstScreen\<lparr>sc_logger := fst ?g\<rparr> :: 'd screen"
  have "fresh N (sc_table ?sc)" by (simp add: newScreen_def)
  moreover have "\<not> tableIsBits (sc_table ?sc)" by (simp add: newScreen_def newTable_def)
  ultimately obtain sc' where sc': "screenSlots N es ?sc = Some sc'" using slots_defined by blast
  have "?g = (sc_logger ?sc, True)" by (simp add: startLogging_def Let_def)
  moreover have "cl_entries (sc_log ?sc) = []" by (simp add: newScreen_def newLog_def)
  ultimately have "List.map_filter readFrame (List.map_filter historyEntry es) = filter isFrame (events (snd ?s))"
    using logs_tell_the_session [OF r _ _ es _ _ sc', of "[]" "[]"] by simp
  moreover obtain frame where "FrameSent frame \<in> set (events (snd ?s))"
  proof -
    obtain uid pdu cid t where "sendRequest (appWrite calm 0) 0 uid pdu cid t = Some ?s"
      using written_facts(1) [where 'd = 'd] unfolding writeSingleRegister_def sendOneShot_def Let_def by blast
    from send_adds(2) [OF this] obtain frame es where "events (snd ?s) = events (snd t) @ RequestQueued cid # FrameSent frame # es"
      by blast
    then have "FrameSent frame \<in> set (events (snd ?s))" by simp
    then show thesis by (rule that)
  qed
  ultimately show "\<exists>(s :: 'd conn app) es frame. app_reachable N (0, s) \<and> FrameSent frame \<in> set (events (snd s)) \<and>
     map snd es \<in> shuffles (List.map_filter frameLine (events (snd s))) (cc_signals (conn_of s)) \<and>
     List.map_filter readFrame (List.map_filter historyEntry es) = filter isFrame (events (snd s))"
    using r es by blast
qed

section \<open>Two registers in the table\<close>

theorem normal_view_shows_the_device_witness:
  "\<exists>(s :: int conn app) p s' sc'. \<not> cc_favoritesActive (conn_of s) \<and> appFlush int_numerics (onPoll (\<lambda>_. p) s) = Some s' \<and>
     screenSlots int_numerics (map (Pair []) (drop (length (cc_signals (conn_of s))) (cc_signals (conn_of s')))) firstScreen = Some sc' \<and>
     tableShows int_numerics (\<lambda>u t a. word_of_int a) (\<lambda>u t a. False)
       \<lparr>pt_unitId = 1, pt_registerType = HoldingRegister, pt_startAddress = 12, pt_quantity = 2\<rparr> (sc_table sc')"
proof -
  let ?tgt = "\<lparr>pt_unitId = 1, pt_registerType = HoldingRegister, pt_startAddress = 12, pt_quantity = 2\<rparr> :: PollTarget"
  let ?s = "((newPollEngine\<lparr>m_targets := [?tgt], m_caches := map freshCache [?tgt]\<rparr>, newConnection),
      newTransactionManager None) :: int conn app"
  obtain plans where plans: "coalesce [?tgt] defaultCoalescingOptions = Some plans"
    using coalescer.plans_exist [OF default_options_valid] by blast
  have s: "\<not> cc_favoritesActive (conn_of ?s)" "m_targets (poll_of ?s) = [?tgt]" "cachesMatch (poll_of ?s)"
    "in_address_space [?tgt]" "0 < unat (pt_quantity ?tgt)"
    by (simp_all add: newConnection_def fresh_cachesMatch in_address_space_def endAddressExclusive_def)
  have "runTable int_numerics [] newTable = Some (sc_table firstScreen)"
    "tb_registerType (sc_table (firstScreen :: int screen)) = pt_registerType ?tgt"
    by (simp_all add: newScreen_def newTable_def)
  from normal_view_shows_the_device [OF s(1,2,5,3) default_protocol_limits s(4) plans refl this] s(1)
  show ?thesis by blast
qed

end
