(* ===== verification/Search.thy ===== *)
theory Search
  imports Register_Table Favorites
begin

text \<open>
  \<open>app-lib/models/RegisterFilterProxyModel\<close>, the search over the three lists (Normal view, favorites, tag
  picker), with the cells of \<open>models/TagDatabaseModel\<close> it searches.

  \<^item> \<open>QSortFilterProxyModel\<close> is Qt's: without a sort order its rows are the accepted source rows in source
    order, and an index outside them maps to row \<open>-1\<close>.
  \<^item> \<open>None\<close> as a result is a read outside a list, as in the source models.
\<close>

section \<open>Tag cells\<close>

datatype TagRole =
    TagLabel | TagDescription | TagAddress | TagRegisterType | TagFormat | TagByteOrder | TagScale | TagOffset
  | TagUnit

datatype 'd TagCell = TagNothing | TagText string | TagNumber int | TagReal 'd

fun registerTypeValue :: "RegisterType \<Rightarrow> int" where
  "registerTypeValue Coil = 0"
| "registerTypeValue DiscreteInput = 1"
| "registerTypeValue HoldingRegister = 2"
| "registerTypeValue InputRegister = 3"

fun displayFormatValue :: "DisplayFormat \<Rightarrow> int" where
  "displayFormatValue SignedDecimal = 0"
| "displayFormatValue UnsignedDecimal = 1"
| "displayFormatValue Hex = 2"
| "displayFormatValue Binary = 3"
| "displayFormatValue Float32 = 4"
| "displayFormatValue Int32Signed = 5"
| "displayFormatValue Int32Unsigned = 6"

fun byteOrderValue :: "ByteOrder \<Rightarrow> int" where
  "byteOrderValue ABCD = 0"
| "byteOrderValue BADC = 1"
| "byteOrderValue CDAB = 2"
| "byteOrderValue DCBA = 3"

definition tagCell :: "'d tagDb \<Rightarrow> int \<Rightarrow> TagRole \<Rightarrow> 'd TagCell" where
  "tagCell db row role =
     (if row < 0 \<or> int (length (td_tags db)) \<le> row then TagNothing
      else let tag = td_tags db ! nat row
           in case role of
                TagLabel \<Rightarrow> TagText (rd_label tag)
              | TagDescription \<Rightarrow> TagText (rd_description tag)
              | TagAddress \<Rightarrow> TagNumber (rd_address tag)
              | TagRegisterType \<Rightarrow> TagNumber (registerTypeValue (rd_registerType tag))
              | TagFormat \<Rightarrow> TagNumber (displayFormatValue (fs_format (rd_format tag)))
              | TagByteOrder \<Rightarrow> TagNumber (byteOrderValue (fs_byteOrder (rd_format tag)))
              | TagScale \<Rightarrow> TagReal (fs_scale (rd_format tag))
              | TagOffset \<Rightarrow> TagReal (fs_offset (rd_format tag))
              | TagUnit \<Rightarrow> TagText (fs_unit (rd_format tag)))"

section \<open>Role names\<close>

text \<open>\<open>roleNames()\<close> of the three lists, and \<open>QHash::key\<close>: the role with a given name.\<close>

definition tableRoleNames :: "(TableRole \<times> string) list" where
  "tableRoleNames = [(AddressRole, ''address''), (ValueRole, ''value''), (IsBitRole, ''isBit''),
     (BoolValueRole, ''boolValue''), (WritableRole, ''writable'')]"

definition favoriteRoleNames :: "(FavoriteRole \<times> string) list" where
  "favoriteRoleNames = [(FavLabel, ''label''), (FavDescription, ''description''), (FavAddress, ''address''),
     (FavValue, ''value''), (FavUnit, ''unit''), (FavStale, ''stale''), (FavIsBit, ''isBit''),
     (FavBoolValue, ''boolValue''), (FavWritable, ''writable''), (FavHistory, ''history'')]"

definition tagRoleNames :: "(TagRole \<times> string) list" where
  "tagRoleNames = [(TagLabel, ''label''), (TagDescription, ''description''), (TagAddress, ''address''),
     (TagRegisterType, ''registerType''), (TagFormat, ''format''), (TagByteOrder, ''byteOrder''),
     (TagScale, ''scale''), (TagOffset, ''offset''), (TagUnit, ''unit'')]"

fun roleKey :: "('r \<times> string) list \<Rightarrow> string \<Rightarrow> 'r option" where
  "roleKey [] name = None"
| "roleKey ((role, n) # roles) name = (if n = name then Some role else roleKey roles name)"

text \<open>\<open>QVariant::toString\<close> of a cell. A list has none. The scale and offset of a tag are never searched;
  their text stands here in the notation of \<open>numberText\<close>, which has fewer digits than Qt's.\<close>

definition boolText :: "bool \<Rightarrow> string" where "boolText b = (if b then ''true'' else ''false'')"

fun cellString :: "cell \<Rightarrow> string" where
  "cellString NoData = []"
| "cellString (CellText s) = s"
| "cellString (CellBool b) = boolText b"

fun favoriteCellString :: "'d FavoriteCell \<Rightarrow> string" where
  "favoriteCellString FavNothing = []"
| "favoriteCellString (FavText s) = s"
| "favoriteCellString (FavBool b) = boolText b"
| "favoriteCellString (FavNumbers vs) = []"

fun tagCellString :: "'d numerics \<Rightarrow> 'd TagCell \<Rightarrow> string" where
  "tagCellString N TagNothing = []"
| "tagCellString N (TagText s) = s"
| "tagCellString N (TagNumber i) = number i"
| "tagCellString N (TagReal d) = numberText N d"

section \<open>Search\<close>

definition kSearchableRoleNames :: "string list" where
  "kSearchableRoleNames = [''label'', ''description'', ''address'', ''unit'']"

text \<open>\<open>QString::contains\<close> without case.\<close>

fun containsNoCase :: "string \<Rightarrow> string \<Rightarrow> bool" where
  "containsNoCase [] needle \<longleftrightarrow> needle = []"
| "containsNoCase (c # s) needle \<longleftrightarrow>
     equalsNoCase (take (length needle) (c # s)) needle \<or> containsNoCase s needle"

datatype 'd listModel = NormalView "'d table" | FavoritesView "'d favorites" | TagPicker "'d tagDb"

fun rowCountOf :: "'d listModel \<Rightarrow> nat" where
  "rowCountOf (NormalView t) = length (tb_logicalRows t)"
| "rowCountOf (FavoritesView f) = length (fv_entries f)"
| "rowCountOf (TagPicker db) = length (td_tags db)"

text \<open>The text of a row under a role name: \<open>None\<close> if the model has no such role, \<open>Some None\<close> if showing
  the cell reads outside a list.\<close>

fun roleText :: "'d numerics \<Rightarrow> 'd listModel \<Rightarrow> nat \<Rightarrow> string \<Rightarrow> string option option" where
  "roleText N (NormalView t) row name =
     map_option (\<lambda>role. map_option cellString (tableData N t row role)) (roleKey tableRoleNames name)"
| "roleText N (FavoritesView f) row name =
     map_option (\<lambda>role. map_option favoriteCellString (favData N f row role)) (roleKey favoriteRoleNames name)"
| "roleText N (TagPicker db) row name =
     map_option (\<lambda>role. Some (tagCellString N (tagCell db (int row) role))) (roleKey tagRoleNames name)"

fun anyMatches :: "'d numerics \<Rightarrow> 'd listModel \<Rightarrow> nat \<Rightarrow> string \<Rightarrow> string list \<Rightarrow> bool option" where
  "anyMatches N m row needle [] = Some False"
| "anyMatches N m row needle (name # names) =
     (case roleText N m row name of
        None \<Rightarrow> anyMatches N m row needle names
      | Some None \<Rightarrow> None
      | Some (Some s) \<Rightarrow> if containsNoCase s needle then Some True else anyMatches N m row needle names)"

definition filterAcceptsRow :: "'d numerics \<Rightarrow> string \<Rightarrow> 'd listModel option \<Rightarrow> nat \<Rightarrow> bool option" where
  "filterAcceptsRow N filterText source row =
     (if filterText = [] then Some True
      else case source of
             None \<Rightarrow> Some True
           | Some m \<Rightarrow> anyMatches N m row filterText kSearchableRoleNames)"

datatype FilterSignal = FilterTextChanged | FilterInvalidated

record filterProxy =
  fp_filterText :: string
  fp_signals :: "FilterSignal list"

definition setFilterText :: "string \<Rightarrow> filterProxy \<Rightarrow> filterProxy" where
  "setFilterText text p =
     (if fp_filterText p = text then p
      else p\<lparr>fp_filterText := text, fp_signals := fp_signals p @ [FilterTextChanged, FilterInvalidated]\<rparr>)"

fun acceptedRows :: "'d numerics \<Rightarrow> string \<Rightarrow> 'd listModel \<Rightarrow> nat list \<Rightarrow> nat list option" where
  "acceptedRows N needle m [] = Some []"
| "acceptedRows N needle m (r # rs) =
     do { ok \<leftarrow> filterAcceptsRow N needle (Some m) r;
          rest \<leftarrow> acceptedRows N needle m rs;
          Some (if ok then r # rest else rest) }"

definition visibleRows :: "'d numerics \<Rightarrow> filterProxy \<Rightarrow> 'd listModel \<Rightarrow> nat list option" where
  "visibleRows N p m = acceptedRows N (fp_filterText p) m [0..<rowCountOf m]"

definition mapRowToSource :: "'d numerics \<Rightarrow> filterProxy \<Rightarrow> 'd listModel \<Rightarrow> int \<Rightarrow> int option" where
  "mapRowToSource N p m proxyRow =
     map_option (\<lambda>rows. case list_at rows proxyRow of None \<Rightarrow> - 1 | Some r \<Rightarrow> int r) (visibleRows N p m)"

section \<open>What a search finds\<close>

text \<open>The texts a user sees in a row and may search for.\<close>

fun searchTexts :: "'d listModel \<Rightarrow> nat \<Rightarrow> string list" where
  "searchTexts (NormalView t) r =
     (let row = tb_logicalRows t ! r;
          shown = (\<lambda>a. number (displayAddress (tb_registerType t) a (tb_addressConvention t)))
      in [if lr_span row = 1 then shown (lr_address row)
          else shown (lr_address row) @ ''-'' @ shown (lr_address row + int (lr_span row) - 1)])"
| "searchTexts (FavoritesView f) r =
     (let def = fe_definition (fv_entries f ! r)
      in [rd_label def, rd_description def,
          number (displayAddress (rd_registerType def) (rd_address def) (fv_addressConvention f)),
          fs_unit (rd_format def)])"
| "searchTexts (TagPicker db) r =
     (let tag = td_tags db ! r
      in [rd_label tag, rd_description tag, number (rd_address tag), fs_unit (rd_format tag)])"

definition found :: "string \<Rightarrow> 'd listModel \<Rightarrow> nat \<Rightarrow> bool" where
  "found needle m r \<longleftrightarrow> needle = [] \<or> list_ex (\<lambda>s. containsNoCase s needle) (searchTexts m r)"

lemma anyMatches_found:
  assumes "r < rowCountOf m"
  shows "anyMatches N m r needle kSearchableRoleNames =
    Some (list_ex (\<lambda>s. containsNoCase s needle) (searchTexts m r))"
proof (cases m)
  case (NormalView t)
  with assms show ?thesis
    by (simp add: kSearchableRoleNames_def tableRoleNames_def tableData_def Let_def)
next
  case (FavoritesView f)
  with assms show ?thesis
    by (simp add: kSearchableRoleNames_def favoriteRoleNames_def favData_def Let_def)
next
  case (TagPicker db)
  with assms show ?thesis
    by (simp add: kSearchableRoleNames_def tagRoleNames_def tagCell_def Let_def)
qed

lemma filterAcceptsRow_found: "r < rowCountOf m \<Longrightarrow> filterAcceptsRow N needle (Some m) r = Some (found needle m r)"
  by (simp add: filterAcceptsRow_def found_def anyMatches_found)

lemma acceptedRows_found:
  "\<forall>r \<in> set rs. r < rowCountOf m \<Longrightarrow> acceptedRows N needle m rs = Some (filter (found needle m) rs)"
  by (induction rs) (simp_all add: filterAcceptsRow_found)

lemma visibleRows_found: "visibleRows N p m = Some (filter (found (fp_filterText p) m) [0..<rowCountOf m])"
  unfolding visibleRows_def by (rule acceptedRows_found) simp

lemma found_cong: "searchTexts m r = searchTexts m' r \<Longrightarrow> found needle m r = found needle m' r"
  by (simp add: found_def)

lemma visible_cong:
  assumes "rowCountOf m = rowCountOf m'" and "\<And>r. r < rowCountOf m \<Longrightarrow> searchTexts m r = searchTexts m' r"
  shows "visibleRows N p m = visibleRows N p m'"
  unfolding visibleRows_found using assms found_cong [of m _ m'] by (auto intro!: filter_cong)

lemma equalsNoCase_prefix:
  assumes "equalsNoCase (take (length (needle @ typed)) s) (needle @ typed)"
  shows "equalsNoCase (take (length needle) s) needle"
proof -
  have "take (length needle) (map lower_char (take (length (needle @ typed)) s)) =
      take (length needle) (map lower_char (needle @ typed))"
    using assms by (simp add: equalsNoCase_def toLower_def)
  then show ?thesis by (simp add: equalsNoCase_def toLower_def take_map min_def split: if_splits)
qed

lemma containsNoCase_shorter: "containsNoCase s (needle @ typed) \<Longrightarrow> containsNoCase s needle"
proof (induction s)
  case (Cons c s)
  then show ?case using equalsNoCase_prefix [of needle typed "c # s"] by auto
qed simp

lemma found_shorter: "found (needle @ typed) m r \<Longrightarrow> found needle m r"
  by (auto simp: found_def list_ex_iff intro: containsNoCase_shorter)

text \<open>In each of the three lists a search never fails and shows, in order, exactly the rows one of
  whose searchable texts (label, description, address as displayed, unit; the address alone in the Normal
  view) contains the search text in any case. No text shows all rows, and typing on only narrows the
  result. A row of the view leads back to the row it shows, and anything else to no row.\<close>

theorem search_shows_matching_rows:
  "let rows = filter (found (fp_filterText p) m) [0..<rowCountOf m]
   in visibleRows N p m = Some rows \<and>
      mapRowToSource N p m i = Some (if 0 \<le> i \<and> i < int (length rows) then int (rows ! nat i) else - 1) \<and>
      filter (found [] m) [0..<rowCountOf m] = [0..<rowCountOf m] \<and>
      {r. found (fp_filterText p @ typed) m r} \<subseteq> {r. found (fp_filterText p) m r}"
  using found_shorter
  by (auto simp: mapRowToSource_def visibleRows_found list_at_def Let_def found_def [of "[]"] split: option.split)

text \<open>The updates polling makes: to the table, values of the shape it has and the loss of the connection;
  to the favorites, new values and failures.\<close>

definition table_polled :: "'d numerics \<Rightarrow> 'd table \<Rightarrow> 'd table \<Rightarrow> bool" where
  "table_polled N t t' \<longleftrightarrow>
     (\<exists>vals. length vals = length (tb_rawValues t) \<and> setRegisters N (tb_startAddress t) vals t = Some t') \<or>
     (\<exists>vals. length vals = length (tb_bitValues t) \<and> setBits N (tb_startAddress t) vals t = t') \<or>
     t' = tableMarkStale t"

fun favorites_polled :: "'d numerics \<Rightarrow> 'd favorites \<Rightarrow> 'd favOp \<Rightarrow> 'd favorites option" where
  "favorites_polled N f (ApplyRegisterUpdate i vals) = applyRegisterUpdate N i vals f"
| "favorites_polled N f (ApplyBitUpdate i vals) = Some (applyBitUpdate i vals f)"
| "favorites_polled N f (FavMarkStale r) = Some (favMarkStale r f)"
| "favorites_polled N f op = None"

lemma clearStale_convention [simp]: "tb_addressConvention (clearStale t) = tb_addressConvention t"
  by (simp add: clearStale_def emitTable_def)

text \<open>What the searched texts of a table depend on.\<close>

definition shape :: "'d table \<Rightarrow> 'd LogicalRow list \<times> RegisterType \<times> AddressConvention" where
  "shape t = (tb_logicalRows t, tb_registerType t, tb_addressConvention t)"

lemma table_polled_shape: "table_polled N t t' \<Longrightarrow> shape t' = shape t"
  unfolding table_polled_def shape_def
proof (elim disjE exE conjE)
  fix vals assume "length vals = length (tb_rawValues t)" "setRegisters N (tb_startAddress t) vals t = Some t'"
  then show "(tb_logicalRows t', tb_registerType t', tb_addressConvention t') =
      (tb_logicalRows t, tb_registerType t, tb_addressConvention t)"
    by (auto simp: setRegisters_def Let_def emitTable_def split: prod.splits option.splits Option.bind_splits)
next
  fix vals assume "length vals = length (tb_bitValues t)" "setBits N (tb_startAddress t) vals t = t'"
  then show "(tb_logicalRows t', tb_registerType t', tb_addressConvention t') =
      (tb_logicalRows t, tb_registerType t, tb_addressConvention t)"
    by (auto simp: setBits_def Let_def emitTable_def split: prod.splits option.splits)
qed (simp add: tableMarkStale_def emitTable_def)

lemma shape_visible:
  assumes "shape t' = shape t"
  shows "visibleRows N p (NormalView t') = visibleRows N p (NormalView t)"
  by (rule visible_cong) (use assms in \<open>simp_all add: shape_def\<close>)

definition tags_of :: "'d favorites \<Rightarrow> 'd RegisterDefinition list \<times> AddressConvention" where
  "tags_of f = (map fe_definition (fv_entries f), fv_addressConvention f)"

lemma map_update_same: "g x = g (xs ! i) \<Longrightarrow> map g (xs[i := x]) = map g xs"
  by (metis list_update_id map_update)

lemma favorites_polled_tags: "favorites_polled N f op = Some f' \<Longrightarrow> tags_of f' = tags_of f"
  by (cases op)
    (auto simp: applyRegisterUpdate_def applyBitUpdate_def favMarkStale_def tags_of_def emitFav_def Let_def
      list_at_eq_Some map_update_same split: option.splits if_splits)

lemma tags_visible:
  assumes "tags_of f' = tags_of f"
  shows "visibleRows N p (FavoritesView f') = visibleRows N p (FavoritesView f)"
proof (rule visible_cong)
  have eq: "map fe_definition (fv_entries f') = map fe_definition (fv_entries f)"
    "fv_addressConvention f' = fv_addressConvention f" using assms by (simp_all add: tags_of_def)
  from map_eq_imp_length_eq [OF eq(1)] show l: "rowCountOf (FavoritesView f') = rowCountOf (FavoritesView f)" by simp
  fix r assume "r < rowCountOf (FavoritesView f')"
  with l eq(1) have "fe_definition (fv_entries f' ! r) = fe_definition (fv_entries f ! r)"
    by (metis nth_map rowCountOf.simps(2))
  with eq(2) show "searchTexts (FavoritesView f') r = searchTexts (FavoritesView f) r" by simp
qed

text \<open>C16: polling goes on under a search: no sequence of polled values, failures and staleness marks changes
  which rows of the Normal view or of the favorites are shown, so a search result never moves under the
  user's cursor and a row of the view keeps leading to the same register.\<close>

theorem polling_keeps_search_results:
  assumes "(table_polled N)\<^sup>*\<^sup>* t t'"
    and "foldl (\<lambda>f op. Option.bind f (\<lambda>f. favorites_polled N f op)) (Some f) ops = Some f'"
  shows "visibleRows N p (NormalView t') = visibleRows N p (NormalView t) \<and>
    visibleRows N p (FavoritesView f') = visibleRows N p (FavoritesView f) \<and>
    mapRowToSource N p (NormalView t') i = mapRowToSource N p (NormalView t) i \<and>
    mapRowToSource N p (FavoritesView f') i = mapRowToSource N p (FavoritesView f) i"
proof -
  from assms(1) have t: "shape t' = shape t"
    by (induction) (auto dest: table_polled_shape)
  from assms(2) have f: "tags_of f' = tags_of f"
  proof (induction ops arbitrary: f' rule: rev_induct)
    case (snoc op ops)
    then show ?case by (auto simp: bind_eq_Some_conv dest: favorites_polled_tags)
  qed simp
  show ?thesis by (simp add: mapRowToSource_def shape_visible [OF t] tags_visible [OF f])
qed

theorem polling_keeps_search_results_witness:
  "\<exists>t t' f f'. setRegisters int_numerics 10 [1, 2, 3] newTable = Some t \<and>
     setRegisters int_numerics 10 [1, 7, 3] t = Some t' \<and> tb_rawValues t' = [1, 7, 3] \<and>
     f = addAdHoc int_numerics HoldingRegister 12 newFavorites \<and>
     favorites_polled int_numerics f (ApplyRegisterUpdate 0 [5]) = Some f' \<and>
     visibleRows int_numerics \<lparr>fp_filterText = ''12'', fp_signals = []\<rparr> (NormalView t') =
       visibleRows int_numerics \<lparr>fp_filterText = ''12'', fp_signals = []\<rparr> (NormalView t) \<and>
     visibleRows int_numerics \<lparr>fp_filterText = ''12'', fp_signals = []\<rparr> (FavoritesView f') =
       visibleRows int_numerics \<lparr>fp_filterText = ''12'', fp_signals = []\<rparr> (FavoritesView f)"
proof -
  define f where "f = addAdHoc int_numerics HoldingRegister 12 newFavorites"
  obtain t where t: "setRegisters int_numerics 10 [1, 2, 3] newTable = Some t"
    and raw: "tb_startAddress t = 10" "tb_rawValues t = [1, 2, 3]" and bits: "\<not> tableIsBits t"
    by (simp add: setRegisters_def newTable_def clearStale_def Let_def rebuild_eq emitTable_def)
  have fr: "fresh int_numerics t" by (rule setRegisters_fresh [OF fresh_newTable t])
  from in_place_update [OF fr bits, of 10 "[1, 7, 3]"] raw obtain t' where
    t': "setRegisters int_numerics 10 [1, 7, 3] t = Some t'" and raw': "tb_rawValues t' = [1, 7, 3]" by auto
  have "table_polled int_numerics t t'"
    unfolding table_polled_def using t' raw by (intro disjI1 exI [of _ "[1, 7, 3]"]) simp
  then have p: "(table_polled int_numerics)\<^sup>*\<^sup>* t t'" by (rule r_into_rtranclp)
  obtain f' where f': "favorites_polled int_numerics f (ApplyRegisterUpdate 0 [5]) = Some f'"
    by (simp add: f_def addAdHoc_def appendEntry_def freshEntry_def newFavorites_def emitFav_def
        applyRegisterUpdate_def registerSpan_def emptyDefinition_def defaultFormat_def numericValue_def Let_def)
  then have q: "foldl (\<lambda>f op. Option.bind f (\<lambda>f. favorites_polled int_numerics f op)) (Some f)
      [ApplyRegisterUpdate 0 [5]] = Some f'" by simp
  from polling_keeps_search_results [OF p q, of "\<lparr>fp_filterText = ''12'', fp_signals = []\<rparr>" 0] t t' raw' f'
  show ?thesis unfolding f_def by blast
qed

end
